(* ===== verification/Rulisp_Prelude.thy ===== *)
theory Rulisp_Prelude
  imports Main "HOL-Library.Word" "HOL-Library.Char_ord"
begin

text \<open>
  Shared vocabulary of the development.

  A Rust \<^verbatim>\<open>String\<close>, \<^verbatim>\<open>&str\<close>, \<^verbatim>\<open>Vec<u8>\<close> or \<^verbatim>\<open>&[u8]\<close> is a list of octets, and an octet is a
  HOL \<open>char\<close> (eight bits).  A string is therefore its UTF-8 encoding: \<open>length\<close> is Rust's
  \<^verbatim>\<open>str::len\<close>, and pushing one string onto another is list append.  The Rust standard-library
  operations the sources use on such lists (\<^verbatim>\<open>split\<close>, \<^verbatim>\<open>position\<close>, \<^verbatim>\<open>strip_suffix\<close>, \<^verbatim>\<open>join\<close>,
  decimal printing and parsing, \<^verbatim>\<open>Result\<close>-collecting iteration) are defined here once, with the
  lemmas the component theories share.
\<close>

section \<open>Types\<close>

type_synonym octet = char
type_synonym bytes = "char list"
type_synonym u8 = "8 word"
type_synonym u16 = "16 word"
type_synonym u32 = "32 word"
type_synonym u64 = "64 word"
type_synonym i32 = "32 word"
type_synonym i64 = "64 word"
type_synonym ptr = "64 word"
type_synonym tid = nat
type_synonym ('e, 'a) result = "'e + 'a"

named_theorems codec_simps \<open>equations of the byte-string library\<close>
named_theorems result_simps \<open>equations of the result type\<close>

section \<open>Octets\<close>

abbreviation code :: "octet \<Rightarrow> nat" where
  "code c \<equiv> of_char c"

abbreviation octet :: "nat \<Rightarrow> octet" where
  "octet n \<equiv> char_of n"

abbreviation CR :: octet where
  "CR \<equiv> CHR 0x0D"

abbreviation LF :: octet where
  "LF \<equiv> CHR 0x0A"

abbreviation TAB :: octet where
  "TAB \<equiv> CHR 0x09"

abbreviation QUOTE :: octet where
  "QUOTE \<equiv> CHR 0x22"

abbreviation BACKSLASH :: octet where
  "BACKSLASH \<equiv> CHR 0x5C"

lemma code_less_256: "code c < 256"
  using of_char_mod_256 [of c] by (metis mod_less_divisor zero_less_numeral)

lemma code_octet: "n < 256 \<Longrightarrow> code (octet n) = n"
  by simp

lemma octet_code: "octet (code c) = c"
  by simp

section \<open>Results: the question-mark operator and collecting iteration\<close>

definition bindR :: "('e, 'a) result \<Rightarrow> ('a \<Rightarrow> ('e, 'b) result) \<Rightarrow> ('e, 'b) result" where
  "bindR r k = (case r of Inl e \<Rightarrow> Inl e | Inr a \<Rightarrow> k a)"

lemma bindR_simps [simp, result_simps]:
  "bindR (Inl e) k = Inl e"
  "bindR (Inr a) k = k a"
  by (simp_all add: bindR_def)

lemma bindR_eq_Inr [result_simps]:
  "bindR r k = Inr b \<longleftrightarrow> (\<exists>a. r = Inr a \<and> k a = Inr b)"
  by (cases r) auto

lemma bindR_eq_Inl [result_simps]:
  "bindR r k = Inl e \<longleftrightarrow> r = Inl e \<or> (\<exists>a. r = Inr a \<and> k a = Inl e)"
  by (cases r) auto

text \<open>\<^verbatim>\<open>iter().map(f).collect::<Result<Vec<_>, _>>()\<close>: the first error ends the walk.\<close>

fun mapR :: "('a \<Rightarrow> ('e, 'b) result) \<Rightarrow> 'a list \<Rightarrow> ('e, 'b list) result" where
  "mapR f [] = Inr []"
| "mapR f (x # xs) = bindR (f x) (\<lambda>y. bindR (mapR f xs) (\<lambda>ys. Inr (y # ys)))"

lemma mapR_Inr_iff:
  "mapR f xs = Inr ys \<longleftrightarrow> list_all2 (\<lambda>x y. f x = Inr y) xs ys"
proof (induction xs arbitrary: ys)
  case Nil
  show ?case by auto
next
  case (Cons x xs)
  show ?case
    by (cases ys) (auto simp: bindR_eq_Inr Cons.IH)
qed

lemma mapR_elem: "mapR f xs = Inr ys \<Longrightarrow> x \<in> set xs \<Longrightarrow> \<exists>y\<in>set ys. f x = Inr y"
  by (fastforce simp: mapR_Inr_iff list_all2_conv_all_nth in_set_conv_nth)

lemma mapR_length: "mapR f xs = Inr ys \<Longrightarrow> length ys = length xs"
  by (auto simp: mapR_Inr_iff dest: list_all2_lengthD)

section \<open>Slices\<close>

text \<open>\<^verbatim>\<open>slice.iter().position(p)\<close>\<close>

fun position :: "('a \<Rightarrow> bool) \<Rightarrow> 'a list \<Rightarrow> nat option" where
  "position p [] = None"
| "position p (x # xs) = (if p x then Some 0 else map_option Suc (position p xs))"

lemma position_None: "position p xs = None \<longleftrightarrow> (\<forall>x\<in>set xs. \<not> p x)"
  by (induction xs) auto

lemma position_Some:
  "position p xs = Some i \<Longrightarrow> i < length xs \<and> p (xs ! i) \<and> (\<forall>x\<in>set (take i xs). \<not> p x)"
  by (induction xs arbitrary: i) (auto split: if_splits)

lemma position_append:
  "(\<forall>x\<in>set xs. \<not> p x) \<Longrightarrow> p y \<Longrightarrow> position p (xs @ y # ys) = Some (length xs)"
  by (induction xs) auto

text \<open>\<^verbatim>\<open>slice.split(|b| b == sep)\<close>: always at least one piece; \<open>n\<close> separators give \<open>n + 1\<close> pieces.\<close>

fun split_on :: "'a \<Rightarrow> 'a list \<Rightarrow> 'a list list" where
  "split_on sep [] = [[]]"
| "split_on sep (x # xs) =
     (if x = sep then [] # split_on sep xs
      else (case split_on sep xs of [] \<Rightarrow> [[x]] | p # ps \<Rightarrow> (x # p) # ps))"

lemma split_on_not_Nil [simp]: "split_on sep xs \<noteq> []"
  by (induction xs) (auto split: list.splits)

lemma split_on_append [codec_simps]:
  "sep \<notin> set xs \<Longrightarrow> split_on sep (xs @ sep # ys) = xs # split_on sep ys"
  by (induction xs) auto

lemma split_on_no_sep [codec_simps]: "sep \<notin> set xs \<Longrightarrow> split_on sep xs = [xs]"
  by (induction xs) auto

text \<open>\<^verbatim>\<open>slice.strip_suffix\<close> and \<^verbatim>\<open>strip_prefix\<close> with a one-element pattern.\<close>

definition strip_suffix1 :: "'a \<Rightarrow> 'a list \<Rightarrow> 'a list option" where
  "strip_suffix1 c xs = (if xs \<noteq> [] \<and> last xs = c then Some (butlast xs) else None)"

definition strip_prefix1 :: "'a \<Rightarrow> 'a list \<Rightarrow> 'a list option" where
  "strip_prefix1 c xs = (case xs of [] \<Rightarrow> None | x # xs' \<Rightarrow> if x = c then Some xs' else None)"

lemma strip_suffix1_snoc [simp, codec_simps]: "strip_suffix1 c (xs @ [c]) = Some xs"
  by (simp add: strip_suffix1_def)

lemma strip_suffix1_Nil [simp, codec_simps]: "strip_suffix1 c [] = None"
  by (simp add: strip_suffix1_def)

text \<open>\<^verbatim>\<open>[String]::join(sep)\<close>\<close>

fun join :: "'a list \<Rightarrow> 'a list list \<Rightarrow> 'a list" where
  "join sep [] = []"
| "join sep [x] = x"
| "join sep (x # y # zs) = x @ sep @ join sep (y # zs)"

lemma join_Cons: "join sep (x # xs) = x @ (if xs = [] then [] else sep @ join sep xs)"
  by (cases xs) auto

section \<open>Numbers\<close>

definition clamp :: "'a::linorder \<Rightarrow> 'a \<Rightarrow> 'a \<Rightarrow> 'a" where
  "clamp lo hi x = (if x < lo then lo else if hi < x then hi else x)"

lemma clamp_bounds: "lo \<le> hi \<Longrightarrow> lo \<le> clamp lo hi x \<and> clamp lo hi x \<le> hi"
  by (auto simp: clamp_def)

text \<open>\<^verbatim>\<open>to_string\<close> on an unsigned integer.\<close>

fun dec :: "nat \<Rightarrow> bytes" where
  "dec n = (if n < 10 then [octet (48 + n)] else dec (n div 10) @ [octet (48 + n mod 10)])"

declare dec.simps [simp del]

definition is_digit :: "octet \<Rightarrow> bool" where
  "is_digit c \<longleftrightarrow> 48 \<le> code c \<and> code c \<le> 57"

definition undec :: "bytes \<Rightarrow> nat" where
  "undec s = foldl (\<lambda>n c. 10 * n + (code c - 48)) 0 s"

lemma undec_snoc: "undec (s @ [c]) = 10 * undec s + (code c - 48)"
  by (simp add: undec_def)

lemma dec_digits: "c \<in> set (dec n) \<Longrightarrow> is_digit c"
proof (induction n rule: dec.induct)
  case (1 n)
  have digit: "is_digit (octet (48 + m))" if "m < 10" for m :: nat
    using that by (simp add: is_digit_def)
  show ?case
  proof (cases "n < 10")
    case True
    with "1.prems" digit show ?thesis by (auto simp: dec.simps [of n])
  next
    case False
    with "1.prems" have "c \<in> set (dec (n div 10)) \<or> c = octet (48 + n mod 10)"
      by (auto simp: dec.simps [of n])
    then show ?thesis
      using "1.IH" False digit [of "n mod 10"] by auto
  qed
qed

lemma dec_not_Nil [simp]: "dec n \<noteq> []"
  by (subst dec.simps) simp

lemma undec_dec [simp]: "undec (dec n) = n"
proof (induction n rule: dec.induct)
  case (1 n)
  show ?case
  proof (cases "n < 10")
    case True
    then show ?thesis by (simp add: dec.simps [of n] undec_def)
  next
    case False
    then have "undec (dec n) = 10 * undec (dec (n div 10)) + n mod 10"
      by (simp add: dec.simps [of n] undec_snoc)
    with False "1.IH" show ?thesis by simp
  qed
qed

lemma dec_inject: "dec m = dec n \<longleftrightarrow> m = n"
  by (metis undec_dec)

end
