(* ===== verification/Utf8.thy ===== *)
theory Utf8
  imports Rulisp_Prelude
begin

text \<open>
  \<^verbatim>\<open>core::str::from_utf8\<close>, the standard-library validator that \<^verbatim>\<open>rulisp_runtime::str_arg\<close>
  runs on every string argument that arrives from Lisp, with the position and length it reports for
  a malformed sequence, and the text of \<^verbatim>\<open>Utf8Error\<close>'s \<^verbatim>\<open>Display\<close>.  The reference notion is the
  encoding of a list of Unicode scalar values; the validator accepts exactly its image.
\<close>

section \<open>The validator\<close>

record utf8_error =
  valid_up_to :: nat
  error_len :: "nat option"

definition in_range :: "nat \<Rightarrow> nat \<Rightarrow> octet \<Rightarrow> bool" where
  "in_range lo hi c \<longleftrightarrow> lo \<le> code c \<and> code c \<le> hi"

abbreviation continuation :: "octet \<Rightarrow> bool" where
  "continuation c \<equiv> in_range 0x80 0xBF c"

text \<open>The table \<^verbatim>\<open>UTF8_CHAR_WIDTH\<close>: 0 marks an octet no sequence starts with.\<close>

definition utf8_char_width :: "octet \<Rightarrow> nat" where
  "utf8_char_width b =
     (if code b < 0x80 then 1 else if code b < 0xC2 then 0 else if code b < 0xE0 then 2
      else if code b < 0xF0 then 3 else if code b < 0xF5 then 4 else 0)"

text \<open>The second octet of a three- or four-octet sequence: no overlong forms, no surrogates.\<close>

definition second_ok :: "octet \<Rightarrow> octet \<Rightarrow> bool" where
  "second_ok b c =
     (if code b = 0xE0 then in_range 0xA0 0xBF c
      else if code b = 0xED then in_range 0x80 0x9F c
      else if code b = 0xF0 then in_range 0x90 0xBF c
      else if code b = 0xF4 then in_range 0x80 0x8F c
      else continuation c)"

fun run_utf8_validation :: "nat \<Rightarrow> bytes \<Rightarrow> utf8_error option" where
  "run_utf8_validation i [] = None"
| "run_utf8_validation i (b # bs) =
     (let err = (\<lambda>n. Some \<lparr>valid_up_to = i, error_len = n\<rparr>); w = utf8_char_width b in
      if w = 1 then run_utf8_validation (i + 1) bs
      else if w = 2 then
        (case bs of [] \<Rightarrow> err None
         | c1 # r1 \<Rightarrow> if continuation c1 then run_utf8_validation (i + 2) r1 else err (Some 1))
      else if w = 3 then
        (case bs of [] \<Rightarrow> err None
         | c1 # r1 \<Rightarrow>
             if \<not> second_ok b c1 then err (Some 1)
             else (case r1 of [] \<Rightarrow> err None
                   | c2 # r2 \<Rightarrow> if continuation c2 then run_utf8_validation (i + 3) r2
                               else err (Some 2)))
      else if w = 4 then
        (case bs of [] \<Rightarrow> err None
         | c1 # r1 \<Rightarrow>
             if \<not> second_ok b c1 then err (Some 1)
             else (case r1 of [] \<Rightarrow> err None
                   | c2 # r2 \<Rightarrow>
                       if \<not> continuation c2 then err (Some 2)
                       else (case r2 of [] \<Rightarrow> err None
                             | c3 # r3 \<Rightarrow> if continuation c3 then run_utf8_validation (i + 4) r3
                                         else err (Some 3))))
      else err (Some 1))"

definition from_utf8 :: "bytes \<Rightarrow> (utf8_error, bytes) result" where
  "from_utf8 bs = (case run_utf8_validation 0 bs of None \<Rightarrow> Inr bs | Some e \<Rightarrow> Inl e)"

text \<open>\<^verbatim>\<open>impl Display for Utf8Error\<close>\<close>

definition utf8_error_string :: "utf8_error \<Rightarrow> bytes" where
  "utf8_error_string e =
     (case error_len e of
        Some n \<Rightarrow> ''invalid utf-8 sequence of '' @ dec n @ '' bytes from index '' @ dec (valid_up_to e)
      | None \<Rightarrow> ''incomplete utf-8 byte sequence from index '' @ dec (valid_up_to e))"

section \<open>Scalar values and their encoding\<close>

definition scalar_value :: "nat \<Rightarrow> bool" where
  "scalar_value n \<longleftrightarrow> n < 0x110000 \<and> \<not> (0xD800 \<le> n \<and> n < 0xE000)"

definition encode_utf8 :: "nat \<Rightarrow> bytes" where
  "encode_utf8 n =
     (if n < 0x80 then [octet n]
      else if n < 0x800 then [octet (0xC0 + n div 64), octet (0x80 + n mod 64)]
      else if n < 0x10000 then
        [octet (0xE0 + n div 4096), octet (0x80 + n div 64 mod 64), octet (0x80 + n mod 64)]
      else [octet (0xF0 + n div 262144), octet (0x80 + n div 4096 mod 64),
            octet (0x80 + n div 64 mod 64), octet (0x80 + n mod 64)])"

definition encode_string :: "nat list \<Rightarrow> bytes" where
  "encode_string cs = concat (map encode_utf8 cs)"

definition well_formed :: "bytes \<Rightarrow> bool" where
  "well_formed bs \<longleftrightarrow> run_utf8_validation 0 bs = None"

section \<open>The validator accepts every encoding\<close>

lemma div_4096: "(n::nat) div 4096 = n div 64 div 64"
  by (simp add: div_mult2_eq [symmetric])

lemma div_262144: "(n::nat) div 262144 = n div 64 div 64 div 64"
  by (simp add: div_mult2_eq [symmetric])

lemma sextet: "z < 64 \<Longrightarrow> (q * 64 + z) div 64 = (q::nat) \<and> (q * 64 + z) mod 64 = z"
  by simp

lemma second_sextet:
  fixes q :: nat
  shows "32 \<le> q \<Longrightarrow> q div 64 = 0 \<Longrightarrow> 32 \<le> q mod 64"
    and "q < 864 \<or> 896 \<le> q \<Longrightarrow> q div 64 = 13 \<Longrightarrow> q mod 64 < 32"
    and "16 \<le> q \<Longrightarrow> q div 64 = 0 \<Longrightarrow> 16 \<le> q mod 64"
    and "q < 272 \<Longrightarrow> q div 64 = 4 \<Longrightarrow> q mod 64 < 16"
  using div_mult_mod_eq [of q 64] mod_less_divisor [of 64 q] by linarith+

lemma run_encode_utf8:
  assumes "scalar_value n"
  shows "run_utf8_validation i (encode_utf8 n @ bs) =
         run_utf8_validation (i + length (encode_utf8 n)) bs"
proof -
  consider (one) "n < 0x80" | (two) "0x80 \<le> n" "n < 0x800"
    | (three) "0x800 \<le> n" "n < 0x10000" | (four) "0x10000 \<le> n" "n < 0x110000"
    using assms unfolding scalar_value_def by linarith
  then show ?thesis
  proof cases
    case one
    then show ?thesis by (simp add: encode_utf8_def utf8_char_width_def)
  next
    case two
    then have "2 \<le> n div 64" "n div 64 < 32" "n mod 64 \<le> 63" by auto
    with two show ?thesis
      by (simp add: encode_utf8_def utf8_char_width_def in_range_def)
  next
    case three
    then have d: "n div 4096 < 16" "n div 64 mod 64 < 64" "n mod 64 < 64"
      "n div 64 mod 64 \<le> 63" "n mod 64 \<le> 63" by auto
    have q: "32 \<le> n div 64" "n div 64 < 864 \<or> 896 \<le> n div 64"
      using three assms by (auto simp: scalar_value_def)
    have e0: "n div 4096 = 0 \<Longrightarrow> 32 \<le> n div 64 mod 64"
      using q(1) unfolding div_4096 by (rule second_sextet)
    have ed: "n div 4096 = 13 \<Longrightarrow> n div 64 mod 64 < 32"
      using q(2) unfolding div_4096 by (rule second_sextet)
    have "second_ok (octet (0xE0 + n div 4096)) (octet (0x80 + n div 64 mod 64))"
      using d e0 ed by (auto simp: second_ok_def in_range_def)
    moreover have width: "i + 3 = Suc (Suc (Suc i))" by simp
    ultimately show ?thesis using three d
      by (simp add: encode_utf8_def utf8_char_width_def in_range_def width)
  next
    case four
    then have d: "n div 262144 < 5" "n div 4096 mod 64 < 64" "n div 64 mod 64 < 64" "n mod 64 < 64"
      "n div 4096 mod 64 \<le> 63" "n div 64 mod 64 \<le> 63" "n mod 64 \<le> 63"
      by auto
    have q: "16 \<le> n div 4096" "n div 4096 < 272" using four by auto
    have h: "n div 262144 = n div 4096 div 64" by (simp add: div_mult2_eq [symmetric])
    have f0: "n div 262144 = 0 \<Longrightarrow> 16 \<le> n div 4096 mod 64"
      using q(1) unfolding h by (rule second_sextet)
    have f4: "n div 262144 = 4 \<Longrightarrow> n div 4096 mod 64 < 16"
      using q(2) unfolding h by (rule second_sextet)
    have "second_ok (octet (0xF0 + n div 262144)) (octet (0x80 + n div 4096 mod 64))"
      using d f0 f4 by (auto simp: second_ok_def in_range_def)
    moreover have width: "i + 4 = Suc (Suc (Suc (Suc i)))" by simp
    ultimately show ?thesis using four d
      by (simp add: encode_utf8_def utf8_char_width_def in_range_def width)
  qed
qed

lemma run_encode_string:
  "\<forall>n\<in>set cs. scalar_value n \<Longrightarrow> run_utf8_validation i (encode_string cs) = None"
  by (induction cs arbitrary: i) (simp_all add: encode_string_def run_encode_utf8)

section \<open>Everything it accepts is an encoding\<close>

lemma encode1: "code b < 0x80 \<Longrightarrow> scalar_value (code b) \<and> encode_utf8 (code b) = [b]"
  by (simp add: scalar_value_def encode_utf8_def)

lemma octet_eqI: "code c = n \<Longrightarrow> octet n = c"
  by auto

lemma encode2:
  assumes "0xC2 \<le> code b" "code b < 0xE0" "continuation c"
  defines "n \<equiv> (code b - 0xC0) * 64 + (code c - 0x80)"
  shows "scalar_value n \<and> encode_utf8 n = [b, c]"
proof -
  obtain x where x: "code b = 0xC0 + x" using assms(1) le_Suc_ex [of "0xC0" "code b"] by auto
  obtain y where y: "code c = 0x80 + y" using assms(3) by (auto simp: in_range_def dest: le_Suc_ex)
  have b: "2 \<le> x" "x < 32" "y < 64" using assms x y by (auto simp: in_range_def)
  have n: "n = x * 64 + y" using x y by (simp add: n_def)
  have r: "n div 64 = x" "n mod 64 = y" "0x80 \<le> n" "n < 0x800" using n b by auto
  then show ?thesis
    using octet_eqI [OF x] octet_eqI [OF y] by (simp add: scalar_value_def encode_utf8_def)
qed

lemma encode3:
  assumes "0xE0 \<le> code b" "code b < 0xF0" "second_ok b c" "continuation d"
  defines "n \<equiv> (code b - 0xE0) * 4096 + (code c - 0x80) * 64 + (code d - 0x80)"
  shows "scalar_value n \<and> encode_utf8 n = [b, c, d]"
proof -
  have c: "continuation c" using assms by (auto simp: second_ok_def in_range_def split: if_splits)
  obtain x where x: "code b = 0xE0 + x" using assms(1) by (auto dest: le_Suc_ex)
  obtain y where y: "code c = 0x80 + y" using c by (auto simp: in_range_def dest: le_Suc_ex)
  obtain z where z: "code d = 0x80 + z" using assms(4) by (auto simp: in_range_def dest: le_Suc_ex)
  have b: "x < 16" "y < 64" "z < 64" using assms c x y z by (auto simp: in_range_def)
  have e: "x = 0 \<longrightarrow> 32 \<le> y" "x = 13 \<longrightarrow> y < 32"
    using assms(3) x y by (auto simp: second_ok_def in_range_def)
  have n: "n = x * 4096 + y * 64 + z" using x y z by (simp add: n_def)
  have "n = (x * 64 + y) * 64 + z" using n by simp
  then have d: "n div 64 = x * 64 + y" "n mod 64 = z"
    using sextet [OF b(3), of "x * 64 + y"] by (simp_all only:)
  then have r: "n div 4096 = x" "n div 64 mod 64 = y" "n mod 64 = z" "n < 0x10000"
    using b n sextet [OF b(2), of x] unfolding div_4096 by simp_all
  have "0x800 \<le> n" using n e(1) by (cases x) auto
  moreover have "\<not> (0xD800 \<le> n \<and> n < 0xE000)"
    using n e(2) b by (cases "x < 13"; cases "x = 13") auto
  ultimately show ?thesis
    using octet_eqI [OF x] octet_eqI [OF y] octet_eqI [OF z] r
    by (simp add: scalar_value_def encode_utf8_def)
qed

lemma encode4:
  assumes "0xF0 \<le> code b" "code b < 0xF5" "second_ok b c" "continuation d" "continuation e"
  defines "n \<equiv> (code b - 0xF0) * 262144 + (code c - 0x80) * 4096 + (code d - 0x80) * 64 + (code e - 0x80)"
  shows "scalar_value n \<and> encode_utf8 n = [b, c, d, e]"
proof -
  have c: "continuation c" using assms by (auto simp: second_ok_def in_range_def split: if_splits)
  obtain x where x: "code b = 0xF0 + x" using assms(1) by (auto dest: le_Suc_ex)
  obtain y where y: "code c = 0x80 + y" using c by (auto simp: in_range_def dest: le_Suc_ex)
  obtain z where z: "code d = 0x80 + z" using assms(4) by (auto simp: in_range_def dest: le_Suc_ex)
  obtain w where w: "code e = 0x80 + w" using assms(5) by (auto simp: in_range_def dest: le_Suc_ex)
  have b: "x < 5" "y < 64" "z < 64" "w < 64" using assms c x y z w by (auto simp: in_range_def)
  have g: "x = 0 \<longrightarrow> 16 \<le> y" "x = 4 \<longrightarrow> y < 16"
    using assms(3) x y by (auto simp: second_ok_def in_range_def)
  have n: "n = x * 262144 + y * 4096 + z * 64 + w" using x y z w by (simp add: n_def)
  have "n = ((x * 64 + y) * 64 + z) * 64 + w" using n by simp
  then have d: "n div 64 = (x * 64 + y) * 64 + z" "n mod 64 = w"
    using sextet [OF b(4), of "(x * 64 + y) * 64 + z"] by (simp_all only:)
  then have d2: "n div 64 div 64 = x * 64 + y" "n div 64 mod 64 = z"
    using sextet [OF b(3), of "x * 64 + y"] by (simp_all only:)
  then have r: "n div 262144 = x" "n div 4096 mod 64 = y" "n div 64 mod 64 = z" "n mod 64 = w"
    using d sextet [OF b(2), of x] unfolding div_4096 div_262144 by simp_all
  have "0x10000 \<le> n" using n g(1) by (cases x) auto
  moreover have "n < 0x110000" using n g(2) b by (cases "x = 4") auto
  ultimately show ?thesis
    using octet_eqI [OF x] octet_eqI [OF y] octet_eqI [OF z] octet_eqI [OF w] r
    by (simp add: scalar_value_def encode_utf8_def)
qed

lemma utf8_char_width_cases:
  obtains (w1) "utf8_char_width b = 1" "code b < 0x80"
    | (w2) "utf8_char_width b = 2" "0xC2 \<le> code b" "code b < 0xE0"
    | (w3) "utf8_char_width b = 3" "0xE0 \<le> code b" "code b < 0xF0"
    | (w4) "utf8_char_width b = 4" "0xF0 \<le> code b" "code b < 0xF5"
    | (w0) "utf8_char_width b = 0"
proof -
  consider "code b < 0x80" | "0x80 \<le> code b" "code b < 0xC2" | "0xC2 \<le> code b" "code b < 0xE0"
    | "0xE0 \<le> code b" "code b < 0xF0" | "0xF0 \<le> code b" "code b < 0xF5" | "0xF5 \<le> code b"
    by linarith
  then show thesis
    by cases (use that in \<open>simp_all add: utf8_char_width_def\<close>)
qed

definition encoded :: "bytes \<Rightarrow> bool" where
  "encoded bs \<longleftrightarrow> (\<exists>cs. (\<forall>n\<in>set cs. scalar_value n) \<and> bs = encode_string cs)"

lemma encoded_Nil: "encoded []"
  unfolding encoded_def by (rule exI [of _ "[]"]) (simp add: encode_string_def)

lemma encoded_append: "scalar_value n \<and> encode_utf8 n = xs \<Longrightarrow> encoded bs \<Longrightarrow> encoded (xs @ bs)"
proof -
  assume n: "scalar_value n \<and> encode_utf8 n = xs" and "encoded bs"
  then obtain cs where cs: "\<forall>n\<in>set cs. scalar_value n" "bs = encode_string cs"
    by (auto simp: encoded_def)
  from cs n have "\<forall>m\<in>set (n # cs). scalar_value m" "xs @ bs = encode_string (n # cs)"
    by (auto simp: encode_string_def)
  then show "encoded (xs @ bs)" unfolding encoded_def by blast
qed

lemma run_None_encoded: "run_utf8_validation i bs = None \<Longrightarrow> encoded bs"
proof (induction i bs rule: run_utf8_validation.induct)
  case (1 i)
  show ?case by (rule encoded_Nil)
next
  case (2 i b bs)
  note IH = "2.IH" [OF refl refl]
  show ?case
  proof (cases b rule: utf8_char_width_cases)
    case w1
    with "2.prems" IH(1) have "encoded bs" by simp
    with encoded_append [OF encode1 [of b]] w1 show ?thesis by simp
  next
    case w2
    with "2.prems" obtain c r where bs: "bs = c # r" and c: "continuation c"
      and r: "run_utf8_validation (i + 2) r = None"
      by (simp split: list.splits if_splits)
    from IH(2) w2(1) bs c r have "encoded r" by simp
    from encoded_append [OF encode2 [OF w2(2,3) c] this] bs show ?thesis by simp
  next
    case w3
    with "2.prems" obtain c d r where bs: "bs = c # d # r" and c: "second_ok b c" "continuation d"
      and r: "run_utf8_validation (i + 3) r = None"
      by (simp split: list.splits if_splits)
    from IH(3) w3(1) bs c r have "encoded r" by simp
    from encoded_append [OF encode3 [OF w3(2,3) c] this] bs show ?thesis by simp
  next
    case w4
    with "2.prems" obtain c d e r where bs: "bs = c # d # e # r"
      and c: "second_ok b c" "continuation d" "continuation e"
      and r: "run_utf8_validation (i + 4) r = None"
      by (simp split: list.splits if_splits)
    from IH(4) w4(1) bs c r have "encoded r" by simp
    from encoded_append [OF encode4 [OF w4(2,3) c] this] bs show ?thesis by simp
  next
    case w0
    with "2.prems" show ?thesis by simp
  qed
qed

lemma well_formed_iff:
  "well_formed bs \<longleftrightarrow> (\<exists>cs. (\<forall>n\<in>set cs. scalar_value n) \<and> bs = encode_string cs)"
  using run_None_encoded run_encode_string by (auto simp: well_formed_def encoded_def)

lemma from_utf8_Inr: "from_utf8 bs = Inr s \<longleftrightarrow> s = bs \<and> well_formed bs"
  by (auto simp: from_utf8_def well_formed_def split: option.splits)

lemma from_utf8_Inl: "(\<exists>e. from_utf8 bs = Inl e) \<longleftrightarrow> \<not> well_formed bs"
  by (auto simp: from_utf8_def well_formed_def split: option.splits)

lemma well_formed_append: "well_formed xs \<Longrightarrow> well_formed ys \<Longrightarrow> well_formed (xs @ ys)"
proof -
  assume "well_formed xs" "well_formed ys"
  then obtain cs ds where "\<forall>n\<in>set (cs @ ds). scalar_value n" "xs @ ys = encode_string (cs @ ds)"
    by (auto simp: well_formed_iff encode_string_def)
  then show ?thesis unfolding well_formed_iff by blast
qed

lemma run_ascii: "\<forall>c\<in>set bs. code c < 0x80 \<Longrightarrow> run_utf8_validation i bs = None"
  by (induction bs arbitrary: i) (auto simp: utf8_char_width_def)

lemma well_formed_ascii: "\<forall>c\<in>set bs. code c < 0x80 \<Longrightarrow> well_formed bs"
  by (simp add: well_formed_def run_ascii)

end
