(* ===== verification/Runtime.thy ===== *)
theory Runtime
  imports Utf8
begin

text \<open>
  \<^verbatim>\<open>crates/rulisp-runtime/src/lib.rs\<close>: the runtime linked into every glue library.

  The state holds the two thread-local slots (\<^verbatim>\<open>LAST_ERROR\<close>, \<^verbatim>\<open>CB_TUNNEL\<close>, one value per thread),
  the global counter \<^verbatim>\<open>LIVE_ALLOCATIONS\<close>, the buffers this library handed out with
  \<^verbatim>\<open>Box::into_raw\<close> and has not taken back, and the boxed handle objects.  An address the global
  allocator returns is an argument of the operation that allocates.  A step whose Rust precondition
  does not hold (an unreadable slice, a \<^verbatim>\<open>dealloc\<close> that describes no live allocation, a dead handle)
  is undefined behaviour and is the value \<open>None\<close>; that it cannot happen is then a theorem.
  Lengths and sizes are \<open>nat\<close>: a Rust allocation never exceeds \<^verbatim>\<open>isize::MAX\<close> octets.
\<close>

section \<open>Constants\<close>

definition ABI_VERSION :: u32 where "ABI_VERSION = 1"
definition STATUS_OK :: i32 where "STATUS_OK = 0"
definition STATUS_ERR :: i32 where "STATUS_ERR = 1"
definition STATUS_PANIC :: i32 where "STATUS_PANIC = 2"
definition STATUS_INVALID :: i32 where "STATUS_INVALID = 3"
definition STATUS_CB_ERR :: i32 where "STATUS_CB_ERR = 4"

lemmas status_defs =
  STATUS_OK_def STATUS_ERR_def STATUS_PANIC_def STATUS_INVALID_def STATUS_CB_ERR_def

section \<open>State\<close>

record block =
  block_size :: nat
  block_align :: nat
  block_data :: bytes

record 'h runtime =
  LAST_ERROR :: "tid \<Rightarrow> bytes \<times> bytes"
  CB_TUNNEL :: "tid \<Rightarrow> bool"
  LIVE_ALLOCATIONS :: i64
  blocks :: "ptr \<rightharpoonup> block"
  handles :: "ptr \<rightharpoonup> 'h"

definition init_runtime :: "'h runtime" where
  "init_runtime = \<lparr>LAST_ERROR = (\<lambda>_. ([], [])), CB_TUNNEL = (\<lambda>_. False), LIVE_ALLOCATIONS = 0,
     blocks = Map.empty, handles = Map.empty\<rparr>"

section \<open>The last-error slot and the callback tunnel\<close>

definition set_last_error :: "tid \<Rightarrow> bytes \<Rightarrow> bytes \<Rightarrow> ('h, 'z) runtime_scheme \<Rightarrow> ('h, 'z) runtime_scheme" where
  "set_last_error t kind msg s = s\<lparr>LAST_ERROR := (LAST_ERROR s)(t := (kind, msg))\<rparr>"

text \<open>The four out-parameters: the two borrowed strings with their lengths.\<close>

definition read_last_error :: "tid \<Rightarrow> ('h, 'z) runtime_scheme \<Rightarrow> (bytes \<times> nat) \<times> (bytes \<times> nat)" where
  "read_last_error t s =
     (let e = LAST_ERROR s t in ((fst e, length (fst e)), (snd e, length (snd e))))"

definition set_callback_tunnel :: "tid \<Rightarrow> ('h, 'z) runtime_scheme \<Rightarrow> ('h, 'z) runtime_scheme" where
  "set_callback_tunnel t s = s\<lparr>CB_TUNNEL := (CB_TUNNEL s)(t := True)\<rparr>"

definition clear_callback_tunnel :: "tid \<Rightarrow> ('h, 'z) runtime_scheme \<Rightarrow> ('h, 'z) runtime_scheme" where
  "clear_callback_tunnel t s = s\<lparr>CB_TUNNEL := (CB_TUNNEL s)(t := False)\<rparr>"

definition callback_tunnel :: "tid \<Rightarrow> ('h, 'z) runtime_scheme \<Rightarrow> bool" where
  "callback_tunnel t s = CB_TUNNEL s t"

lemmas slot_defs =
  set_last_error_def read_last_error_def set_callback_tunnel_def clear_callback_tunnel_def
  callback_tunnel_def

section \<open>Panics and the shim wrapper\<close>

text \<open>A panic payload: what \<^verbatim>\<open>downcast_ref\<close> can find in it.\<close>

datatype payload = StrPayload bytes | StringPayload bytes | OtherPayload

definition payload_msg :: "payload \<Rightarrow> bytes" where
  "payload_msg p =
     (case p of StrPayload s \<Rightarrow> s | StringPayload s \<Rightarrow> s
      | OtherPayload \<Rightarrow> ''panic (non-string payload)'')"

text \<open>A shim body runs on a state and returns a status or unwinds with a payload; what it changed
  before a panic stays changed.\<close>

type_synonym ('h, 'z) body = "('h, 'z) runtime_scheme \<Rightarrow> (payload, i32) result \<times> ('h, 'z) runtime_scheme"

definition shim :: "tid \<Rightarrow> ('h, 'z) body \<Rightarrow> ('h, 'z) runtime_scheme \<Rightarrow> i32 \<times> ('h, 'z) runtime_scheme" where
  "shim t f s =
     (case f s of
        (Inr status, s') \<Rightarrow> (status, s')
      | (Inl payload, s') \<Rightarrow>
          (STATUS_PANIC, set_last_error t ''panic'' (payload_msg payload) s'))"

section \<open>Arguments that arrive from Lisp\<close>

text \<open>The memory the caller has made readable for the call, octet by octet.\<close>

type_synonym mem = "ptr \<rightharpoonup> octet"

primrec read_mem :: "mem \<Rightarrow> ptr \<Rightarrow> nat \<Rightarrow> bytes option" where
  "read_mem m p 0 = Some []"
| "read_mem m p (Suc n) =
     (case m p of None \<Rightarrow> None | Some b \<Rightarrow> map_option (Cons b) (read_mem m (p + 1) n))"

primrec read_elems :: "mem \<Rightarrow> nat \<Rightarrow> ptr \<Rightarrow> nat \<Rightarrow> bytes list option" where
  "read_elems m sz p 0 = Some []"
| "read_elems m sz p (Suc n) =
     (case read_mem m p sz of None \<Rightarrow> None
      | Some e \<Rightarrow> map_option (Cons e) (read_elems m sz (p + of_nat sz) n))"

definition str_arg ::
  "tid \<Rightarrow> mem \<Rightarrow> ptr \<Rightarrow> nat \<Rightarrow> ('h, 'z) runtime_scheme \<Rightarrow> ((i32, bytes) result \<times> ('h, 'z) runtime_scheme) option" where
  "str_arg t m p len s =
     (case (if len = 0 then Some [] else read_mem m p len) of
        None \<Rightarrow> None
      | Some bs \<Rightarrow>
          (case from_utf8 bs of
             Inr str \<Rightarrow> Some (Inr str, s)
           | Inl e \<Rightarrow> Some (Inl STATUS_INVALID,
                          set_last_error t ''InvalidUtf8'' (utf8_error_string e) s)))"

definition bytes_arg :: "mem \<Rightarrow> ptr \<Rightarrow> nat \<Rightarrow> bytes option" where
  "bytes_arg m p len = (if len = 0 then Some [] else read_mem m p len)"

text \<open>\<^verbatim>\<open>slice_arg::<T>\<close> for an element type of \<open>sz\<close> octets; \<open>len\<close> counts elements.\<close>

definition slice_arg :: "mem \<Rightarrow> nat \<Rightarrow> ptr \<Rightarrow> nat \<Rightarrow> bytes list option" where
  "slice_arg m sz p len = (if len = 0 then Some [] else read_elems m sz p len)"

section \<open>Buffers that leave for Lisp\<close>

text \<open>\<^verbatim>\<open>NonNull::<T>::dangling()\<close> is the alignment of \<^verbatim>\<open>T\<close> as an address.\<close>

definition dangling :: "nat \<Rightarrow> ptr" where
  "dangling align = of_nat align"

definition bytes_into_raw :: "ptr \<Rightarrow> bytes \<Rightarrow> ('h, 'z) runtime_scheme \<Rightarrow> (ptr \<times> nat) \<times> ('h, 'z) runtime_scheme" where
  "bytes_into_raw p v s =
     (let len = length v in
      if len = 0 then ((dangling 1, 0), s)
      else ((p, len),
            s\<lparr>LIVE_ALLOCATIONS := LIVE_ALLOCATIONS s + 1,
              blocks := (blocks s)(p \<mapsto> \<lparr>block_size = len, block_align = 1, block_data = v\<rparr>)\<rparr>))"

definition string_into_raw :: "ptr \<Rightarrow> bytes \<Rightarrow> ('h, 'z) runtime_scheme \<Rightarrow> (ptr \<times> nat) \<times> ('h, 'z) runtime_scheme" where
  "string_into_raw p str s = bytes_into_raw p str s"

text \<open>\<^verbatim>\<open>vec_into_raw::<T>\<close> for an element type of \<open>sz\<close> octets and alignment \<open>align\<close>; an element is
  the list of its octets.\<close>

definition vec_into_raw ::
  "nat \<Rightarrow> nat \<Rightarrow> ptr \<Rightarrow> bytes list \<Rightarrow> ('h, 'z) runtime_scheme \<Rightarrow> (ptr \<times> nat) \<times> ('h, 'z) runtime_scheme" where
  "vec_into_raw sz align p v s =
     (let len = length v in
      if len = 0 then ((dangling align, 0), s)
      else ((p, len),
            s\<lparr>LIVE_ALLOCATIONS := LIVE_ALLOCATIONS s + 1,
              blocks := (blocks s)(p \<mapsto>
                \<lparr>block_size = len * sz, block_align = align, block_data = concat v\<rparr>)\<rparr>))"

definition dealloc :: "ptr \<Rightarrow> nat \<Rightarrow> nat \<Rightarrow> ('h, 'z) runtime_scheme \<Rightarrow> ('h, 'z) runtime_scheme option" where
  "dealloc p sz align s =
     (if sz = 0 then Some s
      else (case blocks s p of
              Some b \<Rightarrow>
                if block_size b = sz \<and> block_align b = align then
                  Some (s\<lparr>LIVE_ALLOCATIONS := LIVE_ALLOCATIONS s - 1,
                          blocks := (blocks s)(p := None)\<rparr>)
                else None
            | None \<Rightarrow> None))"

section \<open>Handles\<close>

definition handle_new :: "ptr \<Rightarrow> 'h \<Rightarrow> ('h, 'z) runtime_scheme \<Rightarrow> ptr \<times> ('h, 'z) runtime_scheme" where
  "handle_new p v s = (p, s\<lparr>handles := (handles s)(p \<mapsto> v)\<rparr>)"

definition handle_ref :: "ptr \<Rightarrow> ('h, 'z) runtime_scheme \<Rightarrow> 'h option" where
  "handle_ref p s = handles s p"

text \<open>Dropping the box runs the value's destructor, which may itself panic; the memory is released
  either way.\<close>

type_synonym ('h, 'z) destructor = "'h \<Rightarrow> ('h, 'z) runtime_scheme \<Rightarrow> payload option \<times> ('h, 'z) runtime_scheme"

definition handle_free ::
  "('h, 'z) destructor \<Rightarrow> ptr \<Rightarrow> ('h, 'z) runtime_scheme \<Rightarrow> (payload option \<times> ('h, 'z) runtime_scheme) option" where
  "handle_free dtor p s =
     (if p \<noteq> 0 then
        (case handles s p of
           None \<Rightarrow> None
         | Some v \<Rightarrow> Some (dtor v (s\<lparr>handles := (handles s)(p := None)\<rparr>)))
      else Some (None, s))"

section \<open>Reading what was written\<close>

primrec store_mem :: "mem \<Rightarrow> ptr \<Rightarrow> bytes \<Rightarrow> mem" where
  "store_mem m p [] = m"
| "store_mem m p (b # bs) = (store_mem m (p + 1) bs)(p \<mapsto> b)"

lemma read_mem_upd:
  "(\<forall>i<n. p + of_nat i \<noteq> q) \<Longrightarrow> read_mem (m(q \<mapsto> b)) p n = read_mem m p n"
proof (induction n arbitrary: p)
  case 0
  show ?case by simp
next
  case (Suc n)
  have "p \<noteq> q" using Suc.prems [rule_format, of 0] by simp
  moreover have "\<forall>i<n. p + 1 + of_nat i \<noteq> q"
    using Suc.prems [rule_format, of "Suc i" for i] by (auto simp: add.assoc)
  ultimately show ?case by (simp add: Suc.IH fun_upd_other del: fun_upd_apply split: option.split)
qed

lemma word_offset_neq: "0 < i \<Longrightarrow> i < 2 ^ 64 \<Longrightarrow> p + of_nat i \<noteq> (p :: ptr)"
proof
  assume i: "0 < i" "i < 2 ^ 64" and "p + of_nat i = p"
  then have "(of_nat i :: ptr) = 0" by (metis add_cancel_right_right)
  then have "unat (of_nat i :: ptr) = 0" by simp
  with i show False by (simp add: unat_of_nat)
qed

lemma read_store_mem:
  "length bs \<le> 2 ^ 64 \<Longrightarrow> read_mem (store_mem m p bs) p (length bs) = Some bs"
proof (induction bs arbitrary: p)
  case Nil
  show ?case by simp
next
  case (Cons b bs)
  have "p + 1 + of_nat i \<noteq> p" if "i < length bs" for i
    using word_offset_neq [of "Suc i" p] that Cons.prems by (simp add: add.assoc)
  then have "read_mem ((store_mem m (p + 1) bs)(p \<mapsto> b)) (p + 1) (length bs) = Some bs"
    using Cons by (simp add: read_mem_upd)
  then show ?case by (simp add: fun_upd_same del: fun_upd_apply)
qed

lemma read_mem_add:
  "read_mem m p (i + j) =
     (case read_mem m p i of None \<Rightarrow> None
      | Some xs \<Rightarrow> map_option ((@) xs) (read_mem m (p + of_nat i) j))"
proof (induction i arbitrary: p)
  case 0
  have "(@) [] = (\<lambda>x::bytes. x)" by auto
  then show ?case by (simp add: option.map_ident)
next
  case (Suc i)
  have "(\<lambda>x. b # xs @ x) = (@) (b # xs)" for b and xs :: bytes by auto
  with Suc show ?case
    by (simp add: add.assoc option.map_comp comp_def split: option.splits)
qed

lemma read_mem_length: "read_mem m p n = Some bs \<Longrightarrow> length bs = n"
  by (induction n arbitrary: p bs) (auto split: option.splits)

lemma read_elems_concat:
  "\<forall>e\<in>set es. length e = sz \<Longrightarrow> read_mem m p (length es * sz) = Some (concat es) \<Longrightarrow>
   read_elems m sz p (length es) = Some es"
proof (induction es arbitrary: p)
  case Nil
  show ?case by simp
next
  case (Cons e es)
  from Cons.prems obtain xs ys where xs: "read_mem m p sz = Some xs"
    and ys: "read_mem m (p + of_nat sz) (length es * sz) = Some ys" and eq: "xs @ ys = e @ concat es"
    by (auto simp: read_mem_add split: option.splits)
  have "length xs = length e" using read_mem_length [OF xs] Cons.prems by simp
  with eq have "xs = e" "ys = concat es" by auto
  with Cons.IH [of "p + of_nat sz"] Cons.prems xs ys show ?case by simp
qed

section \<open>Argument borrowing\<close>

lemma bytes_arg_stored:
  "length bs \<le> 2 ^ 64 \<Longrightarrow> bytes_arg (store_mem m p bs) p (length bs) = Some bs"
  by (auto simp: bytes_arg_def read_store_mem)

lemma str_arg_stored:
  assumes "length bs \<le> 2 ^ 64"
  shows "str_arg t (store_mem m p bs) p (length bs) s =
     (case from_utf8 bs of Inr str \<Rightarrow> Some (Inr str, s)
      | Inl e \<Rightarrow> Some (Inl STATUS_INVALID,
                     set_last_error t ''InvalidUtf8'' (utf8_error_string e) s))"
  using bytes_arg_stored [OF assms, of m p] by (simp add: str_arg_def bytes_arg_def)

lemma slice_arg_stored:
  assumes "\<forall>e\<in>set es. length e = sz" "length (concat es) \<le> 2 ^ 64"
  shows "slice_arg (store_mem m p (concat es)) sz p (length es) = Some es"
proof -
  have "length (concat es) = length es * sz"
    using assms(1) by (induction es) auto
  with read_store_mem [OF assms(2), of m p] assms(1) show ?thesis
    by (simp add: slice_arg_def read_elems_concat)
qed

section \<open>The buffer interface\<close>

text \<open>
  What a glue library promises about a buffer it hands over: an empty one is no allocation, another
  one is a single live block that \<^verbatim>\<open>dealloc(ptr, len * size, align)\<close> describes exactly.
\<close>

definition runtime_inv :: "('h, 'z) runtime_scheme \<Rightarrow> bool" where
  "runtime_inv s \<longleftrightarrow>
     finite (dom (blocks s)) \<and> LIVE_ALLOCATIONS s = of_nat (card (dom (blocks s))) \<and>
     (\<forall>p b. blocks s p = Some b \<longrightarrow> 0 < block_size b \<and> length (block_data b) = block_size b)"

lemma runtime_inv_init: "runtime_inv init_runtime"
  by (simp add: runtime_inv_def init_runtime_def)

lemma dealloc_inv:
  assumes "runtime_inv s" "dealloc p sz align s = Some s'"
  shows "runtime_inv s'"
proof (cases "sz = 0")
  case True
  with assms show ?thesis by (simp add: dealloc_def)
next
  case False
  with assms(2) obtain b where b: "blocks s p = Some b"
    and s': "s' = s\<lparr>LIVE_ALLOCATIONS := LIVE_ALLOCATIONS s - 1, blocks := (blocks s)(p := None)\<rparr>"
    by (auto simp: dealloc_def split: option.splits if_splits)
  have fin: "finite (dom (blocks s))" and p: "p \<in> dom (blocks s)"
    using assms(1) b by (auto simp: runtime_inv_def)
  then have "card (dom (blocks s)) = Suc (card (dom (blocks s) - {p}))"
    by (metis card_Suc_Diff1)
  with assms(1) show ?thesis by (simp add: runtime_inv_def s')
qed

locale buffer_transfer =
  fixes into_raw :: "ptr \<Rightarrow> 'v \<Rightarrow> ('h, 'z) runtime_scheme \<Rightarrow> (ptr \<times> nat) \<times> ('h, 'z) runtime_scheme"
    and count :: "'v \<Rightarrow> nat"
    and content :: "'v \<Rightarrow> bytes"
    and esize :: nat
    and align :: nat
    and valid :: "'v \<Rightarrow> bool"
  assumes content_length: "valid v \<Longrightarrow> length (content v) = count v * esize"
    and esize_pos: "0 < esize"
    and into_raw_empty: "valid v \<Longrightarrow> count v = 0 \<Longrightarrow> into_raw p v s = ((dangling align, 0), s)"
    and into_raw_block: "valid v \<Longrightarrow> 0 < count v \<Longrightarrow>
      into_raw p v s =
        ((p, count v),
         s\<lparr>LIVE_ALLOCATIONS := LIVE_ALLOCATIONS s + 1,
           blocks := (blocks s)(p \<mapsto>
             \<lparr>block_size = count v * esize, block_align = align, block_data = content v\<rparr>)\<rparr>)"
begin

text \<open>The release call Lisp makes is defined and gives back the state before the transfer.\<close>

lemma release_restores:
  assumes "valid v" "blocks s p = None" "into_raw p v s = ((q, n), s')"
  shows "dealloc q (n * esize) align s' = Some s"
proof (cases "count v = 0")
  case True
  with assms(3) into_raw_empty [OF assms(1)] show ?thesis by (simp add: dealloc_def)
next
  case False
  have "(blocks s)(p := None) = blocks s" using assms(2) by auto
  with False assms(3) into_raw_block [OF assms(1)] esize_pos show ?thesis
    by (auto simp: dealloc_def)
qed

lemma transfer_content:
  assumes "valid v" "into_raw p v s = ((q, n), s')"
  shows "n = count v \<and>
    (if n = 0 then content v = [] \<and> s' = s
     else \<exists>b. blocks s' q = Some b \<and> block_data b = content v \<and>
              block_size b = n * esize \<and> block_align b = align)"
  using content_length [OF assms(1)] assms(2) into_raw_empty [OF assms(1)] into_raw_block [OF assms(1)]
  by (cases "count v = 0") auto

lemma transfer_inv:
  assumes "valid v" "blocks s p = None" "runtime_inv s" "into_raw p v s = ((q, n), s')"
  shows "runtime_inv s'"
  using content_length [OF assms(1)] assms(2-4) esize_pos into_raw_empty [OF assms(1)]
    into_raw_block [OF assms(1)]
  by (cases "count v = 0") (auto simp: runtime_inv_def domIff split: if_splits)

lemma transfer_other_blocks:
  assumes "valid v" "into_raw p v s = ((q, n), s')" "r \<noteq> p"
  shows "blocks s' r = blocks s r"
  using assms into_raw_empty [OF assms(1)] into_raw_block [OF assms(1)]
  by (cases "count v = 0") auto

end

interpretation bytes_buf: buffer_transfer bytes_into_raw length "\<lambda>v. v" 1 1 "\<lambda>_. True"
  by unfold_locales (simp_all add: bytes_into_raw_def Let_def)

interpretation string_buf: buffer_transfer string_into_raw length "\<lambda>v. v" 1 1 "\<lambda>_. True"
  by unfold_locales (simp_all add: string_into_raw_def bytes_into_raw_def Let_def)

lemma vec_into_raw_buffer_transfer:
  "0 < sz \<Longrightarrow>
   buffer_transfer (vec_into_raw sz align) length concat sz align (\<lambda>v. \<forall>e\<in>set v. length e = sz)"
proof unfold_locales
  show "length (concat v) = length v * sz" if "\<forall>e\<in>set v. length e = sz" for v :: "bytes list"
    using that by (induction v) auto
qed (simp_all add: vec_into_raw_def Let_def)

interpretation vec8: buffer_transfer "vec_into_raw 1 1" length concat 1 1 "\<lambda>v. \<forall>e\<in>set v. length e = 1"
  by (rule vec_into_raw_buffer_transfer) simp

interpretation vec16: buffer_transfer "vec_into_raw 2 2" length concat 2 2 "\<lambda>v. \<forall>e\<in>set v. length e = 2"
  by (rule vec_into_raw_buffer_transfer) simp

interpretation vec32: buffer_transfer "vec_into_raw 4 4" length concat 4 4 "\<lambda>v. \<forall>e\<in>set v. length e = 4"
  by (rule vec_into_raw_buffer_transfer) simp

interpretation vec64: buffer_transfer "vec_into_raw 8 8" length concat 8 8 "\<lambda>v. \<forall>e\<in>set v. length e = 8"
  by (rule vec_into_raw_buffer_transfer) simp

section \<open>The buffer protocol between a library and its caller\<close>

text \<open>
  The caller holds the results it has not released: address, wire length, element size and
  alignment.  A call hands one over at an address the allocator had free; the caller releases any
  one of them with the triple it derives from the wire values; anything else the library does
  leaves buffers alone.
\<close>

type_synonym out_buf = "ptr \<times> nat \<times> nat \<times> nat"

inductive buffer_step :: "'h runtime \<times> out_buf list \<Rightarrow> 'h runtime \<times> out_buf list \<Rightarrow> bool" where
  take_bytes:
    "blocks s p = None \<Longrightarrow> bytes_into_raw p v s = ((q, n), s') \<Longrightarrow>
     buffer_step (s, outs) (s', (q, n, 1, 1) # outs)"
| take_string:
    "blocks s p = None \<Longrightarrow> string_into_raw p v s = ((q, n), s') \<Longrightarrow>
     buffer_step (s, outs) (s', (q, n, 1, 1) # outs)"
| take_vec:
    "0 < sz \<Longrightarrow> \<forall>e\<in>set v. length e = sz \<Longrightarrow> blocks s p = None \<Longrightarrow>
     vec_into_raw sz al p v s = ((q, n), s') \<Longrightarrow>
     buffer_step (s, outs) (s', (q, n, sz, al) # outs)"
| release:
    "dealloc q (n * sz) al s = Some s' \<Longrightarrow>
     buffer_step (s, xs @ (q, n, sz, al) # ys) (s', xs @ ys)"
| other:
    "blocks s' = blocks s \<Longrightarrow> LIVE_ALLOCATIONS s' = LIVE_ALLOCATIONS s \<Longrightarrow>
     buffer_step (s, outs) (s', outs)"

inductive buffer_reach :: "'h runtime \<times> out_buf list \<Rightarrow> bool" where
  start: "buffer_reach (init_runtime, [])"
| step: "buffer_reach c \<Longrightarrow> buffer_step c c' \<Longrightarrow> buffer_reach c'"

definition live_outs :: "out_buf list \<Rightarrow> out_buf list" where
  "live_outs outs = filter (\<lambda>(q, n, sz, al). n \<noteq> 0) outs"

definition describes :: "('h, 'z) runtime_scheme \<Rightarrow> out_buf \<Rightarrow> bool" where
  "describes s ob = (case ob of (q, n, sz, al) \<Rightarrow> 0 < sz \<and>
     (\<exists>b. blocks s q = Some b \<and> block_size b = n * sz \<and> block_align b = al))"

definition outs_inv :: "('h, 'z) runtime_scheme \<times> out_buf list \<Rightarrow> bool" where
  "outs_inv c \<longleftrightarrow> (case c of (s, outs) \<Rightarrow>
     distinct (map fst (live_outs outs)) \<and> dom (blocks s) = fst ` set (live_outs outs) \<and>
     (\<forall>ob \<in> set (live_outs outs). describes s ob) \<and>
     LIVE_ALLOCATIONS s = of_nat (length (live_outs outs)))"

lemma live_outs_simps [simp]:
  "live_outs [] = []"
  "live_outs ((q, n, sz, al) # outs) =
     (if n = 0 then live_outs outs else (q, n, sz, al) # live_outs outs)"
  "live_outs (xs @ ys) = live_outs xs @ live_outs ys"
  by (simp_all add: live_outs_def)

lemma describes_frame:
  "describes s ob \<Longrightarrow> fst ob \<noteq> p \<Longrightarrow> blocks s' = (blocks s)(p := x) \<Longrightarrow> describes s' ob"
  by (cases ob) (simp add: describes_def)

lemma outs_inv_start: "outs_inv (init_runtime, [])"
  by (simp add: outs_inv_def init_runtime_def)

lemma outs_inv_release:
  assumes "outs_inv (s, xs @ (q, n, sz, al) # ys)" "dealloc q (n * sz) al s = Some s'"
  shows "outs_inv (s', xs @ ys)"
proof (cases "n = 0")
  case True
  with assms show ?thesis by (simp add: dealloc_def outs_inv_def)
next
  case False
  let ?live = "live_outs xs @ live_outs ys"
  from assms(1) False have d: "distinct (map fst ?live)" "q \<notin> fst ` set ?live"
    and dom: "dom (blocks s) = insert q (fst ` set ?live)"
    and desc: "\<forall>ob\<in>set ?live. describes s ob" "0 < sz"
    and live: "LIVE_ALLOCATIONS s = of_nat (Suc (length ?live))"
    by (auto simp: outs_inv_def describes_def)
  from assms(2) False desc(2) have s': "s' = s\<lparr>LIVE_ALLOCATIONS := LIVE_ALLOCATIONS s - 1,
      blocks := (blocks s)(q := None)\<rparr>"
    by (auto simp: dealloc_def split: option.splits if_splits)
  have "describes s' ob" if "ob \<in> set ?live" for ob
  proof (rule describes_frame [where s = s and p = q])
    show "describes s ob" using that desc(1) by blast
    show "fst ob \<noteq> q" using that d(2) by auto
    show "blocks s' = (blocks s)(q := None)" by (simp add: s')
  qed
  moreover have "dom (blocks s') = fst ` set ?live" using dom d(2) by (simp add: s')
  ultimately show ?thesis using d(1) live by (simp add: outs_inv_def s' algebra_simps)
qed

context buffer_transfer
begin

lemma transfer_outs_inv:
  assumes v: "valid v" and p: "blocks s p = None" and r: "into_raw p v s = ((q, n), s')"
    and inv: "outs_inv (s, outs)"
  shows "outs_inv (s', (q, n, esize, align) # outs)"
proof (cases "count v = 0")
  case True
  with r inv into_raw_empty [OF v] show ?thesis by (simp add: outs_inv_def)
next
  case False
  with r into_raw_block [OF v] have q: "q = p" "n = count v" "n \<noteq> 0"
    and s': "s' = s\<lparr>LIVE_ALLOCATIONS := LIVE_ALLOCATIONS s + 1, blocks := (blocks s)(p \<mapsto>
       \<lparr>block_size = count v * esize, block_align = align, block_data = content v\<rparr>)\<rparr>"
    by auto
  from inv have "dom (blocks s) = fst ` set (live_outs outs)" by (simp add: outs_inv_def)
  with p have fresh: "p \<notin> fst ` set (live_outs outs)" by (metis domIff)
  have "describes s' ob" if "ob \<in> set (live_outs outs)" for ob
  proof (rule describes_frame [where s = s and p = p])
    show "describes s ob" using that inv by (simp add: outs_inv_def)
    show "fst ob \<noteq> p" using that fresh by auto
  qed (simp add: s')
  moreover have "describes s' (p, n, esize, align)"
    using q esize_pos by (simp add: describes_def s')
  moreover have "dom (blocks s') = insert p (fst ` set (live_outs outs))"
    using inv by (simp add: outs_inv_def s')
  moreover have "LIVE_ALLOCATIONS s' = of_nat (Suc (length (live_outs outs)))"
    using inv by (simp add: outs_inv_def s')
  moreover have "distinct (map fst (live_outs outs))"
    using inv by (simp add: outs_inv_def)
  ultimately show ?thesis
    using q fresh by (simp add: outs_inv_def)
qed

end

lemma buffer_step_inv: "buffer_step c c' \<Longrightarrow> outs_inv c \<Longrightarrow> outs_inv c'"
proof (induction rule: buffer_step.induct)
  case (take_bytes s p v q n s' outs)
  from bytes_buf.transfer_outs_inv [OF TrueI this] show ?case .
next
  case (take_string s p v q n s' outs)
  from string_buf.transfer_outs_inv [OF TrueI this] show ?case .
next
  case (take_vec sz v s p al q n s' outs)
  from buffer_transfer.transfer_outs_inv [OF vec_into_raw_buffer_transfer [OF this(1)] this(2-)]
  show ?case .
next
  case (release q n sz al s s' xs ys)
  then show ?case by (blast intro: outs_inv_release)
next
  case (other s' s outs)
  then show ?case by (simp add: outs_inv_def describes_def)
qed

lemma buffer_reach_inv: "buffer_reach c \<Longrightarrow> outs_inv c"
  by (induction rule: buffer_reach.induct) (auto intro: outs_inv_start buffer_step_inv)

lemma outs_inv_dealloc_defined:
  assumes "outs_inv (s, outs)" "(q, n, sz, al) \<in> set outs"
  shows "\<exists>s'. dealloc q (n * sz) al s = Some s'"
proof (cases "n = 0")
  case True
  then show ?thesis by (simp add: dealloc_def)
next
  case False
  with assms have "describes s (q, n, sz, al)" by (auto simp: outs_inv_def live_outs_def)
  then show ?thesis by (auto simp: describes_def dealloc_def)
qed

section \<open>Properties\<close>

text \<open>
  (C8) A string argument that arrives as \<open>(ptr, len)\<close> over readable memory is accepted exactly
  when its octets are the UTF-8 encoding of Unicode scalar values, and then borrowed unchanged
  with no state change; anything else is \<^verbatim>\<open>STATUS_INVALID\<close> with the calling thread's
  last-error kind \<^verbatim>\<open>InvalidUtf8\<close>, and no other thread's slot, buffer or handle is touched.
\<close>

theorem str_arg_accepts_exactly_utf8:
  assumes "length bs \<le> 2 ^ 64"
  shows "\<exists>r s'. str_arg t (store_mem m p bs) p (length bs) s = Some (r, s') \<and>
    (if \<exists>cs. (\<forall>n\<in>set cs. scalar_value n) \<and> bs = encode_string cs
     then r = Inr bs \<and> s' = s
     else r = Inl STATUS_INVALID \<and> fst (LAST_ERROR s' t) = ''InvalidUtf8'' \<and>
          (\<forall>t'. t' \<noteq> t \<longrightarrow> LAST_ERROR s' t' = LAST_ERROR s t') \<and>
          CB_TUNNEL s' = CB_TUNNEL s \<and> LIVE_ALLOCATIONS s' = LIVE_ALLOCATIONS s \<and>
          blocks s' = blocks s \<and> handles s' = handles s)"
proof (cases "well_formed bs")
  case True
  then have "from_utf8 bs = Inr bs" by (simp add: from_utf8_Inr)
  with True show ?thesis
    using str_arg_stored [OF assms, of t m p s] by (simp add: well_formed_iff [symmetric])
next
  case False
  then obtain e where "from_utf8 bs = Inl e" using from_utf8_Inl by blast
  with False show ?thesis
    using str_arg_stored [OF assms, of t m p s]
    by (simp add: well_formed_iff [symmetric] set_last_error_def)
qed

theorem str_arg_accepts_exactly_utf8_witness:
  "\<exists>r s'. str_arg 0 (store_mem Map.empty 4096 [CHR 0xC3, CHR 0xA9]) 4096 (length [CHR 0xC3, CHR 0xA9])
     (init_runtime :: nat runtime) = Some (r, s') \<and> r = Inr [CHR 0xC3, CHR 0xA9] \<and> s' = init_runtime"
proof -
  have "scalar_value 233 \<and> [CHR 0xC3, CHR 0xA9] = encode_string [233]"
    by (simp add: scalar_value_def encode_string_def encode_utf8_def) code_simp
  then have enc: "\<exists>cs. (\<forall>n\<in>set cs. scalar_value n) \<and> [CHR 0xC3, CHR 0xA9] = encode_string cs"
    by (metis empty_iff list.set(1) set_ConsD)
  show ?thesis
    using str_arg_accepts_exactly_utf8 [of "[CHR 0xC3, CHR 0xA9]" 0 Map.empty 4096
        "init_runtime :: nat runtime"] enc by (simp only: if_True) simp
qed

text \<open>
  Handing a buffer to Lisp and taking it back is the identity: the wire length counts the
  elements, the block at the returned address holds exactly the value's octets, and the
  \<^verbatim>\<open>dealloc(ptr, len * size, align)\<close> call Lisp derives from the wire values is defined and restores
  the allocation state, for strings, byte vectors and scalar vectors alike; an empty value makes no
  allocation at all.
\<close>

theorem transfer_then_release_identity:
  assumes "blocks s p = None" and "0 < sz" and "\<forall>e\<in>set es. length e = sz"
  shows "(\<exists>q s'. string_into_raw p str s = ((q, length str), s') \<and>
            (str \<noteq> [] \<longrightarrow> map_option block_data (blocks s' q) = Some str) \<and>
            dealloc q (length str) 1 s' = Some s) \<and>
         (\<exists>q s'. bytes_into_raw p v s = ((q, length v), s') \<and>
            (v \<noteq> [] \<longrightarrow> map_option block_data (blocks s' q) = Some v) \<and>
            dealloc q (length v) 1 s' = Some s) \<and>
         (\<exists>q s'. vec_into_raw sz al p es s = ((q, length es), s') \<and>
            (es \<noteq> [] \<longrightarrow> map_option block_data (blocks s' q) = Some (concat es)) \<and>
            dealloc q (length es * sz) al s' = Some s)"
proof -
  have roundtrip: "\<exists>q s'. raw p x s = ((q, cnt x), s') \<and>
      (cnt x \<noteq> 0 \<longrightarrow> map_option block_data (blocks s' q) = Some (con x)) \<and>
      dealloc q (cnt x * z) a s' = Some s"
    if b: "buffer_transfer raw cnt con z a ok" and x: "ok x" for raw cnt con z a ok x
  proof -
    obtain q n s' where r: "raw p x s = ((q, n), s')" by (metis prod.exhaust)
    from buffer_transfer.release_restores [OF b x assms(1) r]
      buffer_transfer.transfer_content [OF b x r] r show ?thesis
      by (auto split: if_splits)
  qed
  show ?thesis
    using roundtrip [OF string_buf.buffer_transfer_axioms TrueI, of str]
      roundtrip [OF bytes_buf.buffer_transfer_axioms TrueI, of v]
      roundtrip [OF vec_into_raw_buffer_transfer [OF assms(2), of al], of es] assms(3)
    by auto
qed

theorem transfer_then_release_identity_witness:
  "\<exists>q s'. vec_into_raw 2 2 64 [''ab'', ''cd''] (init_runtime :: nat runtime) = ((q, 2), s') \<and>
     map_option block_data (blocks s' q) = Some ''abcd'' \<and>
     dealloc q (length [''ab'', ''cd''] * 2) 2 s' = Some init_runtime"
  using transfer_then_release_identity [of "init_runtime :: nat runtime" 64 2 "[''ab'', ''cd'']" "[]" "[]" 2]
  by (auto simp: init_runtime_def)

text \<open>
  (C9) Through any interleaving of calls that return buffers, releases in any order, and other work,
  every buffer the caller still holds can be released (the \<^verbatim>\<open>dealloc\<close> describes exactly one live
  allocation of this library, so it is never undefined behaviour), and \<^verbatim>\<open>LIVE_ALLOCATIONS\<close> is the
  number of non-empty buffers outstanding.
\<close>

theorem outstanding_buffers_releasable:
  assumes "buffer_reach (s, outs)"
  shows "(\<forall>(q, n, sz, al) \<in> set outs. \<exists>s'. dealloc q (n * sz) al s = Some s') \<and>
         LIVE_ALLOCATIONS s = of_nat (length (live_outs outs))"
  using buffer_reach_inv [OF assms] outs_inv_dealloc_defined
  by (fastforce simp: outs_inv_def)

theorem outstanding_buffers_releasable_witness:
  "\<exists>s :: nat runtime. buffer_reach (s, [(16, 2, 1, 1)]) \<and> LIVE_ALLOCATIONS s = 1"
proof -
  let ?s = "snd (bytes_into_raw 16 ''hi'' (init_runtime :: nat runtime))"
  have "buffer_step (init_runtime :: nat runtime, []) (?s, [(16, 2, 1, 1)])"
    by (rule buffer_step.take_bytes [where p = 16 and v = "''hi''"])
       (simp_all add: init_runtime_def bytes_into_raw_def)
  then have "buffer_reach (?s, [(16, 2, 1, 1)])"
    by (rule buffer_reach.step [OF buffer_reach.start])
  with outstanding_buffers_releasable [OF this] show ?thesis by auto
qed

end
