(* ===== verification/Inbox.thy ===== *)
theory Inbox
  imports Rulisp_Prelude "HOL-Library.Multiset"
begin

text \<open>
  \<^verbatim>\<open>crates/rulisp/src/inbox.rs\<close>: the bounded queue between Rust producers and a Lisp consumer.

  The queue state is what the mutex protects.  Calls in progress are kept as a multiset of program
  points: between two waits a call holds the lock, so one pass of its loop is one step; blocking on
  a condition variable, being woken (by a notification, by the timeout or spuriously), and the
  notifications that \<^verbatim>\<open>try_send\<close>, \<^verbatim>\<open>send_timeout\<close>, \<^verbatim>\<open>recv\<close> and \<^verbatim>\<open>close\<close> issue after releasing
  the lock are steps of their own.  Times are nanoseconds.  Every step that decides a call appends
  an event to a log; the abstract channel says what each event may do to the queue.
\<close>

section \<open>Types\<close>

definition WAIT_CAP_MS :: nat where
  "WAIT_CAP_MS = 100"

datatype 'a send_error = Full 'a | Closed 'a

fun into_inner :: "'a send_error \<Rightarrow> 'a" where
  "into_inner (Full v) = v"
| "into_inner (Closed v) = v"

definition send_error_string :: "'a send_error \<Rightarrow> bytes" where
  "send_error_string e =
     (case e of Full _ \<Rightarrow> ''full: the inbox is at capacity''
      | Closed _ \<Rightarrow> ''closed: the inbox is closed'')"

datatype closed = ClosedErr

definition closed_string :: "closed \<Rightarrow> bytes" where
  "closed_string c = ''closed: the inbox is closed and empty''"

record 'a inbox =
  queue :: "'a list"
  is_closed :: bool
  capacity :: nat

section \<open>Operations under the lock\<close>

definition new_inbox :: "nat \<Rightarrow> 'a inbox" where
  "new_inbox cap = \<lparr>queue = [], is_closed = False, capacity = max cap 1\<rparr>"

definition try_send :: "'a \<Rightarrow> 'a inbox \<Rightarrow> ('a send_error, unit) result \<times> 'a inbox" where
  "try_send v st =
     (if is_closed st then (Inl (Closed v), st)
      else if capacity st \<le> length (queue st) then (Inl (Full v), st)
      else (Inr (), st\<lparr>queue := queue st @ [v]\<rparr>))"

text \<open>One pass of a waiting loop either answers or goes on to wait.\<close>

datatype 'r pass = Return 'r | Wait

text \<open>\<^verbatim>\<open>Instant::now().checked_add(timeout)\<close>, where \<open>imax\<close> is the largest instant the platform has.\<close>

definition instant_checked_add :: "nat \<Rightarrow> nat \<Rightarrow> nat \<Rightarrow> nat option" where
  "instant_checked_add imax now d = (if now + d \<le> imax then Some (now + d) else None)"

definition send_pass ::
  "'a \<Rightarrow> nat option \<Rightarrow> nat \<Rightarrow> 'a inbox \<Rightarrow> ('a send_error, unit) result pass \<times> 'a inbox" where
  "send_pass v deadline now st =
     (if is_closed st then (Return (Inl (Closed v)), st)
      else if length (queue st) < capacity st then
        (Return (Inr ()), st\<lparr>queue := queue st @ [v]\<rparr>)
      else (case deadline of
              None \<Rightarrow> (Wait, st)
            | Some d \<Rightarrow> if d \<le> now then (Return (Inl (Full v)), st) else (Wait, st)))"

definition recv_deadline :: "nat \<Rightarrow> nat \<Rightarrow> nat" where
  "recv_deadline now wait_ms = now + min wait_ms WAIT_CAP_MS * 1000000"

definition recv_pass ::
  "nat \<Rightarrow> nat \<Rightarrow> 'a inbox \<Rightarrow> (closed, 'a option) result pass \<times> 'a inbox" where
  "recv_pass deadline now st =
     (case queue st of
        v # rest \<Rightarrow> (Return (Inr (Some v)), st\<lparr>queue := rest\<rparr>)
      | [] \<Rightarrow>
          if is_closed st then (Return (Inl ClosedErr), st)
          else if deadline \<le> now then (Return (Inr None), st)
          else (Wait, st))"

definition close :: "'a inbox \<Rightarrow> 'a inbox" where
  "close st = st\<lparr>is_closed := True\<rparr>"

definition len :: "'a inbox \<Rightarrow> nat" where
  "len st = length (queue st)"

definition is_empty :: "'a inbox \<Rightarrow> bool" where
  "is_empty st \<longleftrightarrow> len st = 0"

section \<open>The abstract channel\<close>

datatype 'a event =
    Sent 'a | SendFull 'a | SendClosed 'a | Got 'a | GotNone | GotClosed | DidClose

fun accepted :: "'a event list \<Rightarrow> 'a list" where
  "accepted [] = []"
| "accepted (Sent v # es) = v # accepted es"
| "accepted (_ # es) = accepted es"

fun taken :: "'a event list \<Rightarrow> 'a list" where
  "taken [] = []"
| "taken (Got v # es) = v # taken es"
| "taken (_ # es) = taken es"

lemma accepted_append [simp]: "accepted (xs @ ys) = accepted xs @ accepted ys"
  by (induction xs rule: accepted.induct) auto

lemma taken_append [simp]: "taken (xs @ ys) = taken xs @ taken ys"
  by (induction xs rule: taken.induct) auto

text \<open>
  The contract of a bounded first-in first-out channel with a close: what each observable event
  requires of, and does to, the queue it holds.
\<close>

locale fifo_channel =
  fixes effect :: "'s \<Rightarrow> 'a event \<Rightarrow> 's \<Rightarrow> bool"
    and held :: "'s \<Rightarrow> 'a list"
    and shut :: "'s \<Rightarrow> bool"
    and bound :: "'s \<Rightarrow> nat"
  assumes eff_sent: "effect s (Sent v) t \<Longrightarrow>
      \<not> shut s \<and> length (held s) < bound s \<and> held t = held s @ [v] \<and> shut t = shut s"
    and eff_full: "effect s (SendFull v) t \<Longrightarrow>
      \<not> shut s \<and> bound s \<le> length (held s) \<and> held t = held s \<and> shut t = shut s"
    and eff_send_closed: "effect s (SendClosed v) t \<Longrightarrow> shut s \<and> held t = held s \<and> shut t = shut s"
    and eff_got: "effect s (Got v) t \<Longrightarrow> held s = v # held t \<and> shut t = shut s"
    and eff_none: "effect s GotNone t \<Longrightarrow> held s = [] \<and> \<not> shut s \<and> held t = [] \<and> shut t = shut s"
    and eff_closed: "effect s GotClosed t \<Longrightarrow> held s = [] \<and> shut s \<and> held t = [] \<and> shut t = shut s"
    and eff_close: "effect s DidClose t \<Longrightarrow> held t = held s \<and> shut t"
    and eff_bound: "effect s e t \<Longrightarrow> bound t = bound s"
begin

lemmas effect_laws = eff_sent eff_full eff_send_closed eff_got eff_none eff_closed eff_close

inductive history :: "'s \<Rightarrow> 'a event list \<Rightarrow> 's \<Rightarrow> bool" where
  h_nil: "history s [] s"
| h_snoc: "history s es t \<Longrightarrow> effect t e u \<Longrightarrow> history s (es @ [e]) u"

lemma effect_conserves:
  "effect s e t \<Longrightarrow> accepted [e] = [] \<and> held s = taken [e] @ held t \<or>
                    taken [e] = [] \<and> held t = held s @ accepted [e]"
  by (cases e) (auto dest: effect_laws)

lemma history_fifo:
  "history s es t \<Longrightarrow> held s @ accepted es = taken es @ held t"
proof (induction rule: history.induct)
  case (h_nil s)
  show ?case by simp
next
  case (h_snoc s es t e u)
  from effect_conserves [OF h_snoc.hyps(2)] show ?case
    using h_snoc.IH by (metis accepted_append append.right_neutral append_assoc taken_append)
qed

lemma history_bound: "history s es t \<Longrightarrow> bound t = bound s"
  by (induction rule: history.induct) (auto dest: eff_bound)

lemma history_within:
  "history s es t \<Longrightarrow> length (held s) \<le> bound s \<Longrightarrow> length (held t) \<le> bound t"
proof (induction rule: history.induct)
  case (h_snoc s es t e u)
  then show ?case using eff_bound [OF h_snoc.hyps(2)] by (cases e) (auto dest!: effect_laws)
qed

lemma history_shut: "history s es t \<Longrightarrow> shut t \<longleftrightarrow> shut s \<or> DidClose \<in> set es"
proof (induction rule: history.induct)
  case (h_snoc s es t e u)
  then show ?case by (cases e) (auto dest: effect_laws)
qed simp

lemma shut_accepts_nothing: "history s es t \<Longrightarrow> shut s \<Longrightarrow> accepted es = []"
proof (induction rule: history.induct)
  case (h_snoc s es t e u)
  have "shut t" using history_shut [OF h_snoc.hyps(1)] h_snoc.prems by simp
  with h_snoc show ?case by (cases e) (auto dest: effect_laws)
qed simp

lemma history_append:
  "history s (xs @ ys) t \<Longrightarrow> \<exists>u. history s xs u \<and> history u ys t"
proof (induction ys arbitrary: t rule: rev_induct)
  case Nil
  then show ?case by (auto intro: h_nil)
next
  case (snoc e ys)
  from snoc.prems obtain u where "history s (xs @ ys) u" "effect u e t"
    by (cases rule: history.cases) auto
  with snoc.IH show ?case by (blast intro: h_snoc)
qed

lemma history_event:
  assumes "history s (xs @ e # ys) t"
  obtains u v where "history s xs u" "effect u e v" "history v ys t"
proof -
  from assms history_append [of s "xs @ [e]" ys t] obtain v
    where v: "history s (xs @ [e]) v" "history v ys t" by auto
  from v(1) obtain u where "history s xs u" "effect u e v" by (cases rule: history.cases) auto
  with v(2) that show ?thesis by blast
qed

lemma closed_event_drains:
  assumes "history s (xs @ GotClosed # ys) t" "held s = []"
  shows "accepted (xs @ GotClosed # ys) = taken xs \<and> taken ys = [] \<and> held t = []"
proof -
  from assms(1) obtain u v where u: "history s xs u" "effect u GotClosed v" "history v ys t"
    by (rule history_event)
  then have "held u = []" "held v = []" "shut v" by (auto dest: eff_closed)
  moreover from this have "accepted ys = []" using shut_accepts_nothing [OF u(3)] by simp
  ultimately show ?thesis
    using history_fifo [OF u(1)] history_fifo [OF u(3)] assms(2) by simp
qed

lemma close_event_final:
  assumes "history s (xs @ DidClose # ys) t"
  shows "accepted ys = []"
proof -
  from assms obtain u v where u: "effect u DidClose v" "history v ys t" by (rule history_event)
  then show ?thesis using shut_accepts_nothing [OF u(2)] eff_close by blast
qed

end

definition channel_effect :: "'a inbox \<Rightarrow> 'a event \<Rightarrow> 'a inbox \<Rightarrow> bool" where
  "channel_effect s e t =
     (case e of
        Sent v \<Rightarrow> \<not> is_closed s \<and> length (queue s) < capacity s \<and> t = s\<lparr>queue := queue s @ [v]\<rparr>
      | SendFull v \<Rightarrow> \<not> is_closed s \<and> capacity s \<le> length (queue s) \<and> t = s
      | SendClosed v \<Rightarrow> is_closed s \<and> t = s
      | Got v \<Rightarrow> (\<exists>rest. queue s = v # rest \<and> t = s\<lparr>queue := rest\<rparr>)
      | GotNone \<Rightarrow> queue s = [] \<and> \<not> is_closed s \<and> t = s
      | GotClosed \<Rightarrow> queue s = [] \<and> is_closed s \<and> t = s
      | DidClose \<Rightarrow> t = s\<lparr>is_closed := True\<rparr>)"

interpretation chan: fifo_channel channel_effect queue is_closed capacity
  by unfold_locales (auto simp: channel_effect_def split: event.splits)

section \<open>Calls in progress\<close>

datatype 'a pc =
    TrySend 'a
  | SendLoop 'a "nat option"
  | SendWait 'a "nat option"
  | RecvLoop nat
  | RecvWait nat
  | NotifyNotEmpty
  | NotifyNotFull
  | CloseStart
  | CloseNotifyRecv
  | CloseNotifySend

record 'a sys =
  inbox :: "'a inbox"
  threads :: "'a pc multiset"
  now :: nat
  log :: "'a event list"

definition init_sys :: "nat \<Rightarrow> 'a sys" where
  "init_sys cap = \<lparr>inbox = new_inbox cap, threads = {#}, now = 0, log = []\<rparr>"

fun wake_recv :: "'a pc \<Rightarrow> 'a pc" where
  "wake_recv (RecvWait d) = RecvLoop d"
| "wake_recv p = p"

fun wake_send :: "'a pc \<Rightarrow> 'a pc" where
  "wake_send (SendWait v d) = SendLoop v d"
| "wake_send p = p"

fun is_recv_wait :: "'a pc \<Rightarrow> bool" where
  "is_recv_wait (RecvWait d) = True"
| "is_recv_wait _ = False"

fun is_send_wait :: "'a pc \<Rightarrow> bool" where
  "is_send_wait (SendWait v d) = True"
| "is_send_wait _ = False"

definition send_event :: "'a \<Rightarrow> ('a send_error, unit) result \<Rightarrow> 'a event" where
  "send_event v r = (case r of Inr _ \<Rightarrow> Sent v | Inl (Full w) \<Rightarrow> SendFull w | Inl (Closed w) \<Rightarrow> SendClosed w)"

definition recv_event :: "(closed, 'a option) result \<Rightarrow> 'a event" where
  "recv_event r = (case r of Inr (Some v) \<Rightarrow> Got v | Inr None \<Rightarrow> GotNone | Inl _ \<Rightarrow> GotClosed)"

text \<open>What a decided call still has to do: notify after a success, nothing after a refusal.\<close>

definition after_send :: "('a send_error, unit) result \<Rightarrow> 'a pc multiset" where
  "after_send r = (case r of Inr _ \<Rightarrow> {#NotifyNotEmpty#} | Inl _ \<Rightarrow> {#})"

definition after_recv :: "(closed, 'a option) result \<Rightarrow> 'a pc multiset" where
  "after_recv r = (case r of Inr (Some _) \<Rightarrow> {#NotifyNotFull#} | _ \<Rightarrow> {#})"

inductive inbox_step :: "nat \<Rightarrow> 'a sys \<Rightarrow> 'a sys \<Rightarrow> bool" for imax where
  call_try_send: "inbox_step imax c (c\<lparr>threads := add_mset (TrySend v) (threads c)\<rparr>)"
| call_send_timeout:
    "inbox_step imax c
       (c\<lparr>threads := add_mset (SendLoop v (instant_checked_add imax (now c) timeout)) (threads c)\<rparr>)"
| call_recv:
    "inbox_step imax c
       (c\<lparr>threads := add_mset (RecvLoop (recv_deadline (now c) wait_ms)) (threads c)\<rparr>)"
| call_close: "inbox_step imax c (c\<lparr>threads := add_mset CloseStart (threads c)\<rparr>)"
| run_try_send:
    "threads c = add_mset (TrySend v) ts \<Longrightarrow> try_send v (inbox c) = (r, st) \<Longrightarrow>
     inbox_step imax c
       (c\<lparr>inbox := st, threads := after_send r + ts, log := log c @ [send_event v r]\<rparr>)"
| run_send:
    "threads c = add_mset (SendLoop v d) ts \<Longrightarrow> send_pass v d (now c) (inbox c) = (Return r, st) \<Longrightarrow>
     inbox_step imax c
       (c\<lparr>inbox := st, threads := after_send r + ts, log := log c @ [send_event v r]\<rparr>)"
| block_send:
    "threads c = add_mset (SendLoop v d) ts \<Longrightarrow> send_pass v d (now c) (inbox c) = (Wait, st) \<Longrightarrow>
     inbox_step imax c (c\<lparr>inbox := st, threads := add_mset (SendWait v d) ts\<rparr>)"
| run_recv:
    "threads c = add_mset (RecvLoop d) ts \<Longrightarrow> recv_pass d (now c) (inbox c) = (Return r, st) \<Longrightarrow>
     inbox_step imax c
       (c\<lparr>inbox := st, threads := after_recv r + ts, log := log c @ [recv_event r]\<rparr>)"
| block_recv:
    "threads c = add_mset (RecvLoop d) ts \<Longrightarrow> recv_pass d (now c) (inbox c) = (Wait, st) \<Longrightarrow>
     inbox_step imax c (c\<lparr>inbox := st, threads := add_mset (RecvWait d) ts\<rparr>)"
| wake_up:
    "threads c = add_mset p ts \<Longrightarrow>
     inbox_step imax c (c\<lparr>threads := add_mset (wake_recv (wake_send p)) ts\<rparr>)"
| notify_recv:
    "threads c = add_mset NotifyNotEmpty (add_mset (RecvWait d) ts) \<Longrightarrow>
     inbox_step imax c (c\<lparr>threads := add_mset (RecvLoop d) ts\<rparr>)"
| notify_recv_nobody:
    "threads c = add_mset NotifyNotEmpty ts \<Longrightarrow> filter_mset is_recv_wait ts = {#} \<Longrightarrow>
     inbox_step imax c (c\<lparr>threads := ts\<rparr>)"
| notify_send:
    "threads c = add_mset NotifyNotFull (add_mset (SendWait v d) ts) \<Longrightarrow>
     inbox_step imax c (c\<lparr>threads := add_mset (SendLoop v d) ts\<rparr>)"
| notify_send_nobody:
    "threads c = add_mset NotifyNotFull ts \<Longrightarrow> filter_mset is_send_wait ts = {#} \<Longrightarrow>
     inbox_step imax c (c\<lparr>threads := ts\<rparr>)"
| run_close:
    "threads c = add_mset CloseStart ts \<Longrightarrow>
     inbox_step imax c
       (c\<lparr>inbox := close (inbox c), threads := add_mset CloseNotifyRecv ts,
          log := log c @ [DidClose]\<rparr>)"
| close_notify_recv:
    "threads c = add_mset CloseNotifyRecv ts \<Longrightarrow>
     inbox_step imax c (c\<lparr>threads := add_mset CloseNotifySend (image_mset wake_recv ts)\<rparr>)"
| close_notify_send:
    "threads c = add_mset CloseNotifySend ts \<Longrightarrow>
     inbox_step imax c (c\<lparr>threads := image_mset wake_send ts\<rparr>)"
| tick: "inbox_step imax c (c\<lparr>now := now c + d\<rparr>)"

inductive inbox_reach :: "nat \<Rightarrow> nat \<Rightarrow> 'a sys \<Rightarrow> bool" for imax cap where
  start: "inbox_reach imax cap (init_sys cap)"
| step: "inbox_reach imax cap c \<Longrightarrow> inbox_step imax c c' \<Longrightarrow> inbox_reach imax cap c'"

section \<open>Refinement of the abstract channel\<close>

lemmas pass_defs = try_send_def send_pass_def recv_pass_def close_def
lemmas outcome_defs = send_event_def recv_event_def after_send_def after_recv_def

lemma try_send_effect:
  "try_send v st = (r, st') \<Longrightarrow> channel_effect st (send_event v r) st'"
  by (auto simp: try_send_def send_event_def channel_effect_def split: if_splits)

lemma send_pass_effect:
  "send_pass v d n st = (Return r, st') \<Longrightarrow> channel_effect st (send_event v r) st'"
  by (auto simp: send_pass_def send_event_def channel_effect_def split: if_splits option.splits)

lemma recv_pass_effect:
  "recv_pass d n st = (Return r, st') \<Longrightarrow> channel_effect st (recv_event r) st'"
  by (auto simp: recv_pass_def recv_event_def channel_effect_def split: if_splits list.splits)

lemma pass_wait_unchanged:
  "send_pass v d n st = (Wait, st') \<Longrightarrow> st' = st"
  "recv_pass e n st = (Wait, st') \<Longrightarrow> st' = st"
  by (auto simp: pass_defs split: if_splits option.splits list.splits)

lemma step_refines_channel:
  "inbox_step imax c c' \<Longrightarrow>
   (inbox c' = inbox c \<and> log c' = log c) \<or>
   (\<exists>e. log c' = log c @ [e] \<and> channel_effect (inbox c) e (inbox c'))"
proof (induction rule: inbox_step.induct)
  case (run_try_send c v ts r st)
  then show ?case by (simp add: try_send_effect)
next
  case (run_send c v d ts r st)
  then show ?case by (auto dest: send_pass_effect)
next
  case (run_recv c d ts r st)
  then show ?case by (auto dest: recv_pass_effect)
next
  case (block_send c v d ts st)
  then show ?case by (simp add: pass_wait_unchanged)
next
  case (block_recv c d ts st)
  then show ?case by (simp add: pass_wait_unchanged)
next
  case (run_close c ts)
  then show ?case by (simp add: close_def channel_effect_def)
qed simp_all

lemma reach_history:
  "inbox_reach imax cap c \<Longrightarrow> chan.history (new_inbox cap) (log c) (inbox c)"
proof (induction rule: inbox_reach.induct)
  case start
  show ?case by (simp add: init_sys_def chan.h_nil)
next
  case (step c c')
  then show ?case
    using step_refines_channel [OF step.hyps(2)] by (auto intro: chan.h_snoc)
qed

lemma new_inbox_fields [simp]:
  "queue (new_inbox cap) = []" "\<not> is_closed (new_inbox cap)" "capacity (new_inbox cap) = max cap 1"
  by (simp_all add: new_inbox_def)

section \<open>Wake-ups are not lost\<close>

fun is_recv_loop :: "'a pc \<Rightarrow> bool" where
  "is_recv_loop (RecvLoop d) = True"
| "is_recv_loop _ = False"

fun is_send_loop :: "'a pc \<Rightarrow> bool" where
  "is_send_loop (SendLoop v d) = True"
| "is_send_loop _ = False"

definition recv_awake :: "'a pc multiset \<Rightarrow> nat" where
  "recv_awake ts = size (filter_mset is_recv_loop ts) + count ts NotifyNotEmpty"

definition send_awake :: "'a pc multiset \<Rightarrow> nat" where
  "send_awake ts = size (filter_mset is_send_loop ts) + count ts NotifyNotFull"

abbreviation recv_blocked :: "'a pc multiset \<Rightarrow> bool" where
  "recv_blocked ts \<equiv> filter_mset is_recv_wait ts \<noteq> {#}"

abbreviation send_blocked :: "'a pc multiset \<Rightarrow> bool" where
  "send_blocked ts \<equiv> filter_mset is_send_wait ts \<noteq> {#}"

definition wake_inv :: "'a sys \<Rightarrow> bool" where
  "wake_inv c \<longleftrightarrow>
     (recv_blocked (threads c) \<longrightarrow>
        length (queue (inbox c)) \<le> recv_awake (threads c) \<and>
        (is_closed (inbox c) \<longrightarrow> CloseNotifyRecv \<in># threads c)) \<and>
     (send_blocked (threads c) \<longrightarrow>
        (\<not> is_closed (inbox c) \<longrightarrow>
           capacity (inbox c) \<le> length (queue (inbox c)) + send_awake (threads c)) \<and>
        (is_closed (inbox c) \<longrightarrow>
           CloseNotifyRecv \<in># threads c \<or> CloseNotifySend \<in># threads c))"

lemmas awake_defs = recv_awake_def send_awake_def

lemma wake_recv_filters [simp]:
  "filter_mset is_recv_wait (image_mset wake_recv ts) = {#}"
  "filter_mset is_send_wait (image_mset wake_recv ts) = filter_mset is_send_wait ts"
  "size (filter_mset is_send_loop (image_mset wake_recv ts)) = size (filter_mset is_send_loop ts)"
  "count (image_mset wake_recv ts) NotifyNotFull = count ts NotifyNotFull"
proof -
  show "filter_mset is_recv_wait (image_mset wake_recv ts) = {#}"
  proof (induction ts)
    case (add p ts)
    then show ?case by (cases p) auto
  qed simp
  show "filter_mset is_send_wait (image_mset wake_recv ts) = filter_mset is_send_wait ts"
  proof (induction ts)
    case (add p ts)
    then show ?case by (cases p) auto
  qed simp
  show "size (filter_mset is_send_loop (image_mset wake_recv ts)) = size (filter_mset is_send_loop ts)"
  proof (induction ts)
    case (add p ts)
    then show ?case by (cases p) auto
  qed simp
  show "count (image_mset wake_recv ts) NotifyNotFull = count ts NotifyNotFull"
  proof (induction ts)
    case (add p ts)
    then show ?case by (cases p) auto
  qed simp
qed

lemma wake_send_filters [simp]:
  "filter_mset is_send_wait (image_mset wake_send ts) = {#}"
  "filter_mset is_recv_wait (image_mset wake_send ts) = filter_mset is_recv_wait ts"
  "size (filter_mset is_recv_loop (image_mset wake_send ts)) = size (filter_mset is_recv_loop ts)"
  "count (image_mset wake_send ts) NotifyNotEmpty = count ts NotifyNotEmpty"
  "CloseNotifyRecv \<in> wake_send ` set_mset ts \<longleftrightarrow> CloseNotifyRecv \<in># ts"
proof -
  show "filter_mset is_send_wait (image_mset wake_send ts) = {#}"
  proof (induction ts)
    case (add p ts)
    then show ?case by (cases p) auto
  qed simp
  show "filter_mset is_recv_wait (image_mset wake_send ts) = filter_mset is_recv_wait ts"
  proof (induction ts)
    case (add p ts)
    then show ?case by (cases p) auto
  qed simp
  show "size (filter_mset is_recv_loop (image_mset wake_send ts)) = size (filter_mset is_recv_loop ts)"
  proof (induction ts)
    case (add p ts)
    then show ?case by (cases p) auto
  qed simp
  show "count (image_mset wake_send ts) NotifyNotEmpty = count ts NotifyNotEmpty"
  proof (induction ts)
    case (add p ts)
    then show ?case by (cases p) auto
  qed simp
  show "CloseNotifyRecv \<in> wake_send ` set_mset ts \<longleftrightarrow> CloseNotifyRecv \<in># ts"
  proof (induction ts)
    case (add p ts)
    then show ?case by (cases p) auto
  qed simp
qed

lemma wake_inv_init: "wake_inv (init_sys cap)"
  by (simp add: wake_inv_def init_sys_def)

lemma wake_inv_step: "inbox_step imax c c' \<Longrightarrow> wake_inv c \<Longrightarrow> wake_inv c'"
proof (induction rule: inbox_step.induct)
  case (run_try_send c v ts r st)
  then show ?case
    by (auto simp: wake_inv_def awake_defs pass_defs outcome_defs split: if_splits)
next
  case (run_send c v d ts r st)
  then show ?case
    by (auto simp: wake_inv_def awake_defs pass_defs outcome_defs split: if_splits option.splits)
next
  case (run_recv c d ts r st)
  then show ?case
    by (auto simp: wake_inv_def awake_defs pass_defs outcome_defs split: if_splits list.splits)
next
  case (block_send c v d ts st)
  then show ?case
    by (auto simp: wake_inv_def awake_defs pass_defs split: if_splits option.splits)
next
  case (block_recv c d ts st)
  then show ?case
    by (auto simp: wake_inv_def awake_defs pass_defs split: if_splits list.splits)
next
  case (wake_up c p ts)
  then show ?case by (cases p) (auto simp: wake_inv_def awake_defs)
next
  case (close_notify_recv c ts)
  then show ?case by (auto simp: wake_inv_def awake_defs)
next
  case (close_notify_send c ts)
  then show ?case by (auto simp: wake_inv_def awake_defs)
qed (auto simp: wake_inv_def awake_defs close_def)

lemma awake_member:
  "0 < recv_awake ts \<Longrightarrow> NotifyNotEmpty \<in># ts \<or> (\<exists>d. RecvLoop d \<in># ts)"
  "0 < send_awake ts \<Longrightarrow> NotifyNotFull \<in># ts \<or> (\<exists>v e. SendLoop v e \<in># ts)"
proof -
  have loop: "\<exists>p. p \<in># ts \<and> P p" if "filter_mset P ts \<noteq> {#}" for P :: "'a pc \<Rightarrow> bool"
    using that by (auto simp: filter_mset_eq_conv)
  show "NotifyNotEmpty \<in># ts \<or> (\<exists>d. RecvLoop d \<in># ts)" if "0 < recv_awake ts"
  proof (cases "count ts NotifyNotEmpty = 0")
    case True
    with that obtain p where "p \<in># ts" "is_recv_loop p" using loop [of is_recv_loop] by (auto simp: recv_awake_def simp flip: nonempty_has_size)
    then show ?thesis by (cases p) auto
  qed (simp add: count_eq_zero_iff)
  show "NotifyNotFull \<in># ts \<or> (\<exists>v e. SendLoop v e \<in># ts)" if "0 < send_awake ts"
  proof (cases "count ts NotifyNotFull = 0")
    case True
    with that obtain p where "p \<in># ts" "is_send_loop p" using loop [of is_send_loop] by (auto simp: send_awake_def simp flip: nonempty_has_size)
    then show ?thesis by (cases p) auto
  qed (simp add: count_eq_zero_iff)
qed

lemma wake_inv_reach: "inbox_reach imax cap c \<Longrightarrow> wake_inv c"
  by (induction rule: inbox_reach.induct) (auto intro: wake_inv_init wake_inv_step)

section \<open>Waits are capped\<close>

fun recv_deadline_of :: "'a pc \<Rightarrow> nat option" where
  "recv_deadline_of (RecvLoop d) = Some d"
| "recv_deadline_of (RecvWait d) = Some d"
| "recv_deadline_of _ = None"

definition capped_inv :: "'a sys \<Rightarrow> bool" where
  "capped_inv c \<longleftrightarrow> (\<forall>p\<in>#threads c. \<forall>d. recv_deadline_of p = Some d \<longrightarrow> d \<le> now c + 100000000)"

lemma deadline_of_wake [simp]:
  "recv_deadline_of (wake_recv p) = recv_deadline_of p"
  "recv_deadline_of (wake_send p) = recv_deadline_of p"
  by (cases p; simp)+

lemma capped_inv_step: "inbox_step imax c c' \<Longrightarrow> capped_inv c \<Longrightarrow> capped_inv c'"
proof (induction rule: inbox_step.induct)
  case (call_recv c wait_ms)
  then show ?case by (auto simp: capped_inv_def recv_deadline_def WAIT_CAP_MS_def)
next
  case (tick c d)
  then show ?case by (fastforce simp: capped_inv_def)
qed (auto simp: capped_inv_def outcome_defs split: sum.splits option.splits)

lemma capped_inv_init: "capped_inv (init_sys cap)"
  by (simp add: capped_inv_def init_sys_def)

lemma capped_inv_reach: "inbox_reach imax cap c \<Longrightarrow> capped_inv c"
  by (induction rule: inbox_reach.induct) (auto intro: capped_inv_init capped_inv_step)

section \<open>Properties\<close>

text \<open>
  (C10) In every interleaving of \<^verbatim>\<open>try_send\<close>, \<^verbatim>\<open>send_timeout\<close>, \<^verbatim>\<open>recv\<close> and \<^verbatim>\<open>close\<close> calls from any
  number of threads the values accepted so far are the values received, in the order of
  acceptance, followed by what the queue still holds: nothing is lost, duplicated or reordered,
  and the queue never exceeds its capacity (at least one).
\<close>

theorem inbox_fifo_no_loss:
  assumes "inbox_reach imax cap c"
  shows "accepted (log c) = taken (log c) @ queue (inbox c) \<and>
         length (queue (inbox c)) \<le> max cap 1"
  using chan.history_fifo [OF reach_history [OF assms]]
    chan.history_within [OF reach_history [OF assms]] chan.history_bound [OF reach_history [OF assms]]
  by simp

theorem inbox_fifo_no_loss_witness:
  "\<exists>c :: nat sys. inbox_reach 1000 0 c \<and> queue (inbox c) = [7] \<and> accepted (log c) = [7] \<and>
     length (queue (inbox c)) \<le> max 0 1"
proof -
  let ?c1 = "(init_sys 0 :: nat sys)\<lparr>threads := add_mset (TrySend 7) (threads (init_sys 0))\<rparr>"
  let ?c2 = "?c1\<lparr>inbox := \<lparr>queue = [7], is_closed = False, capacity = 1\<rparr>,
     threads := after_send (Inr ()) + {#}, log := log ?c1 @ [send_event 7 (Inr ())]\<rparr>"
  have "inbox_step 1000 ?c1 ?c2"
    by (rule inbox_step.run_try_send) (simp_all add: init_sys_def new_inbox_def try_send_def)
  then have "inbox_reach 1000 0 ?c2"
    by (rule inbox_reach.step [OF inbox_reach.step [OF inbox_reach.start inbox_step.call_try_send]])
  with inbox_fifo_no_loss [OF this] show ?thesis
    by (intro exI [of _ ?c2]) (simp add: send_event_def init_sys_def)
qed

text \<open>
  (C12) Close is final and drains.  No value is accepted after a \<^verbatim>\<open>close\<close> took effect, and once one
  \<^verbatim>\<open>recv\<close> has answered \<^verbatim>\<open>Closed\<close>, everything ever accepted had been received before it and nothing
  is received afterwards.
\<close>

theorem inbox_close_final:
  assumes "inbox_reach imax cap c"
  shows "(log c = xs @ DidClose # ys \<longrightarrow> accepted ys = []) \<and>
         (log c = xs @ GotClosed # ys \<longrightarrow>
            accepted (log c) = taken xs \<and> taken ys = [] \<and> queue (inbox c) = [])"
proof (intro conjI impI)
  assume "log c = xs @ DidClose # ys"
  with reach_history [OF assms] show "accepted ys = []"
    by (auto intro: chan.close_event_final)
next
  assume l: "log c = xs @ GotClosed # ys"
  from chan.closed_event_drains [OF reach_history [OF assms, unfolded l]] l
  show "accepted (log c) = taken xs" "taken ys = []" "queue (inbox c) = []" by auto
qed

theorem inbox_close_final_witness:
  "\<exists>c :: nat sys. inbox_reach 1000 4 c \<and> log c = [DidClose, GotClosed] \<and> accepted (log c) = []"
proof -
  let ?c1 = "(init_sys 4 :: nat sys)\<lparr>threads := add_mset CloseStart (threads (init_sys 4))\<rparr>"
  let ?c2 = "?c1\<lparr>inbox := close (inbox ?c1), threads := add_mset CloseNotifyRecv {#},
     log := log ?c1 @ [DidClose]\<rparr>"
  let ?c3 = "?c2\<lparr>threads := add_mset (RecvLoop (recv_deadline (now ?c2) 5)) (threads ?c2)\<rparr>"
  let ?c4 = "?c3\<lparr>inbox := inbox ?c3, threads := after_recv (Inl ClosedErr) + {#CloseNotifyRecv#},
     log := log ?c3 @ [recv_event (Inl ClosedErr)]\<rparr>"
  have "inbox_step 1000 ?c1 ?c2" by (rule inbox_step.run_close) (simp add: init_sys_def)
  moreover have "inbox_step 1000 ?c3 ?c4"
    by (rule inbox_step.run_recv) (simp_all add: recv_pass_def close_def init_sys_def)
  ultimately have "inbox_reach 1000 4 ?c4"
    by (rule inbox_reach.step [OF inbox_reach.step [OF inbox_reach.step [OF inbox_reach.step
          [OF inbox_reach.start inbox_step.call_close]] inbox_step.call_recv]])
  moreover have l: "log ?c4 = [DidClose] @ GotClosed # []"
    by (simp add: init_sys_def recv_event_def)
  ultimately show ?thesis
    using inbox_close_final [of 1000 4 ?c4 "[DidClose]" "[]"] by (intro exI [of _ ?c4]) simp
qed

text \<open>
  (C11) No wake-up is lost.  Whenever a receiver is blocked, either the queue is empty or there is a
  receiver about to take from it or a \<^verbatim>\<open>notify_one\<close> still to come, and after a \<^verbatim>\<open>close\<close> its
  \<^verbatim>\<open>notify_all\<close> is still to come; the same for a blocked sender and free capacity.
\<close>

theorem inbox_no_lost_wakeup:
  assumes "inbox_reach imax cap c"
  shows "(RecvWait d \<in># threads c \<longrightarrow>
            (queue (inbox c) \<noteq> [] \<longrightarrow> NotifyNotEmpty \<in># threads c \<or> (\<exists>d'. RecvLoop d' \<in># threads c)) \<and>
            (is_closed (inbox c) \<longrightarrow> CloseNotifyRecv \<in># threads c)) \<and>
         (SendWait v e \<in># threads c \<longrightarrow>
            (\<not> is_closed (inbox c) \<and> length (queue (inbox c)) < capacity (inbox c) \<longrightarrow>
               NotifyNotFull \<in># threads c \<or> (\<exists>v' e'. SendLoop v' e' \<in># threads c)) \<and>
            (is_closed (inbox c) \<longrightarrow>
               CloseNotifyRecv \<in># threads c \<or> CloseNotifySend \<in># threads c))"
proof -
  note inv = wake_inv_reach [OF assms]
  have blocked: "RecvWait d \<in># threads c \<Longrightarrow> recv_blocked (threads c)"
    "SendWait v e \<in># threads c \<Longrightarrow> send_blocked (threads c)"
    by (auto dest!: multi_member_split)
  have awake: "0 < recv_awake (threads c) \<Longrightarrow>
      NotifyNotEmpty \<in># threads c \<or> (\<exists>d'. RecvLoop d' \<in># threads c)"
    "0 < send_awake (threads c) \<Longrightarrow>
      NotifyNotFull \<in># threads c \<or> (\<exists>v' e'. SendLoop v' e' \<in># threads c)"
    by (rule awake_member; assumption)+
  have pos: "q \<noteq> [] \<Longrightarrow> length q \<le> k \<Longrightarrow> 0 < k" "a < b \<Longrightarrow> b \<le> a + k \<Longrightarrow> 0 < k"
    for q :: "'a list" and a b k :: nat by (auto simp: Suc_le_eq neq_Nil_conv)
  from inv [unfolded wake_inv_def] show ?thesis
    by (intro conjI impI) (metis blocked awake pos)+
qed

theorem inbox_no_lost_wakeup_witness:
  "\<exists>c :: nat sys. inbox_reach 1000 4 c \<and> RecvWait 5000000 \<in># threads c \<and> queue (inbox c) = [7] \<and>
     (NotifyNotEmpty \<in># threads c \<or> (\<exists>d'. RecvLoop d' \<in># threads c))"
proof -
  let ?c0 = "init_sys 4 :: nat sys"
  let ?c1 = "?c0\<lparr>threads := add_mset (RecvLoop (recv_deadline (now ?c0) 5)) (threads ?c0)\<rparr>"
  let ?c2 = "?c1\<lparr>inbox := inbox ?c1, threads := add_mset (RecvWait (recv_deadline (now ?c0) 5)) {#}\<rparr>"
  let ?c3 = "?c2\<lparr>threads := add_mset (TrySend 7) (threads ?c2)\<rparr>"
  let ?c4 = "?c3\<lparr>inbox := \<lparr>queue = [7], is_closed = False, capacity = 4\<rparr>,
     threads := after_send (Inr ()) + {#RecvWait (recv_deadline (now ?c0) 5)#},
     log := log ?c3 @ [send_event 7 (Inr ())]\<rparr>"
  have "inbox_step 1000 ?c1 ?c2"
    by (rule inbox_step.block_recv)
       (simp_all add: recv_pass_def init_sys_def new_inbox_def recv_deadline_def WAIT_CAP_MS_def)
  moreover have "inbox_step 1000 ?c3 ?c4"
    by (rule inbox_step.run_try_send) (simp_all add: try_send_def init_sys_def new_inbox_def)
  ultimately have "inbox_reach 1000 4 ?c4"
    by (rule inbox_reach.step [OF inbox_reach.step [OF inbox_reach.step [OF inbox_reach.step
          [OF inbox_reach.start inbox_step.call_recv]] inbox_step.call_try_send]])
  moreover have "RecvWait 5000000 \<in># threads ?c4"
    by (simp add: init_sys_def recv_deadline_def WAIT_CAP_MS_def)
  ultimately show ?thesis
    using inbox_no_lost_wakeup [of 1000 4 ?c4 5000000] by (intro exI [of _ ?c4]) auto
qed

text \<open>
  Every wait of a receiver is bounded: whatever \<^verbatim>\<open>wait_ms\<close> the caller passed, the deadline of a
  \<^verbatim>\<open>recv\<close> in progress is at most 100 ms away, and a pass made at or after the deadline answers,
  whatever the queue holds; so does every pass of a \<^verbatim>\<open>send_timeout\<close> whose deadline is
  representable.
\<close>

theorem inbox_waits_bounded:
  assumes "inbox_reach imax cap c"
  shows "(RecvLoop d \<in># threads c \<or> RecvWait d \<in># threads c \<longrightarrow> d \<le> now c + 100 * 1000000) \<and>
         (d \<le> n \<longrightarrow> (\<exists>r st'. recv_pass d n st = (Return r, st'))) \<and>
         (d \<le> n \<longrightarrow> (\<exists>r st'. send_pass v (Some d) n st = (Return r, st')))"
proof (intro conjI impI)
  assume "RecvLoop d \<in># threads c \<or> RecvWait d \<in># threads c"
  with capped_inv_reach [OF assms] show "d \<le> now c + 100 * 1000000"
    by (fastforce simp: capped_inv_def)
qed (simp_all add: recv_pass_def send_pass_def split: list.split)

theorem inbox_waits_bounded_witness:
  "\<exists>c :: nat sys. inbox_reach 1000 4 c \<and> RecvLoop 100000000 \<in># threads c \<and>
     100000000 \<le> now c + 100 * 1000000"
proof -
  let ?c = "(init_sys 4 :: nat sys)\<lparr>threads := add_mset
     (RecvLoop (recv_deadline (now (init_sys 4 :: nat sys)) 5000)) (threads (init_sys 4))\<rparr>"
  have "inbox_reach 1000 4 ?c"
    by (rule inbox_reach.step [OF inbox_reach.start inbox_step.call_recv])
  moreover have "RecvLoop 100000000 \<in># threads ?c"
    by (simp add: init_sys_def recv_deadline_def WAIT_CAP_MS_def)
  ultimately show ?thesis
    using inbox_waits_bounded [of 1000 4 ?c 100000000] by (intro exI [of _ ?c] conjI) simp_all
qed

end
