(* ===== verification/Manifest.thy ===== *)
theory Manifest
  imports Runtime
begin

text \<open>
  \<^verbatim>\<open>crates/rulisp-runtime/src/meta.rs\<close>: export metadata and the manifest renderer, with the reader
  on the other side of the boundary, \<^verbatim>\<open>lisp/src/manifest.lisp\<close>.

  A Rust function that only pushes onto \<^verbatim>\<open>out\<close> is modelled as the text it pushes.  \<^verbatim>\<open>RULISP_VERSION\<close>
  is fixed by the build (\<^verbatim>\<open>CARGO_PKG_VERSION\<close>) and \<^verbatim>\<open>TARGET\<close> by the target's \<^verbatim>\<open>cfg\<close>s, so both are
  arguments.  The reader is the fragment of the Lisp reader that \<^verbatim>\<open>%safe-read\<close> and \<^verbatim>\<open>%sanitize\<close>
  let through: lists, strings with backslash escapes, keywords (upcased), decimal integers and the
  symbol \<^verbatim>\<open>NIL\<close>, which is the empty list; every other syntax is an error, also after the one
  form a manifest is.
\<close>

section \<open>Metadata\<close>

datatype param_ty =
    PScalar bytes
  | PStr
  | PBytes
  | PHandle bytes
  | PCallback "param_ty list" bytes
  | PStoredCallback "param_ty list" bytes
  | POption param_ty
  | PVec bytes

datatype result_ty =
    RUnit
  | RScalar bytes
  | RStr
  | RBytes
  | RHandle bytes
  | ROption result_ty
  | RVec bytes

record param_meta =
  pm_name :: bytes
  pm_ty :: param_ty

record fn_meta =
  fm_doc :: "bytes option"
  fm_rust_name :: bytes
  fm_lisp_name :: bytes
  fm_symbol :: bytes
  fm_params :: "param_meta list"
  fm_result :: result_ty
  fm_error :: "bytes option"

record handle_meta =
  hm_doc :: "bytes option"
  hm_rust_name :: bytes
  hm_lisp_name :: bytes
  hm_free_symbol :: bytes

definition TARGET :: "bytes \<Rightarrow> bytes \<Rightarrow> bytes \<Rightarrow> bytes" where
  "TARGET arch os env =
     (if arch = ''x86_64'' \<and> os = ''linux'' \<and> env = ''gnu'' then ''x86_64-unknown-linux-gnu''
      else if arch = ''x86_64'' \<and> os = ''linux'' \<and> env = ''musl'' then ''x86_64-unknown-linux-musl''
      else if arch = ''aarch64'' \<and> os = ''linux'' \<and> env = ''gnu'' then ''aarch64-unknown-linux-gnu''
      else if arch = ''x86_64'' \<and> os = ''macos'' then ''x86_64-apple-darwin''
      else if arch = ''aarch64'' \<and> os = ''macos'' then ''aarch64-apple-darwin''
      else if arch = ''x86_64'' \<and> os = ''windows'' \<and> env = ''msvc'' then ''x86_64-pc-windows-msvc''
      else if arch = ''x86_64'' \<and> os = ''windows'' \<and> env = ''gnu'' then ''x86_64-pc-windows-gnu''
      else if arch = ''aarch64'' \<and> os = ''windows'' then ''aarch64-pc-windows-msvc''
      else ''unknown'')"

section \<open>Rendering\<close>

fun render_ty :: "param_ty \<Rightarrow> bytes" where
  "render_ty (PScalar tok) = tok"
| "render_ty PStr = '':string''"
| "render_ty PBytes = '':bytes''"
| "render_ty (PHandle n) = ''(:handle '' @ [QUOTE] @ n @ [QUOTE] @ '')''"
| "render_ty (PCallback params result) =
     ''(:callback :params ('' @ join '' '' (map render_ty params) @ '') :result '' @ result @ '')''"
| "render_ty (POption inner) = ''(:option '' @ render_ty inner @ '')''"
| "render_ty (PVec tok) = ''(:vec '' @ tok @ '')''"
| "render_ty (PStoredCallback params result) =
     ''(:stored-callback :params ('' @ join '' '' (map render_ty params) @ '') :result '' @ result @ '')''"

definition render_param :: "param_meta \<Rightarrow> bytes" where
  "render_param p =
     ''(:name '' @ [QUOTE] @ pm_name p @ [QUOTE] @ '' :type '' @ render_ty (pm_ty p) @ '')''"

fun render_result :: "result_ty \<Rightarrow> bytes" where
  "render_result RUnit = '':unit''"
| "render_result (RScalar tok) = tok"
| "render_result RStr = '':string''"
| "render_result RBytes = '':bytes''"
| "render_result (RHandle n) = ''(:handle '' @ [QUOTE] @ n @ [QUOTE] @ '')''"
| "render_result (ROption inner) = ''(:option '' @ render_result inner @ '')''"
| "render_result (RVec tok) = ''(:vec '' @ tok @ '')''"

definition render_error :: "bytes option \<Rightarrow> bytes" where
  "render_error e = (case e of None \<Rightarrow> ''nil'' | Some name \<Rightarrow> [QUOTE] @ name @ [QUOTE])"

definition escape_char :: "octet \<Rightarrow> bytes" where
  "escape_char c =
     (if c = BACKSLASH then [BACKSLASH, BACKSLASH]
      else if c = QUOTE then [BACKSLASH, QUOTE] else [c])"

definition push_escaped :: "bytes \<Rightarrow> bytes" where
  "push_escaped text = [QUOTE] @ concat (map escape_char text) @ [QUOTE]"

definition WIDTH :: nat where
  "WIDTH = 100"

definition fn_tail :: "fn_meta \<Rightarrow> bytes" where
  "fn_tail f =
     '':result '' @ render_result (fm_result f) @ '' :error '' @ render_error (fm_error f) @
     (case fm_doc f of None \<Rightarrow> [] | Some doc \<Rightarrow> [LF] @ ''   :doc '' @ push_escaped doc) @ '')''"

definition fn_layout :: "bytes list \<Rightarrow> bytes \<Rightarrow> bytes" where
  "fn_layout params tail =
     (let params_inline = join '' '' params;
          one_line = ''   :params ('' @ params_inline @ '') '' @ tail;
          params_line = ''   :params ('' @ params_inline @ '')''
      in if length one_line \<le> WIDTH then one_line
         else (if length params_line \<le> WIDTH then params_line
               else ''   :params ('' @ join ([LF] @ ''            '') params @ '')'') @
              [LF] @ ''   '' @ tail)"

definition render_fn :: "fn_meta \<Rightarrow> bytes" where
  "render_fn f =
     ''(:fn :rust-name '' @ [QUOTE] @ fm_rust_name f @ [QUOTE] @ '' :lisp-name '' @ [QUOTE] @
     fm_lisp_name f @ [QUOTE] @ '' :symbol '' @ [QUOTE] @ fm_symbol f @ [QUOTE] @ [LF] @
     fn_layout (map render_param (fm_params f)) (fn_tail f)"

text \<open>The error types of a manifest: each once, in order of first use, \<^verbatim>\<open>Error\<close> itself excluded.\<close>

fun push_error :: "bytes list \<Rightarrow> fn_meta \<Rightarrow> bytes list" where
  "push_error seen f =
     (case fm_error f of
        None \<Rightarrow> seen
      | Some e \<Rightarrow> if e \<noteq> ''Error'' \<and> e \<notin> set seen then seen @ [e] else seen)"

definition error_types :: "fn_meta list \<Rightarrow> bytes list" where
  "error_types fns = foldl push_error [] fns"

definition render_handle :: "handle_meta \<Rightarrow> bytes" where
  "render_handle h =
     ''(:handle :rust-name '' @ [QUOTE] @ hm_rust_name h @ [QUOTE] @ '' :lisp-name '' @ [QUOTE] @
     hm_lisp_name h @ [QUOTE] @ '' :free '' @ [QUOTE] @ hm_free_symbol h @ [QUOTE] @
     (case hm_doc h of None \<Rightarrow> [] | Some doc \<Rightarrow> [LF] @ ''   :doc '' @ push_escaped doc) @ '')''"

definition render_manifest ::
  "bytes \<Rightarrow> bytes \<Rightarrow> bytes \<Rightarrow> bytes \<Rightarrow> bytes \<Rightarrow> bytes option \<Rightarrow> handle_meta list \<Rightarrow> fn_meta list \<Rightarrow> bytes"
where
  "render_manifest rulisp_version target crate_name crate_version prefix on_dump handle_metas fns =
     ''(:rulisp-manifest'' @ [LF] @ '' :schema 1'' @ [LF] @ '' :abi '' @ dec (unat ABI_VERSION) @ [LF] @
     '' :crate '' @ [QUOTE] @ crate_name @ [QUOTE] @ [LF] @
     '' :crate-version '' @ [QUOTE] @ crate_version @ [QUOTE] @ [LF] @
     '' :rulisp-version '' @ [QUOTE] @ rulisp_version @ [QUOTE] @ [LF] @
     '' :target '' @ [QUOTE] @ target @ [QUOTE] @ [LF] @
     '' :prefix '' @ [QUOTE] @ prefix @ [QUOTE] @
     (case on_dump of None \<Rightarrow> []
      | Some hook \<Rightarrow> [LF] @ '' :on-dump '' @ [QUOTE] @ hook @ [QUOTE]) @
     [LF] @ '' :errors ('' @ join '' '' (map (\<lambda>e. [QUOTE] @ e @ [QUOTE]) (error_types fns)) @
     '')'' @ [LF] @ '' :handles'' @ [LF] @ '' ('' @ join ([LF] @ ''  '') (map render_handle handle_metas) @
     '')'' @ [LF] @ '' :functions'' @ [LF] @ '' ('' @ join ([LF] @ ''  '') (map render_fn fns) @
     ''))'' @ [LF]"

section \<open>The Lisp reader\<close>

datatype sexp = Keyword bytes | StrLit bytes | IntLit nat | SList "sexp list"

datatype token = LP | RP | StrTok bytes | Atom bytes

definition whitespace :: "octet \<Rightarrow> bool" where
  "whitespace c \<longleftrightarrow> c \<in> {CHR '' '', LF, TAB, CR, CHR 0x0C, CHR 0x7F}"

text \<open>Macro characters and escapes a manifest outside strings never uses.\<close>

definition reader_macro :: "octet \<Rightarrow> bool" where
  "reader_macro c \<longleftrightarrow> c \<in> {CHR ''#'', CHR 0x27, CHR 0x60, CHR '','', CHR '';'', CHR ''|'', BACKSLASH}"

definition terminates :: "octet \<Rightarrow> bool" where
  "terminates c \<longleftrightarrow> whitespace c \<or> c \<in> {CHR ''('', CHR '')'', QUOTE, CHR 0x27, CHR 0x60, CHR '','', CHR '';''}"

fun read_string :: "bytes \<Rightarrow> (bytes \<times> bytes) option" where
  "read_string [] = None"
| "read_string (c # cs) =
     (if c = QUOTE then Some ([], cs)
      else if c = BACKSLASH then
        (case cs of [] \<Rightarrow> None | d # ds \<Rightarrow> map_option (apfst ((#) d)) (read_string ds))
      else map_option (apfst ((#) c)) (read_string cs))"

lemma read_string_shorter: "read_string cs = Some (s, rest) \<Longrightarrow> length rest < length cs"
  by (induction cs arbitrary: s rest rule: read_string.induct)
     (fastforce split: if_splits list.splits)+

function lex :: "bytes \<Rightarrow> token list option" where
  "lex [] = Some []"
| "lex (c # cs) =
     (if whitespace c then lex cs
      else if c = CHR ''('' then map_option ((#) LP) (lex cs)
      else if c = CHR '')'' then map_option ((#) RP) (lex cs)
      else if c = QUOTE then
        (case read_string cs of None \<Rightarrow> None
         | Some (s, rest) \<Rightarrow> map_option ((#) (StrTok s)) (lex rest))
      else if reader_macro c then None
      else let atom = takeWhile (\<lambda>d. \<not> terminates d) cs;
               rest = dropWhile (\<lambda>d. \<not> terminates d) cs
           in if list_ex reader_macro atom then None
              else map_option ((#) (Atom (c # atom))) (lex rest))"
  by pat_completeness auto
termination
  by (relation "measure length")
     (auto dest: read_string_shorter simp: le_imp_less_Suc length_dropWhile_le)

definition upcase :: "octet \<Rightarrow> octet" where
  "upcase c = (if 97 \<le> code c \<and> code c \<le> 122 then octet (code c - 32) else c)"

abbreviation kw :: "bytes \<Rightarrow> sexp" where
  "kw s \<equiv> Keyword (map upcase s)"

text \<open>An atom is a keyword, an unsigned decimal integer or \<^verbatim>\<open>NIL\<close>; \<^verbatim>\<open>%sanitize\<close> refuses the rest.\<close>

definition read_atom :: "bytes \<Rightarrow> sexp option" where
  "read_atom a =
     (case a of
        c # name \<Rightarrow>
          if c = CHR '':'' then (if name = [] \<or> CHR '':'' \<in> set name then None else Some (kw name))
          else if list_all is_digit a then Some (IntLit (undec a))
          else if map upcase a = ''NIL'' then Some (SList []) else None
      | [] \<Rightarrow> None)"

text \<open>\<^verbatim>\<open>read-from-string\<close> reads one form; the stack holds the elements of the lists still open.\<close>

fun read_tokens :: "sexp list list \<Rightarrow> token list \<Rightarrow> sexp option" where
  "read_tokens stack [] = None"
| "read_tokens stack (LP # ts) = read_tokens ([] # stack) ts"
| "read_tokens [] (RP # ts) = None"
| "read_tokens [xs] (RP # ts) = Some (SList xs)"
| "read_tokens (xs # ys # stack) (RP # ts) = read_tokens ((ys @ [SList xs]) # stack) ts"
| "read_tokens [] (StrTok s # ts) = Some (StrLit s)"
| "read_tokens (xs # stack) (StrTok s # ts) = read_tokens ((xs @ [StrLit s]) # stack) ts"
| "read_tokens [] (Atom a # ts) = read_atom a"
| "read_tokens (xs # stack) (Atom a # ts) =
     (case read_atom a of None \<Rightarrow> None | Some x \<Rightarrow> read_tokens ((xs @ [x]) # stack) ts)"

definition safe_read :: "bytes \<Rightarrow> sexp option" where
  "safe_read s = Option.bind (lex s) (read_tokens [])"

section \<open>\<^verbatim>\<open>parse-manifest\<close>\<close>

datatype manifest_error =
    Unreadable | NotManifest | NewerSchema nat | MustBeString bytes | MustBeInteger bytes
  | BadForm | MissingType | MissingResult | DuplicateName bytes | BadOnDump bytes

record param_spec =
  ps_name :: bytes
  ps_type :: sexp

record fn_spec =
  fs_rust_name :: bytes
  fs_lisp_name :: bytes
  fs_symbol :: bytes
  fs_params :: "param_spec list"
  fs_result :: sexp
  fs_error :: "bytes option"
  fs_doc :: "bytes option"

record handle_spec =
  hs_rust_name :: bytes
  hs_lisp_name :: bytes
  hs_free :: bytes
  hs_doc :: "bytes option"

record manifest =
  mf_schema :: nat
  mf_abi :: nat
  mf_crate :: bytes
  mf_crate_version :: "bytes option"
  mf_target :: "bytes option"
  mf_prefix :: bytes
  mf_errors :: "bytes list"
  mf_handles :: "handle_spec list"
  mf_functions :: "fn_spec list"
  mf_on_dump :: "bytes option"
  mf_rulisp_version :: "bytes option"

type_synonym 'a parsed = "(manifest_error, 'a) result"

text \<open>\<^verbatim>\<open>getf\<close>: the value after the first matching key, \<^verbatim>\<open>NIL\<close> when there is none.\<close>

fun getf :: "sexp list \<Rightarrow> bytes \<Rightarrow> sexp" where
  "getf (k # v # rest) key = (if k = kw key then v else getf rest key)"
| "getf _ key = SList []"

definition getf_string :: "sexp list \<Rightarrow> bytes \<Rightarrow> bytes parsed" where
  "getf_string p key =
     (case getf p key of StrLit s \<Rightarrow> Inr s | _ \<Rightarrow> Inl (MustBeString key))"

definition getf_opt_string :: "sexp list \<Rightarrow> bytes \<Rightarrow> bytes option parsed" where
  "getf_opt_string p key =
     (case getf p key of StrLit s \<Rightarrow> Inr (Some s)
      | SList [] \<Rightarrow> Inr None | _ \<Rightarrow> Inl (MustBeString key))"

definition getf_int :: "sexp list \<Rightarrow> bytes \<Rightarrow> nat parsed" where
  "getf_int p key = (case getf p key of IntLit n \<Rightarrow> Inr n | _ \<Rightarrow> Inl (MustBeInteger key))"

definition getf_list :: "sexp list \<Rightarrow> bytes \<Rightarrow> sexp list parsed" where
  "getf_list p key = (case getf p key of SList xs \<Rightarrow> Inr xs | _ \<Rightarrow> Inl BadForm)"

definition parse_param :: "sexp \<Rightarrow> param_spec parsed" where
  "parse_param form =
     (case form of
        SList p \<Rightarrow>
          (case getf p ''name'' of
             StrLit n \<Rightarrow>
               if getf p ''type'' = SList [] then Inl MissingType
               else Inr \<lparr>ps_name = n, ps_type = getf p ''type''\<rparr>
           | _ \<Rightarrow> Inl BadForm)
      | _ \<Rightarrow> Inl BadForm)"

definition parse_fn :: "sexp \<Rightarrow> fn_spec parsed" where
  "parse_fn form =
     (case form of
        SList (tag # p) \<Rightarrow>
          if tag \<noteq> kw ''fn'' then Inl BadForm else
          bindR (getf_string p ''rust-name'') (\<lambda>rust_name.
          bindR (getf_string p ''lisp-name'') (\<lambda>lisp_name.
          bindR (getf_string p ''symbol'') (\<lambda>symbol.
          bindR (bindR (getf_list p ''params'') (mapR parse_param)) (\<lambda>params.
          if getf p ''result'' = SList [] then Inl MissingResult else
          bindR (getf_opt_string p ''error'') (\<lambda>error.
          bindR (getf_opt_string p ''doc'') (\<lambda>doc.
          Inr \<lparr>fs_rust_name = rust_name, fs_lisp_name = lisp_name, fs_symbol = symbol,
               fs_params = params, fs_result = getf p ''result'', fs_error = error,
               fs_doc = doc\<rparr>))))))
      | _ \<Rightarrow> Inl BadForm)"

definition parse_handle :: "sexp \<Rightarrow> handle_spec parsed" where
  "parse_handle form =
     (case form of
        SList (tag # p) \<Rightarrow>
          if tag \<noteq> kw ''handle'' then Inl BadForm else
          bindR (getf_string p ''rust-name'') (\<lambda>rust_name.
          bindR (getf_string p ''lisp-name'') (\<lambda>lisp_name.
          bindR (getf_string p ''free'') (\<lambda>free.
          bindR (getf_opt_string p ''doc'') (\<lambda>doc.
          Inr \<lparr>hs_rust_name = rust_name, hs_lisp_name = lisp_name, hs_free = free,
               hs_doc = doc\<rparr>))))
      | _ \<Rightarrow> Inl BadForm)"

fun check_unique_lisp_names :: "bytes list \<Rightarrow> ('a \<Rightarrow> bytes) \<Rightarrow> 'a list \<Rightarrow> unit parsed" where
  "check_unique_lisp_names seen name_of [] = Inr ()"
| "check_unique_lisp_names seen name_of (x # xs) =
     (if name_of x \<in> set seen then Inl (DuplicateName (name_of x))
      else check_unique_lisp_names (name_of x # seen) name_of xs)"

definition validate_on_dump :: "manifest \<Rightarrow> manifest parsed" where
  "validate_on_dump m =
     (case mf_on_dump m of
        None \<Rightarrow> Inr m
      | Some hook \<Rightarrow>
          (case List.find (\<lambda>f. fs_symbol f = hook) (mf_functions m) of
             None \<Rightarrow> Inl (BadOnDump hook)
           | Some f \<Rightarrow>
               if fs_params f = [] \<and> fs_result f = kw ''unit'' then Inr m else Inl (BadOnDump hook)))"

definition parse_string :: "sexp \<Rightarrow> bytes parsed" where
  "parse_string x = (case x of StrLit s \<Rightarrow> Inr s | _ \<Rightarrow> Inl BadForm)"

definition parse_form :: "sexp \<Rightarrow> manifest parsed" where
  "parse_form form =
     (case form of
        SList (tag # p) \<Rightarrow>
          if tag \<noteq> kw ''rulisp-manifest'' then Inl NotManifest else
          bindR (getf_int p ''schema'') (\<lambda>schema.
          if \<not> schema \<le> 1 then Inl (NewerSchema schema) else
          bindR (getf_int p ''abi'') (\<lambda>abi.
          bindR (getf_string p ''crate'') (\<lambda>crate_name.
          bindR (getf_opt_string p ''crate-version'') (\<lambda>crate_version.
          bindR (getf_opt_string p ''target'') (\<lambda>target.
          bindR (getf_string p ''prefix'') (\<lambda>prefix.
          bindR (bindR (getf_list p ''errors'') (mapR parse_string)) (\<lambda>errors.
          bindR (bindR (getf_list p ''handles'') (mapR parse_handle)) (\<lambda>handle_metas.
          bindR (check_unique_lisp_names [] hs_lisp_name handle_metas) (\<lambda>_.
          bindR (bindR (getf_list p ''functions'') (mapR parse_fn)) (\<lambda>functions.
          bindR (check_unique_lisp_names [] fs_lisp_name functions) (\<lambda>_.
          bindR (getf_opt_string p ''on-dump'') (\<lambda>on_dump.
          bindR (getf_opt_string p ''rulisp-version'') (\<lambda>rulisp_version.
          validate_on_dump
            \<lparr>mf_schema = schema, mf_abi = abi, mf_crate = crate_name,
             mf_crate_version = crate_version, mf_target = target, mf_prefix = prefix,
             mf_errors = errors, mf_handles = handle_metas, mf_functions = functions,
             mf_on_dump = on_dump, mf_rulisp_version = rulisp_version\<rparr>)))))))))))))
      | _ \<Rightarrow> Inl NotManifest)"

definition parse_manifest :: "bytes \<Rightarrow> manifest parsed" where
  "parse_manifest s = (case safe_read s of None \<Rightarrow> Inl Unreadable | Some form \<Rightarrow> parse_form form)"

section \<open>Reading rendered text\<close>

definition plain :: "bytes \<Rightarrow> bool" where
  "plain s \<longleftrightarrow> QUOTE \<notin> set s \<and> BACKSLASH \<notin> set s"

definition atom_char :: "octet \<Rightarrow> bool" where
  "atom_char c \<longleftrightarrow> \<not> terminates c \<and> \<not> reader_macro c"

definition type_token :: "bytes \<Rightarrow> bool" where
  "type_token tok \<longleftrightarrow>
     (case tok of c # name \<Rightarrow> c = CHR '':'' \<and> name \<noteq> [] \<and> list_all atom_char name \<and> CHR '':'' \<notin> set name
      | [] \<Rightarrow> False)"

text \<open>The reader at a point inside the text: the open lists and the text still to come.\<close>

definition feed :: "sexp list list \<Rightarrow> bytes \<Rightarrow> sexp option" where
  "feed stack s = Option.bind (lex s) (read_tokens stack)"

lemma safe_read_feed: "safe_read s = feed [] s"
  by (simp add: safe_read_def feed_def)

lemma bind_map_option: "Option.bind (map_option f x) g = Option.bind x (\<lambda>y. g (f y))"
  by (cases x) auto

lemma read_string_plain:
  "plain s \<Longrightarrow> read_string (s @ QUOTE # cs) = Some (s, cs)"
  by (induction s) (auto simp: plain_def)

lemma read_string_escaped:
  "read_string (concat (map escape_char s) @ QUOTE # cs) = Some (s, cs)"
  by (induction s) (auto simp: escape_char_def)

lemma takeWhile_atom:
  assumes "list_all atom_char a" "terminates c"
  shows "takeWhile (\<lambda>d. \<not> terminates d) (a @ c # cs) = a"
    "dropWhile (\<lambda>d. \<not> terminates d) (a @ c # cs) = c # cs"
    "\<not> list_ex reader_macro a"
  using assms by (induction a) (auto simp: atom_char_def)

lemma atom_char_start:
  "atom_char c \<Longrightarrow> \<not> whitespace c \<and> c \<noteq> CHR ''('' \<and> c \<noteq> CHR '')'' \<and> c \<noteq> QUOTE \<and> \<not> reader_macro c"
  by (auto simp: atom_char_def terminates_def)

lemma feed_atom:
  assumes "list_all atom_char a" "a \<noteq> []" "terminates c" "read_atom a = Some x"
  shows "feed (xs # stack) (a @ c # cs) = feed ((xs @ [x]) # stack) (c # cs)"
proof -
  obtain d a' where a: "a = d # a'" using assms(2) by (cases a) auto
  with assms(1) have d: "atom_char d" "list_all atom_char a'" by auto
  have "lex (a @ c # cs) = map_option ((#) (Atom a)) (lex (c # cs))"
    using atom_char_start [OF d(1)] takeWhile_atom [OF d(2) assms(3)] by (simp add: a Let_def)
  with assms(4) show ?thesis by (simp add: feed_def bind_map_option)
qed

lemma feed_space: "whitespace c \<Longrightarrow> feed stack (c # cs) = feed stack cs"
  by (simp add: feed_def)

lemma feed_punct [simp]:
  "feed stack (CHR '' '' # cs) = feed stack cs"
  "feed stack (LF # cs) = feed stack cs"
  "feed stack (CHR ''('' # cs) = feed ([] # stack) cs"
  "feed (xs # ys # stack) (CHR '')'' # cs) = feed ((ys @ [SList xs]) # stack) cs"
  by (simp_all add: feed_def whitespace_def bind_map_option)

lemma feed_plain:
  "plain s \<Longrightarrow> feed (xs # stack) (QUOTE # s @ QUOTE # cs) = feed ((xs @ [StrLit s]) # stack) cs"
  by (simp add: feed_def read_string_plain whitespace_def bind_map_option)

lemma feed_escaped:
  "feed (xs # stack) (push_escaped s @ cs) = feed ((xs @ [StrLit s]) # stack) cs"
  by (simp add: feed_def push_escaped_def read_string_escaped whitespace_def bind_map_option)

lemma feed_type_token:
  assumes "type_token tok" "terminates c"
  shows "feed (xs # stack) (tok @ c # cs) = feed ((xs @ [kw (tl tok)]) # stack) (c # cs)"
proof -
  obtain name where tok: "tok = CHR '':'' # name" "name \<noteq> []" "list_all atom_char name"
      "CHR '':'' \<notin> set name"
    using assms(1) by (cases tok) (auto simp: type_token_def)
  have "atom_char (CHR '':'')" by (simp add: atom_char_def terminates_def reader_macro_def whitespace_def)
  with tok assms(2) show ?thesis by (intro feed_atom) (auto simp: read_atom_def)
qed

lemma digit_not_terminates: "is_digit c \<Longrightarrow> atom_char c"
  by (auto simp: is_digit_def atom_char_def terminates_def reader_macro_def whitespace_def)

lemma feed_dec:
  assumes "terminates c"
  shows "feed (xs # stack) (dec n @ c # cs) = feed ((xs @ [IntLit n]) # stack) (c # cs)"
proof (rule feed_atom [OF _ _ assms])
  show "list_all atom_char (dec n)"
    using dec_digits digit_not_terminates by (auto simp: list_all_iff)
  have "list_all is_digit (dec n)" using dec_digits by (auto simp: list_all_iff)
  then show "read_atom (dec n) = Some (IntLit n)"
    using undec_dec [of n] by (cases "dec n") (auto simp: read_atom_def is_digit_def)
qed simp

lemma feed_join:
  assumes "\<And>x ys c cs. x \<in> set xs \<Longrightarrow> terminates c \<Longrightarrow>
      feed (ys # stack) (f x @ c # cs) = feed ((ys @ [g x]) # stack) (c # cs)"
    and "list_all whitespace sep" "sep \<noteq> []" "terminates c"
  shows "feed (ys # stack) (join sep (map f xs) @ c # cs) = feed ((ys @ map g xs) # stack) (c # cs)"
  using assms(1)
proof (induction xs arbitrary: ys)
  case (Cons x xs)
  have skip: "feed st (sep @ t) = feed st t" for st t
    using assms(2) by (induction sep) (auto simp: feed_space)
  obtain w sep' where sep: "sep = w # sep'" "terminates w"
    using assms(2,3) by (cases sep) (auto simp: terminates_def)
  show ?case
  proof (cases xs)
    case Nil
    with Cons.prems assms(4) show ?thesis by simp
  next
    case (Cons y zs)
    then have "feed (ys # stack) (join sep (map f (x # xs)) @ c # cs) =
      feed (ys # stack) (f x @ w # sep' @ join sep (map f xs) @ c # cs)" by (simp add: sep(1))
    also have "\<dots> = feed ((ys @ [g x]) # stack) (sep @ join sep (map f xs) @ c # cs)"
      using Cons.prems sep by simp
    also have "\<dots> = feed ((ys @ [g x]) # stack) (join sep (map f xs) @ c # cs)" by (rule skip)
    finally show ?thesis using Cons.IH Cons.prems by simp
  qed
qed simp

lemma feed_keyword:
  assumes "a = takeWhile (\<lambda>d. \<not> terminates d) cs" "rest = dropWhile (\<lambda>d. \<not> terminates d) cs"
    "a \<noteq> []" "\<not> list_ex reader_macro a" "CHR '':'' \<notin> set a"
  shows "feed (xs # stack) (CHR '':'' # cs) = feed ((xs @ [kw a]) # stack) rest"
  using assms by (simp add: feed_def reader_macro_def whitespace_def bind_map_option read_atom_def Let_def)

text \<open>The characters of the manifest's own keywords.\<close>

definition name_char :: "octet \<Rightarrow> bool" where
  "name_char c \<longleftrightarrow> c \<in> set ''abcdefghijklmnopqrstuvwxyz-''"

lemma name_char_atom [simp]: "name_char c \<Longrightarrow> \<not> terminates c" "name_char c \<Longrightarrow> \<not> reader_macro c"
  by (auto simp: name_char_def terminates_def whitespace_def reader_macro_def)

lemma upcase_name_char:
  assumes "name_char c" "name_char d"
  shows "upcase c = upcase d \<longleftrightarrow> c = d"
proof -
  have small: "(k - 32) mod 256 = k - 32" if "k \<le> 122" for k :: nat
    using that by (intro mod_less) linarith
  have code_up: "code (upcase x) = (if 97 \<le> code x \<and> code x \<le> 122 then code x - 32 else code x)" for x
    by (simp add: upcase_def small)
  have range: "code x = 45 \<or> 97 \<le> code x \<and> code x \<le> 122" if "name_char x" for x
    using that by (auto simp: name_char_def)
  have "code c = code d" if "upcase c = upcase d"
    using range [OF assms(1)] range [OF assms(2)] arg_cong [OF that, of code] unfolding code_up
    by (auto split: if_splits simp del: of_char_eq_iff)
  then show ?thesis by (metis octet_code)
qed

lemma upcase_nil: "map upcase ''nil'' = ''NIL''"
  by code_simp

lemmas keyword_simps = feed_keyword name_char_def

section \<open>What a manifest denotes\<close>

fun ty_tree :: "param_ty \<Rightarrow> sexp" where
  "ty_tree (PScalar tok) = kw (tl tok)"
| "ty_tree PStr = kw ''string''"
| "ty_tree PBytes = kw ''bytes''"
| "ty_tree (PHandle n) = SList [kw ''handle'', StrLit n]"
| "ty_tree (PCallback params result) =
     SList [kw ''callback'', kw ''params'', SList (map ty_tree params), kw ''result'', kw (tl result)]"
| "ty_tree (PStoredCallback params result) =
     SList [kw ''stored-callback'', kw ''params'', SList (map ty_tree params), kw ''result'',
            kw (tl result)]"
| "ty_tree (POption inner) = SList [kw ''option'', ty_tree inner]"
| "ty_tree (PVec tok) = SList [kw ''vec'', kw (tl tok)]"

fun result_tree :: "result_ty \<Rightarrow> sexp" where
  "result_tree RUnit = kw ''unit''"
| "result_tree (RScalar tok) = kw (tl tok)"
| "result_tree RStr = kw ''string''"
| "result_tree RBytes = kw ''bytes''"
| "result_tree (RHandle n) = SList [kw ''handle'', StrLit n]"
| "result_tree (ROption inner) = SList [kw ''option'', result_tree inner]"
| "result_tree (RVec tok) = SList [kw ''vec'', kw (tl tok)]"

definition opt_tree :: "bytes option \<Rightarrow> sexp" where
  "opt_tree e = (case e of None \<Rightarrow> SList [] | Some n \<Rightarrow> StrLit n)"

definition key_opt :: "bytes \<Rightarrow> bytes option \<Rightarrow> sexp list" where
  "key_opt key v = (case v of None \<Rightarrow> [] | Some s \<Rightarrow> [kw key, StrLit s])"

definition param_tree :: "param_meta \<Rightarrow> sexp" where
  "param_tree p = SList [kw ''name'', StrLit (pm_name p), kw ''type'', ty_tree (pm_ty p)]"

definition fn_tree :: "fn_meta \<Rightarrow> sexp" where
  "fn_tree f = SList ([kw ''fn'', kw ''rust-name'', StrLit (fm_rust_name f),
     kw ''lisp-name'', StrLit (fm_lisp_name f), kw ''symbol'', StrLit (fm_symbol f),
     kw ''params'', SList (map param_tree (fm_params f)), kw ''result'', result_tree (fm_result f),
     kw ''error'', opt_tree (fm_error f)] @ key_opt ''doc'' (fm_doc f))"

definition handle_tree :: "handle_meta \<Rightarrow> sexp" where
  "handle_tree h = SList ([kw ''handle'', kw ''rust-name'', StrLit (hm_rust_name h),
     kw ''lisp-name'', StrLit (hm_lisp_name h), kw ''free'', StrLit (hm_free_symbol h)] @
     key_opt ''doc'' (hm_doc h))"

fun wf_ty :: "param_ty \<Rightarrow> bool" where
  "wf_ty (PScalar tok) = type_token tok"
| "wf_ty PStr = True"
| "wf_ty PBytes = True"
| "wf_ty (PHandle n) = plain n"
| "wf_ty (PCallback params result) = (list_all wf_ty params \<and> type_token result)"
| "wf_ty (PStoredCallback params result) = (list_all wf_ty params \<and> type_token result)"
| "wf_ty (POption inner) = wf_ty inner"
| "wf_ty (PVec tok) = type_token tok"

fun wf_result :: "result_ty \<Rightarrow> bool" where
  "wf_result (RScalar tok) = type_token tok"
| "wf_result (RHandle n) = plain n"
| "wf_result (ROption inner) = wf_result inner"
| "wf_result (RVec tok) = type_token tok"
| "wf_result _ = True"

definition wf_fn :: "fn_meta \<Rightarrow> bool" where
  "wf_fn f \<longleftrightarrow> plain (fm_rust_name f) \<and> plain (fm_lisp_name f) \<and> plain (fm_symbol f) \<and>
     list_all (\<lambda>p. plain (pm_name p) \<and> wf_ty (pm_ty p)) (fm_params f) \<and> wf_result (fm_result f) \<and>
     pred_option plain (fm_error f)"

definition wf_handle :: "handle_meta \<Rightarrow> bool" where
  "wf_handle h \<longleftrightarrow> plain (hm_rust_name h) \<and> plain (hm_lisp_name h) \<and> plain (hm_free_symbol h)"

section \<open>Every layout reads as the same tree\<close>

lemma whitespace_sep [simp]: "whitespace (CHR '' '')" "whitespace LF"
  by (simp_all add: whitespace_def)

lemma terminates_punct [simp]:
  "terminates (CHR '' '')" "terminates LF" "terminates (CHR ''('')" "terminates (CHR '')'')"
  by (simp_all add: terminates_def)

lemma feed_render_ty:
  "wf_ty ty \<Longrightarrow> terminates c \<Longrightarrow>
   feed (xs # stack) (render_ty ty @ c # cs) = feed ((xs @ [ty_tree ty]) # stack) (c # cs)"
proof (induction ty arbitrary: xs stack c cs)
  case (PCallback params result)
  have params: "feed (ys # stk) (join '' '' (map render_ty params) @ d # ds) =
      feed ((ys @ map ty_tree params) # stk) (d # ds)" if "terminates d" for ys stk d ds
    by (rule feed_join) (use PCallback that in \<open>auto simp: list_all_iff\<close>)
  from PCallback.prems show ?case
    by (simp add: params feed_type_token keyword_simps)
next
  case (PStoredCallback params result)
  have params: "feed (ys # stk) (join '' '' (map render_ty params) @ d # ds) =
      feed ((ys @ map ty_tree params) # stk) (d # ds)" if "terminates d" for ys stk d ds
    by (rule feed_join) (use PStoredCallback that in \<open>auto simp: list_all_iff\<close>)
  from PStoredCallback.prems show ?case
    by (simp add: params feed_type_token keyword_simps)
qed (simp_all add: feed_type_token keyword_simps feed_plain)

lemma feed_render_result:
  "wf_result r \<Longrightarrow> terminates c \<Longrightarrow>
   feed (xs # stack) (render_result r @ c # cs) = feed ((xs @ [result_tree r]) # stack) (c # cs)"
  by (induction r arbitrary: xs stack c cs)
     (simp_all add: feed_type_token keyword_simps feed_plain)

lemma feed_render_param:
  "plain (pm_name p) \<Longrightarrow> wf_ty (pm_ty p) \<Longrightarrow>
   feed (xs # stack) (render_param p @ cs) = feed ((xs @ [param_tree p]) # stack) cs"
  by (simp add: render_param_def param_tree_def feed_plain keyword_simps feed_render_ty)

lemma feed_nil: "terminates c \<Longrightarrow>
   feed (xs # stack) (CHR ''n'' # CHR ''i'' # CHR ''l'' # c # cs) = feed ((xs @ [SList []]) # stack) (c # cs)"
  using feed_atom [of "''nil''" c "SList []" xs stack cs] upcase_nil
  by (simp add: atom_char_def name_char_def read_atom_def is_digit_def)

lemma feed_render_error:
  "pred_option plain e \<Longrightarrow> terminates c \<Longrightarrow>
   feed (xs # stack) (render_error e @ c # cs) = feed ((xs @ [opt_tree e]) # stack) (c # cs)"
  by (cases e) (simp_all add: render_error_def opt_tree_def feed_nil feed_plain)

lemma feed_params:
  assumes "list_all (\<lambda>p. plain (pm_name p) \<and> wf_ty (pm_ty p)) ps"
    and "list_all whitespace sep" "sep \<noteq> []" "terminates c"
  shows "feed (xs # stack) (join sep (map render_param ps) @ c # cs) =
         feed ((xs @ map param_tree ps) # stack) (c # cs)"
  by (rule feed_join) (use assms in \<open>auto simp: list_all_iff feed_render_param\<close>)

lemma feed_doc:
  "feed (xs # stack) ((case doc of None \<Rightarrow> [] | Some d \<Rightarrow> [LF] @ ''   :doc '' @ push_escaped d) @ CHR '')'' # cs) =
   feed ((xs @ key_opt ''doc'' doc) # stack) (CHR '')'' # cs)"
  by (cases doc) (simp_all add: key_opt_def keyword_simps feed_escaped)

lemma feed_fn_tail:
  assumes "wf_fn f"
  shows "feed (xs # ys # stack) (fn_tail f @ cs) =
    feed ((ys @ [SList (xs @ [kw ''result'', result_tree (fm_result f), kw ''error'',
      opt_tree (fm_error f)] @ key_opt ''doc'' (fm_doc f))]) # stack) cs"
  using assms unfolding fn_tail_def
  by (cases "fm_doc f")
     (simp_all add: wf_fn_def feed_render_result feed_render_error feed_escaped key_opt_def keyword_simps)

lemma feed_fn_layout:
  assumes "list_all (\<lambda>p. plain (pm_name p) \<and> wf_ty (pm_ty p)) ps"
  shows "feed (xs # stack) (fn_layout (map render_param ps) t @ cs) =
         feed ((xs @ [kw ''params'', SList (map param_tree ps)]) # stack) (t @ cs)"
  using assms by (simp add: fn_layout_def Let_def feed_params keyword_simps)

lemma feed_render_fn:
  "wf_fn f \<Longrightarrow> feed (xs # stack) (render_fn f @ cs) = feed ((xs @ [fn_tree f]) # stack) cs"
  using feed_fn_tail [of f _ xs stack cs] feed_fn_layout [of "fm_params f"]
  by (simp add: render_fn_def fn_tree_def feed_plain keyword_simps wf_fn_def)

lemma feed_render_handle:
  "wf_handle h \<Longrightarrow> feed (xs # stack) (render_handle h @ cs) = feed ((xs @ [handle_tree h]) # stack) cs"
  by (cases "hm_doc h")
     (simp_all add: render_handle_def handle_tree_def wf_handle_def feed_plain feed_escaped key_opt_def
       keyword_simps)

lemma feed_errors:
  assumes "list_all plain es" "terminates c"
  shows "feed (xs # stack) (join '' '' (map (\<lambda>e. QUOTE # e @ [QUOTE]) es) @ c # cs) =
         feed ((xs @ map StrLit es) # stack) (c # cs)"
  by (rule feed_join) (use assms in \<open>auto simp: list_all_iff feed_plain\<close>)

lemma feed_fns:
  assumes "list_all wf_fn fns" "terminates c"
  shows "feed (xs # stack) (join ([LF] @ ''  '') (map render_fn fns) @ c # cs) =
         feed ((xs @ map fn_tree fns) # stack) (c # cs)"
  by (rule feed_join) (use assms in \<open>auto simp: list_all_iff feed_render_fn\<close>)

lemma feed_handles:
  assumes "list_all wf_handle hs" "terminates c"
  shows "feed (xs # stack) (join ([LF] @ ''  '') (map render_handle hs) @ c # cs) =
         feed ((xs @ map handle_tree hs) # stack) (c # cs)"
  by (rule feed_join) (use assms in \<open>auto simp: list_all_iff feed_render_handle\<close>)

definition manifest_tree ::
  "bytes \<Rightarrow> bytes \<Rightarrow> bytes \<Rightarrow> bytes \<Rightarrow> bytes \<Rightarrow> bytes option \<Rightarrow> handle_meta list \<Rightarrow> fn_meta list \<Rightarrow> sexp"
where
  "manifest_tree rulisp_version target crate_name crate_version prefix on_dump handle_metas fns =
     SList ([kw ''rulisp-manifest'', kw ''schema'', IntLit 1, kw ''abi'', IntLit (unat ABI_VERSION),
       kw ''crate'', StrLit crate_name, kw ''crate-version'', StrLit crate_version,
       kw ''rulisp-version'', StrLit rulisp_version, kw ''target'', StrLit target,
       kw ''prefix'', StrLit prefix] @ key_opt ''on-dump'' on_dump @
       [kw ''errors'', SList (map StrLit (error_types fns)), kw ''handles'',
        SList (map handle_tree handle_metas), kw ''functions'', SList (map fn_tree fns)])"

lemma error_types_plain: "list_all wf_fn fns \<Longrightarrow> list_all plain (error_types fns)"
proof -
  have "list_all plain (foldl push_error seen fns)"
    if "list_all wf_fn fns" "list_all plain seen" for seen
    using that by (induction fns arbitrary: seen) (auto simp: wf_fn_def split: option.split)
  then show "list_all wf_fn fns \<Longrightarrow> ?thesis" by (simp add: error_types_def)
qed

lemma feed_end: "feed [xs] [CHR '')'', LF] = Some (SList xs)"
  by (simp add: feed_def whitespace_def)

lemma dec_one: "dec 1 = ''1''"
  by code_simp

lemma safe_read_manifest:
  assumes "list_all plain [rulisp_version, target, crate_name, crate_version, prefix]"
    and "pred_option plain on_dump" "list_all wf_handle handle_metas" "list_all wf_fn fns"
  shows "safe_read (render_manifest rulisp_version target crate_name crate_version prefix on_dump
      handle_metas fns) = Some (manifest_tree rulisp_version target crate_name crate_version prefix
      on_dump handle_metas fns)"
proof -
  have one: "feed (xs # stk) (CHR ''1'' # LF # cs) = feed ((xs @ [IntLit 1]) # stk) (LF # cs)" for xs stk cs
    using feed_dec [of LF xs stk 1 cs] unfolding dec_one by simp
  show ?thesis
    using assms(1-3) error_types_plain [OF assms(4)] feed_fns [OF assms(4)] feed_handles [OF assms(3)]
    unfolding safe_read_feed render_manifest_def manifest_tree_def
    by (cases on_dump) (simp_all add: feed_plain keyword_simps feed_dec one feed_errors key_opt_def feed_end)
qed

definition param_spec_of :: "param_meta \<Rightarrow> param_spec" where
  "param_spec_of p = \<lparr>ps_name = pm_name p, ps_type = ty_tree (pm_ty p)\<rparr>"

definition fn_spec_of :: "fn_meta \<Rightarrow> fn_spec" where
  "fn_spec_of f = \<lparr>fs_rust_name = fm_rust_name f, fs_lisp_name = fm_lisp_name f,
     fs_symbol = fm_symbol f, fs_params = map param_spec_of (fm_params f),
     fs_result = result_tree (fm_result f), fs_error = fm_error f, fs_doc = fm_doc f\<rparr>"

definition handle_spec_of :: "handle_meta \<Rightarrow> handle_spec" where
  "handle_spec_of h = \<lparr>hs_rust_name = hm_rust_name h, hs_lisp_name = hm_lisp_name h,
     hs_free = hm_free_symbol h, hs_doc = hm_doc h\<rparr>"

lemmas getf_simps = getf_string_def getf_opt_string_def getf_int_def getf_list_def
  upcase_name_char name_char_def

lemma mapR_map_Inr: "(\<And>x. x \<in> set xs \<Longrightarrow> f (g x) = Inr (h x)) \<Longrightarrow> mapR f (map g xs) = Inr (map h xs)"
  by (induction xs) auto

lemma tree_not_nil: "ty_tree ty \<noteq> SList []" "result_tree r \<noteq> SList []"
  by (cases ty; simp) (cases r; simp)

lemma parse_param_tree: "parse_param (param_tree p) = Inr (param_spec_of p)"
  by (simp add: parse_param_def param_tree_def param_spec_of_def getf_simps tree_not_nil)

lemma parse_handle_tree: "parse_handle (handle_tree h) = Inr (handle_spec_of h)"
  by (cases "hm_doc h")
     (simp_all add: parse_handle_def handle_tree_def handle_spec_of_def key_opt_def getf_simps)

lemma parse_fn_tree: "parse_fn (fn_tree f) = Inr (fn_spec_of f)"
  by (cases "fm_doc f"; cases "fm_error f")
     (simp_all add: parse_fn_def fn_tree_def fn_spec_of_def key_opt_def opt_tree_def getf_simps
       tree_not_nil mapR_map_Inr [where h = param_spec_of] parse_param_tree)

lemma check_unique_distinct:
  "check_unique_lisp_names seen name_of xs = Inr () \<longleftrightarrow>
   distinct (map name_of xs) \<and> set seen \<inter> set (map name_of xs) = {}"
  by (induction xs arbitrary: seen) auto

lemma check_unique_Inr:
  "distinct (map name_of xs) \<Longrightarrow> check_unique_lisp_names [] name_of xs = Inr ()"
  by (simp add: check_unique_distinct)

definition on_dump_ok :: "bytes option \<Rightarrow> fn_meta list \<Rightarrow> bool" where
  "on_dump_ok on_dump fns =
     (case on_dump of None \<Rightarrow> True
      | Some hook \<Rightarrow>
          (case List.find (\<lambda>f. fm_symbol f = hook) fns of
             None \<Rightarrow> False | Some f \<Rightarrow> fm_params f = [] \<and> fm_result f = RUnit))"

lemma find_fn_spec:
  "List.find (\<lambda>f. fs_symbol f = hook) (map fn_spec_of fns) =
   map_option fn_spec_of (List.find (\<lambda>f. fm_symbol f = hook) fns)"
  by (induction fns) (auto simp: fn_spec_of_def)

lemma validate_on_dump_ok:
  "on_dump_ok (mf_on_dump m) fns \<Longrightarrow> mf_functions m = map fn_spec_of fns \<Longrightarrow> validate_on_dump m = Inr m"
  by (auto simp: validate_on_dump_def on_dump_ok_def find_fn_spec fn_spec_of_def split: option.splits)

lemma parse_manifest_tree:
  assumes "distinct (map hm_lisp_name handle_metas)" "distinct (map fm_lisp_name fns)" "on_dump_ok on_dump fns"
  shows "parse_form (manifest_tree rulisp_version target crate_name crate_version prefix on_dump handle_metas fns) =
    Inr \<lparr>mf_schema = 1, mf_abi = unat ABI_VERSION, mf_crate = crate_name, mf_crate_version = Some crate_version,
      mf_target = Some target, mf_prefix = prefix, mf_errors = error_types fns,
      mf_handles = map handle_spec_of handle_metas, mf_functions = map fn_spec_of fns,
      mf_on_dump = on_dump, mf_rulisp_version = Some rulisp_version\<rparr>"
proof -
  have h: "mapR parse_handle (map handle_tree handle_metas) = Inr (map handle_spec_of handle_metas)"
    by (rule mapR_map_Inr) (rule parse_handle_tree)
  have f: "mapR parse_fn (map fn_tree fns) = Inr (map fn_spec_of fns)"
    by (rule mapR_map_Inr) (rule parse_fn_tree)
  have e: "mapR parse_string (map StrLit es) = Inr es" for es
    using mapR_map_Inr [of es parse_string StrLit "\<lambda>x. x"] by (simp add: parse_string_def)
  have uh: "check_unique_lisp_names [] hs_lisp_name (map handle_spec_of handle_metas) = Inr ()"
    using assms(1) by (intro check_unique_Inr) (simp add: handle_spec_of_def comp_def)
  have uf: "check_unique_lisp_names [] fs_lisp_name (map fn_spec_of fns) = Inr ()"
    using assms(2) by (intro check_unique_Inr) (simp add: fn_spec_of_def comp_def)
  have v: "validate_on_dump m = Inr m"
    if "mf_on_dump m = on_dump" "mf_functions m = map fn_spec_of fns" for m
    using validate_on_dump_ok that assms(3) by simp
  show ?thesis
    using v
    by (cases on_dump) (simp_all add: parse_form_def manifest_tree_def key_opt_def getf_simps e h f uh uf)
qed

lemma manifest_round_trip_lemma:
  assumes "list_all plain [rulisp_version, target, crate_name, crate_version, prefix]"
    and "pred_option plain on_dump" "list_all wf_handle handle_metas" "list_all wf_fn fns"
    and "distinct (map hm_lisp_name handle_metas)" "distinct (map fm_lisp_name fns)" "on_dump_ok on_dump fns"
  shows "parse_manifest (render_manifest rulisp_version target crate_name crate_version prefix
      on_dump handle_metas fns) =
    Inr \<lparr>mf_schema = 1, mf_abi = unat ABI_VERSION, mf_crate = crate_name, mf_crate_version = Some crate_version,
      mf_target = Some target, mf_prefix = prefix, mf_errors = error_types fns,
      mf_handles = map handle_spec_of handle_metas, mf_functions = map fn_spec_of fns,
      mf_on_dump = on_dump, mf_rulisp_version = Some rulisp_version\<rparr>"
  using safe_read_manifest [OF assms(1-4)] parse_manifest_tree [OF assms(5-7)]
  by (simp add: parse_manifest_def)

section \<open>Properties\<close>

text \<open>
  (C4) The manifest round trip: what \<^verbatim>\<open>render_manifest\<close> writes, \<^verbatim>\<open>parse-manifest\<close> reads back as
  exactly the exported metadata (names, symbols, parameter and result types, error types, docs),
  whichever of the three width-driven layouts each function got and whatever characters a doc comment
  contains.  The hypotheses are what the macros emit: names without quotes or backslashes, type
  tokens that are keywords, distinct Lisp names, and an \<^verbatim>\<open>on_dump\<close> hook of type \<open>() \<rightarrow> unit\<close>.
\<close>

theorem manifest_round_trip:
  assumes "list_all plain [rulisp_version, target, crate_name, crate_version, prefix]"
    and "pred_option plain on_dump" "list_all wf_handle handle_metas" "list_all wf_fn fns"
    and "distinct (map hm_lisp_name handle_metas)" "distinct (map fm_lisp_name fns)" "on_dump_ok on_dump fns"
  shows "parse_manifest (render_manifest rulisp_version target crate_name crate_version prefix
      on_dump handle_metas fns) =
    Inr \<lparr>mf_schema = 1, mf_abi = unat ABI_VERSION, mf_crate = crate_name, mf_crate_version = Some crate_version,
      mf_target = Some target, mf_prefix = prefix, mf_errors = error_types fns,
      mf_handles = map handle_spec_of handle_metas, mf_functions = map fn_spec_of fns,
      mf_on_dump = on_dump, mf_rulisp_version = Some rulisp_version\<rparr>"
  using assms by (rule manifest_round_trip_lemma)

text \<open>A sample export, with a quote and a backslash in its doc comment.\<close>

definition sample_fn :: fn_meta where
  "sample_fn = \<lparr>fm_doc = Some [QUOTE, BACKSLASH], fm_rust_name = ''WordBag::add'', fm_lisp_name = ''word-bag-add'',
     fm_symbol = ''word_bag_add'', fm_params = [\<lparr>pm_name = ''bag'', pm_ty = PHandle ''WordBag''\<rparr>,
       \<lparr>pm_name = ''n'', pm_ty = POption (PScalar '':i64'')\<rparr>], fm_result = RUnit,
     fm_error = Some ''ParseError''\<rparr>"

theorem manifest_round_trip_witness:
  "parse_manifest (render_manifest ''0.5.0'' ''x86_64-unknown-linux-gnu'' ''wordbag'' ''0.1.0'' ''wordbag''
      None [] [sample_fn]) =
    Inr \<lparr>mf_schema = 1, mf_abi = unat ABI_VERSION, mf_crate = ''wordbag'', mf_crate_version = Some ''0.1.0'',
      mf_target = Some ''x86_64-unknown-linux-gnu'', mf_prefix = ''wordbag'',
      mf_errors = error_types [sample_fn], mf_handles = map handle_spec_of [],
      mf_functions = map fn_spec_of [sample_fn], mf_on_dump = None,
      mf_rulisp_version = Some ''0.5.0''\<rparr>"
proof (rule manifest_round_trip)
  show "list_all wf_fn [sample_fn]"
    by (simp add: sample_fn_def wf_fn_def plain_def type_token_def atom_char_def terminates_def
        reader_macro_def whitespace_def)
qed (simp_all add: plain_def on_dump_ok_def)

text \<open>
  The manifest's error list names every declared error type other than \<^verbatim>\<open>Error\<close> exactly once,
  and no other.
\<close>

theorem error_types_exact:
  "distinct (error_types fns) \<and>
   set (error_types fns) = {e. e \<noteq> ''Error'' \<and> (\<exists>f\<in>set fns. fm_error f = Some e)}"
proof -
  have "distinct (foldl push_error seen fns) \<and>
      set (foldl push_error seen fns) = set seen \<union> {e. e \<noteq> ''Error'' \<and> (\<exists>f\<in>set fns. fm_error f = Some e)}"
    if "distinct seen" for seen
    using that
  proof (induction fns arbitrary: seen)
    case (Cons f fns)
    have "distinct (push_error seen f)" using Cons.prems by (simp split: option.split)
    from Cons.IH [OF this] show ?case by (auto split: option.splits if_splits)
  qed simp
  from this [of "[]"] show ?thesis by (simp add: error_types_def)
qed

end
