(* ===== verification/Macros.thy ===== *)
theory Macros
  imports Manifest
begin

text \<open>
  \<^verbatim>\<open>crates/rulisp-macros/src/lib.rs\<close>: naming, type classification and metadata of the procedural
  macros (the generated shims are in theory \<open>Shim\<close>).

  Types are the part of \<^verbatim>\<open>syn\<close>'s abstract syntax the macros look at.  An error is the message a
  \<^verbatim>\<open>compile_error!\<close> carries; its span is not modelled.  Identifiers are ASCII; on those Rust's
  \<^verbatim>\<open>is_uppercase\<close>, \<^verbatim>\<open>to_lowercase\<close>, \<^verbatim>\<open>is_whitespace\<close> and \<^verbatim>\<open>trim\<close> are the functions below.
\<close>

section \<open>Naming helpers\<close>

definition is_upper :: "octet \<Rightarrow> bool" where
  "is_upper c \<longleftrightarrow> 65 \<le> code c \<and> code c \<le> 90"

definition to_lower :: "octet \<Rightarrow> octet" where
  "to_lower c = (if is_upper c then octet (code c + 32) else c)"

definition ascii_whitespace :: "octet \<Rightarrow> bool" where
  "ascii_whitespace c \<longleftrightarrow> c = CHR '' '' \<or> (9 \<le> code c \<and> code c \<le> 13)"

definition trim :: "bytes \<Rightarrow> bytes" where
  "trim s = rev (dropWhile ascii_whitespace (rev (dropWhile ascii_whitespace s)))"

definition replace_char :: "octet \<Rightarrow> octet \<Rightarrow> bytes \<Rightarrow> bytes" where
  "replace_char a b s = map (\<lambda>c. if c = a then b else c) s"

definition crate_prefix :: "bytes \<Rightarrow> bytes" where
  "crate_prefix crate_name = replace_char (CHR ''-'') (CHR ''_'') crate_name @ ''_rulisp_''"

definition camel_to_snake :: "bytes \<Rightarrow> bytes" where
  "camel_to_snake s =
     concat (map (\<lambda>(i, ch). if is_upper ch then (if 0 < i then ''_'' else []) @ [to_lower ch] else [ch])
       (enumerate 0 s))"

definition snake_to_kebab :: "bytes \<Rightarrow> bytes" where
  "snake_to_kebab s = replace_char (CHR ''_'') (CHR ''-'') s"

text \<open>An attribute: a doc string, a \<^verbatim>\<open>#[rulisp(...)]\<close> list, a \<^verbatim>\<open>doc\<close> without a string, or another.\<close>

datatype nested_meta = MetaConstructor | MetaName bytes | MetaNameNotString | MetaOther

datatype attribute = DocAttr bytes | DocOther | RulispAttr "nested_meta list" | OtherAttr

fun doc_line :: "attribute \<Rightarrow> bytes option" where
  "doc_line (DocAttr raw) =
     Some (case strip_prefix1 (CHR '' '') raw of Some s \<Rightarrow> s | None \<Rightarrow> raw)"
| "doc_line _ = None"

definition doc_of :: "attribute list \<Rightarrow> bytes option" where
  "doc_of attrs =
     (let trimmed = trim (join [LF] (List.map_filter doc_line attrs))
      in if trimmed = [] then None else Some trimmed)"

section \<open>Types of an export signature\<close>

datatype ty =
    TReference "bytes option" bool ty
  | TSlice ty
  | TTuple "ty list"
  | TParen ty
  | TGroup ty
  | TPath bool "path_segment list"
  | TOther
and path_segment = Segment bytes path_args
and path_args = NoArgs | AngleBracketed "garg list" | Parenthesized
and garg = GLifetime bytes | GType ty | GOther

type_synonym path = "bool \<times> path_segment list"

datatype macro_error =
    Unsupported
  | NamedLifetime
  | MutParam
  | OptionBool
  | OptionHandle
  | HandleNotConstructor
  | CallbackResult
  | CallbackParam
  | SelfLifetime
  | MutSelf
  | TypedSelf
  | ByValueSelf
  | SelfOutsideImpl
  | PatternParam
  | MethodNeedsSelf
  | UnknownAttrKey
  | NameNotString
  | NameOnNonConstructor
  | BadConstructorName
  | ConstructorTakesSelf
  | ImplNotPlainType
  | BadImplType
  | ModuleUnknownKey bytes
  | ModuleNeedsName
  | ModuleNeedsHandles
  | ModuleNeedsFns
  | ModuleNameMismatch
  | OnDumpNotInFns
  | OnDumpHasParams
  | BadFnsEntry

definition SCALARS :: "(bytes \<times> bytes) list" where
  "SCALARS =
     [(''i8'', '':i8''), (''i16'', '':i16''), (''i32'', '':i32''), (''i64'', '':i64''),
      (''u8'', '':u8''), (''u16'', '':u16''), (''u32'', '':u32''), (''u64'', '':u64''),
      (''f32'', '':f32''), (''f64'', '':f64'')]"

definition scalar_tok :: "bytes \<Rightarrow> bytes option" where
  "scalar_tok name = map_of SCALARS name"

datatype pty =
    PTScalar bytes ty
  | PTBool
  | PTStrRef
  | PTBytesRef
  | PTHandleRef path
  | PTCallback "bytes list"
  | PTStoredCallback "bytes list"
  | PTOptionScalar bytes ty
  | PTOptionStr
  | PTOptionBytes
  | PTVecScalar bytes ty

datatype rty =
    RTUnit
  | RTScalar bytes ty
  | RTBool
  | RTStr
  | RTBytes
  | RTHandle path
  | RTOptionScalar bytes ty
  | RTOptionStr
  | RTOptionBytes
  | RTVecScalar bytes ty

text \<open>\<^verbatim>\<open>path.is_ident(name)\<close> and \<^verbatim>\<open>path.segments.last()\<close>.\<close>

definition is_ident :: "bool \<Rightarrow> path_segment list \<Rightarrow> bytes \<Rightarrow> bool" where
  "is_ident leading segs name \<longleftrightarrow> \<not> leading \<and> segs = [Segment name NoArgs]"

definition last_segment :: "path_segment list \<Rightarrow> path_segment option" where
  "last_segment segs = (if segs = [] then None else Some (last segs))"

definition type_args :: "garg list \<Rightarrow> ty list" where
  "type_args gs = List.map_filter (\<lambda>g. case g of GType t \<Rightarrow> Some t | _ \<Rightarrow> None) gs"

section \<open>Lifetimes\<close>

definition named :: "bytes \<Rightarrow> (macro_error, unit) result" where
  "named lt = (if lt = ''_'' then Inr () else Inl NamedLifetime)"

fun reject_named_lifetimes :: "ty \<Rightarrow> (macro_error, unit) result"
  and reject_tys :: "ty list \<Rightarrow> (macro_error, unit) result"
  and reject_segments :: "path_segment list \<Rightarrow> (macro_error, unit) result"
  and reject_segment :: "path_segment \<Rightarrow> (macro_error, unit) result"
  and reject_args :: "garg list \<Rightarrow> (macro_error, unit) result" where
  "reject_named_lifetimes (TReference lt m elem) =
     bindR (case lt of Some l \<Rightarrow> named l | None \<Rightarrow> Inr ()) (\<lambda>_. reject_named_lifetimes elem)"
| "reject_named_lifetimes (TSlice elem) = reject_named_lifetimes elem"
| "reject_named_lifetimes (TTuple elems) = reject_tys elems"
| "reject_named_lifetimes (TParen elem) = reject_named_lifetimes elem"
| "reject_named_lifetimes (TGroup elem) = reject_named_lifetimes elem"
| "reject_named_lifetimes (TPath leading segs) = reject_segments segs"
| "reject_named_lifetimes TOther = Inr ()"
| "reject_tys [] = Inr ()"
| "reject_tys (t # ts) = bindR (reject_named_lifetimes t) (\<lambda>_. reject_tys ts)"
| "reject_segments [] = Inr ()"
| "reject_segments (s # ss) = bindR (reject_segment s) (\<lambda>_. reject_segments ss)"
| "reject_segment (Segment name (AngleBracketed gs)) = reject_args gs"
| "reject_segment (Segment name NoArgs) = Inr ()"
| "reject_segment (Segment name Parenthesized) = Inr ()"
| "reject_args [] = Inr ()"
| "reject_args (GLifetime lt # gs) = bindR (named lt) (\<lambda>_. reject_args gs)"
| "reject_args (GType t # gs) = bindR (reject_named_lifetimes t) (\<lambda>_. reject_args gs)"
| "reject_args (GOther # gs) = reject_args gs"

section \<open>Classification of parameters\<close>

definition classify_slice :: "ty \<Rightarrow> (macro_error, pty) result" where
  "classify_slice elem =
     (case elem of
        TPath leading segs \<Rightarrow>
          if is_ident leading segs ''u8'' then Inr PTBytesRef
          else (case last_segment segs of
                  None \<Rightarrow> Inl Unsupported
                | Some (Segment name _) \<Rightarrow>
                    (case scalar_tok name of
                       Some tok \<Rightarrow> Inr (PTVecScalar tok elem)
                     | None \<Rightarrow> Inl Unsupported))
      | _ \<Rightarrow> Inl Unsupported)"

definition classify_ref :: "ty \<Rightarrow> (macro_error, pty) result" where
  "classify_ref elem =
     (case elem of
        TPath leading segs \<Rightarrow>
          if is_ident leading segs ''str'' then Inr PTStrRef else Inr (PTHandleRef (leading, segs))
      | TSlice e \<Rightarrow> classify_slice e
      | _ \<Rightarrow> Inl Unsupported)"

fun option_param :: "pty \<Rightarrow> (macro_error, pty) result" where
  "option_param (PTScalar tok ty) = Inr (PTOptionScalar tok ty)"
| "option_param PTStrRef = Inr PTOptionStr"
| "option_param PTBytesRef = Inr PTOptionBytes"
| "option_param PTBool = Inl OptionBool"
| "option_param _ = Inl Unsupported"

fun callback_tok :: "pty \<Rightarrow> (macro_error, bytes) result" where
  "callback_tok PTStrRef = Inr '':string''"
| "callback_tok (PTScalar tok ty) = Inr tok"
| "callback_tok PTBool = Inr '':bool''"
| "callback_tok _ = Inl CallbackParam"

text \<open>The argument tuple of a callback type, once its result is known to be unit.\<close>

fun callback_split :: "bool \<Rightarrow> ty list \<Rightarrow> (macro_error, ty \<times> ty option) result" where
  "callback_split stored [tuple] = (if stored then Inr (tuple, None) else Inl Unsupported)"
| "callback_split stored [tuple, result] = Inr (tuple, Some result)"
| "callback_split stored _ = Inl Unsupported"

fun callback_elems :: "ty \<times> ty option \<Rightarrow> (macro_error, ty list) result" where
  "callback_elems (TTuple elems, None) = Inr elems"
| "callback_elems (TTuple elems, Some r) = (if r = TTuple [] then Inr elems else Inl CallbackResult)"
| "callback_elems _ = Inl Unsupported"

fun callback_tuple :: "path_args \<Rightarrow> bool \<Rightarrow> (macro_error, ty list) result" where
  "callback_tuple (AngleBracketed gs) stored = bindR (callback_split stored (type_args gs)) callback_elems"
| "callback_tuple _ stored = Inl Unsupported"

lemma last_segment_size: "last_segment segs = Some s \<Longrightarrow> size s \<le> size_list size segs"
  by (auto simp: last_segment_def split: if_splits intro: size_list_estimation' [where x = "last segs"])

lemma type_args_size: "t \<in> set (type_args gs) \<Longrightarrow> size t \<le> size_list size gs"
  by (induction gs) (auto simp: type_args_def List.map_filter_simps split: garg.splits option.splits)

lemma callback_tuple_size:
  "callback_tuple args stored = Inr elems \<Longrightarrow> size_list size elems < size args"
proof -
  assume "callback_tuple args stored = Inr elems"
  then obtain gs tr where gs: "args = AngleBracketed gs" "callback_split stored (type_args gs) = Inr tr"
      "callback_elems tr = Inr elems"
    by (cases args) (auto simp: result_simps)
  have "fst tr \<in> set (type_args gs)"
    using gs(2) by (cases "(stored, type_args gs)" rule: callback_split.cases) (auto split: if_splits)
  moreover have "fst tr = TTuple elems"
    using gs(3) by (cases tr rule: callback_elems.cases) (auto split: if_splits)
  ultimately show ?thesis using type_args_size [of "TTuple elems" gs] gs(1) by simp
qed

lemma segment_args_size: "last_segment segs = Some (Segment name args) \<Longrightarrow> size args < size_list size segs"
  using last_segment_size [of segs "Segment name args"] by simp

function classify_param :: "ty \<Rightarrow> (macro_error, pty) result"
  and classify_elems :: "ty list \<Rightarrow> (macro_error, bytes list) result" where
  "classify_param ty =
     bindR (reject_named_lifetimes ty) (\<lambda>_.
     (case ty of
        TReference lt m elem \<Rightarrow> if m then Inl MutParam else classify_ref elem
      | TPath leading segs \<Rightarrow>
          (case last_segment segs of
             None \<Rightarrow> Inl Unsupported
           | Some (Segment name args) \<Rightarrow>
               (case scalar_tok name of
                  Some tok \<Rightarrow> Inr (PTScalar tok ty)
                | None \<Rightarrow>
                    if name = ''bool'' then Inr PTBool
                    else if name = ''Callback'' then
                      (case callback_tuple args False of
                         Inl e \<Rightarrow> Inl e
                       | Inr elems \<Rightarrow> bindR (classify_elems elems) (\<lambda>toks. Inr (PTCallback toks)))
                    else if name = ''StoredCallback'' then
                      (case callback_tuple args True of
                         Inl e \<Rightarrow> Inl e
                       | Inr elems \<Rightarrow> bindR (classify_elems elems) (\<lambda>toks. Inr (PTStoredCallback toks)))
                    else if name = ''Option'' then
                      (case args of
                         AngleBracketed (GType inner # _) \<Rightarrow> bindR (classify_param inner) option_param
                       | _ \<Rightarrow> Inl Unsupported)
                    else Inl Unsupported))
      | _ \<Rightarrow> Inl Unsupported))"
| "classify_elems [] = Inr []"
| "classify_elems (e # es) =
     bindR (bindR (classify_param e) callback_tok) (\<lambda>tok.
     bindR (classify_elems es) (\<lambda>toks. Inr (tok # toks)))"
  by pat_completeness auto
termination
proof (relation "measure (case_sum size (size_list size))")
  fix ty leading segs s name args elems
  assume *: "ty = TPath leading segs" "last_segment segs = Some s" "s = Segment name args"
  show "(Inr elems, Inl ty) \<in> measure (case_sum size (size_list size))"
    if "callback_tuple args False = Inr elems"
    using segment_args_size [of segs name args] callback_tuple_size [OF that] * by simp
  show "(Inr elems, Inl ty) \<in> measure (case_sum size (size_list size))"
    if "callback_tuple args True = Inr elems"
    using segment_args_size [of segs name args] callback_tuple_size [OF that] * by simp
qed (auto dest: segment_args_size)

declare classify_param.simps [simp del]

section \<open>Classification of results\<close>

definition classify_vec :: "path_args \<Rightarrow> (macro_error, rty) result" where
  "classify_vec args =
     (case args of
        AngleBracketed [GType (TPath leading segs)] \<Rightarrow>
          if is_ident leading segs ''u8'' then Inr RTBytes
          else (case last_segment segs of
                  Some (Segment ename _) \<Rightarrow>
                    (case scalar_tok ename of
                       Some tok \<Rightarrow> Inr (RTVecScalar tok (TPath leading segs))
                     | None \<Rightarrow> Inl Unsupported)
                | None \<Rightarrow> Inl Unsupported)
      | _ \<Rightarrow> Inl Unsupported)"

fun option_result :: "rty \<Rightarrow> (macro_error, rty) result" where
  "option_result (RTScalar tok ty) = Inr (RTOptionScalar tok ty)"
| "option_result RTStr = Inr RTOptionStr"
| "option_result RTBytes = Inr RTOptionBytes"
| "option_result RTBool = Inl OptionBool"
| "option_result (RTHandle p) = Inl OptionHandle"
| "option_result _ = Inl Unsupported"

function classify_result_ty :: "ty \<Rightarrow> bool \<Rightarrow> (macro_error, rty) result" where
  "classify_result_ty ty ctor =
     (case ty of
        TTuple elems \<Rightarrow> if elems = [] then Inr RTUnit else Inl Unsupported
      | TPath leading segs \<Rightarrow>
          (case last_segment segs of
             None \<Rightarrow> Inl Unsupported
           | Some (Segment name args) \<Rightarrow>
               (case scalar_tok name of
                  Some tok \<Rightarrow> Inr (RTScalar tok ty)
                | None \<Rightarrow>
                    if name = ''bool'' then Inr RTBool
                    else if name = ''String'' then Inr RTStr
                    else if name = ''Vec'' then classify_vec args
                    else if name = ''Option'' then
                      (case args of
                         AngleBracketed (GType inner # _) \<Rightarrow>
                           bindR (classify_result_ty inner True) option_result
                       | _ \<Rightarrow> Inl Unsupported)
                    else if ctor then Inr (RTHandle (leading, segs))
                    else Inl HandleNotConstructor))
      | _ \<Rightarrow> Inl Unsupported)"
  by pat_completeness auto
termination
  by (relation "measure (size \<circ> fst)") (auto dest: segment_args_size)

declare classify_result_ty.simps [simp del]

definition classify_result :: "ty option \<Rightarrow> bool \<Rightarrow> (macro_error, rty) result" where
  "classify_result ty ctor = (case ty of None \<Rightarrow> Inr RTUnit | Some t \<Rightarrow> classify_result_ty t ctor)"

definition error_type_name :: "ty \<Rightarrow> bytes" where
  "error_type_name err =
     (case err of
        TPath _ segs \<Rightarrow> (case last_segment segs of Some (Segment name _) \<Rightarrow> name | None \<Rightarrow> [])
      | _ \<Rightarrow> [])"

definition split_result :: "ty option \<Rightarrow> ty option \<times> bytes option" where
  "split_result rt =
     (case rt of
        None \<Rightarrow> (None, None)
      | Some ty \<Rightarrow>
          (case ty of
             TPath _ segs \<Rightarrow>
               (case last_segment segs of
                  Some (Segment name (AngleBracketed gs)) \<Rightarrow>
                    if name = ''Result'' then
                      (case type_args gs of
                         [ok, err] \<Rightarrow> (Some ok, Some (error_type_name err))
                       | _ \<Rightarrow> (Some ty, None))
                    else (Some ty, None)
                | _ \<Rightarrow> (Some ty, None))
           | _ \<Rightarrow> (Some ty, None)))"

section \<open>Exported functions\<close>

datatype call_kind = FreeCall bytes | MethodCall bytes | CtorCall path bytes

record exported_fn =
  ef_doc :: "bytes option"
  ef_rust_name :: bytes
  ef_lisp_name :: bytes
  ef_symbol :: bytes
  ef_params :: "(bytes \<times> pty) list"
  ef_result :: rty
  ef_error :: "bytes option"
  ef_call :: call_kind

text \<open>A receiver: its reference with an optional lifetime, its mutability, and whether it is typed.\<close>

datatype fn_arg = Receiver "bytes option option" bool bool | TypedArg "bytes option" ty

fun fn_param :: "path option \<Rightarrow> fn_arg \<Rightarrow> (macro_error, bytes \<times> pty) result" where
  "fn_param self_ty (Receiver reference mutability colon) =
     (if (case reference of Some (Some lt) \<Rightarrow> lt \<noteq> ''_'' | _ \<Rightarrow> False) then Inl SelfLifetime
      else if mutability then Inl MutSelf
      else if reference = None then Inl (if colon then TypedSelf else ByValueSelf)
      else (case self_ty of None \<Rightarrow> Inl SelfOutsideImpl
            | Some p \<Rightarrow> Inr (''self'', PTHandleRef p)))"
| "fn_param self_ty (TypedArg pat ty) =
     (case pat of None \<Rightarrow> Inl PatternParam
      | Some name \<Rightarrow> bindR (classify_param ty) (\<lambda>p. Inr (name, p)))"

definition fn_params :: "fn_arg list \<Rightarrow> path option \<Rightarrow> (macro_error, (bytes \<times> pty) list) result" where
  "fn_params inputs self_ty = mapR (fn_param self_ty) inputs"

record item_fn =
  if_attrs :: "attribute list"
  if_ident :: bytes
  if_inputs :: "fn_arg list"
  if_output :: "ty option"

definition export_free_fn :: "item_fn \<Rightarrow> (macro_error, exported_fn) result" where
  "export_free_fn f =
     (let (ok_ty, err) = split_result (if_output f)
      in bindR (fn_params (if_inputs f) None) (\<lambda>params.
         bindR (classify_result ok_ty False) (\<lambda>result.
         Inr \<lparr>ef_doc = doc_of (if_attrs f), ef_rust_name = if_ident f,
              ef_lisp_name = snake_to_kebab (if_ident f), ef_symbol = if_ident f,
              ef_params = params, ef_result = result, ef_error = err,
              ef_call = FreeCall (if_ident f)\<rparr>)))"

text \<open>\<^verbatim>\<open>parse_nested_meta\<close>: the keys of one attribute in order, ending at the first error.\<close>

fun parse_nested_meta ::
  "bool \<Rightarrow> bytes option \<Rightarrow> nested_meta list \<Rightarrow> (macro_error, bool \<times> bytes option) result" where
  "parse_nested_meta ctor name [] = Inr (ctor, name)"
| "parse_nested_meta ctor name (MetaConstructor # ms) = parse_nested_meta True name ms"
| "parse_nested_meta ctor name (MetaName lit # ms) = parse_nested_meta ctor (Some lit) ms"
| "parse_nested_meta ctor name (MetaNameNotString # ms) = Inl NameNotString"
| "parse_nested_meta ctor name (MetaOther # ms) = Inl UnknownAttrKey"

record ctor_scan =
  is_ctor :: bool
  ctor_name :: "bytes option"
  attr_err :: "macro_error option"
  kept :: "attribute list"

fun scan_attr :: "ctor_scan \<Rightarrow> attribute \<Rightarrow> ctor_scan" where
  "scan_attr st (RulispAttr ms) =
     (case parse_nested_meta False None ms of
        Inl e \<Rightarrow> st\<lparr>attr_err := Some e, kept := kept st @ [RulispAttr ms]\<rparr>
      | Inr (ctor, name) \<Rightarrow>
          if name \<noteq> None \<and> \<not> ctor then
            st\<lparr>attr_err := Some NameOnNonConstructor, kept := kept st @ [RulispAttr ms]\<rparr>
          else if ctor then st\<lparr>is_ctor := True, ctor_name := name\<rparr>
          else st\<lparr>kept := kept st @ [RulispAttr ms]\<rparr>)"
| "scan_attr st a = st\<lparr>kept := kept st @ [a]\<rparr>"

definition scan_attrs :: "attribute list \<Rightarrow> ctor_scan" where
  "scan_attrs attrs =
     foldl scan_attr \<lparr>is_ctor = False, ctor_name = None, attr_err = None, kept = []\<rparr> attrs"

definition bad_ctor_name :: "bytes \<Rightarrow> bool" where
  "bad_ctor_name v \<longleftrightarrow> v = [] \<or>
     list_ex (\<lambda>c. ascii_whitespace c \<or>
        c \<in> {CHR '':'', QUOTE, CHR ''('', CHR '')'', CHR ''|'', CHR ''#'', CHR '';'', CHR 0x27}) v"

fun is_receiver :: "fn_arg \<Rightarrow> bool" where
  "is_receiver (Receiver _ _ _) = True"
| "is_receiver (TypedArg _ _) = False"

definition export_method :: "path \<Rightarrow> bytes \<Rightarrow> item_fn \<Rightarrow> (macro_error, exported_fn) result" where
  "export_method self_ty ty_ident m =
     (let snake = camel_to_snake ty_ident; kebab = snake_to_kebab snake;
          scan = scan_attrs (if_attrs m); mname = if_ident m
      in case attr_err scan of
           Some e \<Rightarrow> Inl e
         | None \<Rightarrow>
             if (case ctor_name scan of Some v \<Rightarrow> bad_ctor_name v | None \<Rightarrow> False) then
               Inl BadConstructorName
             else if is_ctor scan \<and> list_ex is_receiver (if_inputs m) then Inl ConstructorTakesSelf
             else
               let (ok_ty, err) = split_result (if_output m);
                   lisp_name = (case ctor_name scan of
                      Some v \<Rightarrow> v
                    | None \<Rightarrow> if is_ctor scan then ''make-'' @ kebab
                              else kebab @ ''-'' @ snake_to_kebab mname)
               in bindR (fn_params (if_inputs m) (Some self_ty)) (\<lambda>params.
                  bindR (classify_result ok_ty (is_ctor scan)) (\<lambda>result.
                  Inr \<lparr>ef_doc = doc_of (kept scan), ef_rust_name = ty_ident @ ''::'' @ mname,
                       ef_lisp_name = lisp_name, ef_symbol = snake @ ''_'' @ mname,
                       ef_params = params, ef_result = result, ef_error = err,
                       ef_call = (if is_ctor scan then CtorCall self_ty mname else MethodCall mname)\<rparr>)))"

text \<open>The items of an impl block; \<open>None\<close> is an item that is not a function.\<close>

definition export_impl :: "ty \<Rightarrow> item_fn option list \<Rightarrow> (macro_error, exported_fn list) result" where
  "export_impl self_ty items =
     (case self_ty of
        TPath leading segs \<Rightarrow>
          (case last_segment segs of
             None \<Rightarrow> Inl BadImplType
           | Some (Segment ty_ident _) \<Rightarrow>
               mapR (export_method (leading, segs) ty_ident) (List.map_filter (\<lambda>i. i) items))
      | _ \<Rightarrow> Inl ImplNotPlainType)"

section \<open>Metadata\<close>

text \<open>\<open>rust_name_of\<close> is the \<^verbatim>\<open>HandleType::RUST_NAME\<close> the compiler resolves a path to.\<close>

fun param_meta_ty :: "(path \<Rightarrow> bytes) \<Rightarrow> pty \<Rightarrow> param_ty" where
  "param_meta_ty rust_name_of (PTScalar tok ty) = PScalar tok"
| "param_meta_ty rust_name_of PTBool = PScalar '':bool''"
| "param_meta_ty rust_name_of PTStrRef = PStr"
| "param_meta_ty rust_name_of PTBytesRef = PBytes"
| "param_meta_ty rust_name_of (PTHandleRef p) = PHandle (rust_name_of p)"
| "param_meta_ty rust_name_of (PTCallback toks) = PCallback (map PScalar toks) '':unit''"
| "param_meta_ty rust_name_of (PTStoredCallback toks) = PStoredCallback (map PScalar toks) '':unit''"
| "param_meta_ty rust_name_of (PTOptionScalar tok ty) = POption (PScalar tok)"
| "param_meta_ty rust_name_of PTOptionStr = POption PStr"
| "param_meta_ty rust_name_of PTOptionBytes = POption PBytes"
| "param_meta_ty rust_name_of (PTVecScalar tok ty) = PVec tok"

fun result_meta_ty :: "(path \<Rightarrow> bytes) \<Rightarrow> rty \<Rightarrow> result_ty" where
  "result_meta_ty rust_name_of RTUnit = RUnit"
| "result_meta_ty rust_name_of (RTScalar tok ty) = RScalar tok"
| "result_meta_ty rust_name_of RTBool = RScalar '':bool''"
| "result_meta_ty rust_name_of RTStr = RStr"
| "result_meta_ty rust_name_of RTBytes = RBytes"
| "result_meta_ty rust_name_of (RTHandle p) = RHandle (rust_name_of p)"
| "result_meta_ty rust_name_of (RTOptionScalar tok ty) = ROption (RScalar tok)"
| "result_meta_ty rust_name_of RTOptionStr = ROption RStr"
| "result_meta_ty rust_name_of RTOptionBytes = ROption RBytes"
| "result_meta_ty rust_name_of (RTVecScalar tok ty) = RVec tok"

definition gen_meta_const :: "(path \<Rightarrow> bytes) \<Rightarrow> exported_fn \<Rightarrow> fn_meta" where
  "gen_meta_const rust_name_of f =
     \<lparr>fm_doc = ef_doc f, fm_rust_name = ef_rust_name f, fm_lisp_name = ef_lisp_name f,
      fm_symbol = ef_symbol f,
      fm_params = map (\<lambda>(name, p). \<lparr>pm_name = name, pm_ty = param_meta_ty rust_name_of p\<rparr>) (ef_params f),
      fm_result = result_meta_ty rust_name_of (ef_result f), fm_error = ef_error f\<rparr>"

definition handle_meta_of :: "attribute list \<Rightarrow> bytes \<Rightarrow> handle_meta" where
  "handle_meta_of attrs ty_ident =
     \<lparr>hm_doc = doc_of attrs, hm_rust_name = ty_ident,
      hm_lisp_name = snake_to_kebab (camel_to_snake ty_ident),
      hm_free_symbol = camel_to_snake ty_ident @ ''_free''\<rparr>"

section \<open>\<^verbatim>\<open>module!\<close>\<close>

datatype module_entry =
  EntryName bytes | EntryHandles "path list" | EntryFns "path list" | EntryOnDump bytes | EntryUnknown bytes

record module_keys =
  mk_name :: "bytes option"
  mk_handles :: "path list option"
  mk_fns :: "path list option"
  mk_on_dump :: "bytes option"

record module_input =
  mi_name :: bytes
  mi_handles :: "path list"
  mi_fns :: "path list"
  mi_on_dump :: "bytes option"

fun module_keys_of :: "module_keys \<Rightarrow> module_entry list \<Rightarrow> (macro_error, module_keys) result" where
  "module_keys_of k [] = Inr k"
| "module_keys_of k (EntryName n # es) = module_keys_of (k\<lparr>mk_name := Some n\<rparr>) es"
| "module_keys_of k (EntryHandles ps # es) = module_keys_of (k\<lparr>mk_handles := Some ps\<rparr>) es"
| "module_keys_of k (EntryFns ps # es) = module_keys_of (k\<lparr>mk_fns := Some ps\<rparr>) es"
| "module_keys_of k (EntryOnDump f # es) = module_keys_of (k\<lparr>mk_on_dump := Some f\<rparr>) es"
| "module_keys_of k (EntryUnknown other # es) = Inl (ModuleUnknownKey other)"

definition parse_module_input :: "module_entry list \<Rightarrow> (macro_error, module_input) result" where
  "parse_module_input entries =
     bindR (module_keys_of \<lparr>mk_name = None, mk_handles = None, mk_fns = None, mk_on_dump = None\<rparr> entries) (\<lambda>k.
     (case mk_name k of None \<Rightarrow> Inl ModuleNeedsName | Some n \<Rightarrow>
     (case mk_handles k of None \<Rightarrow> Inl ModuleNeedsHandles | Some hs \<Rightarrow>
     (case mk_fns k of None \<Rightarrow> Inl ModuleNeedsFns | Some fs \<Rightarrow>
        Inr \<lparr>mi_name = n, mi_handles = hs, mi_fns = fs, mi_on_dump = mk_on_dump k\<rparr>))))"

definition meta_const_ident :: "bytes \<Rightarrow> bytes" where
  "meta_const_ident name = ''__RULISP_META_'' @ map upcase name"

fun segment_ident :: "path_segment \<Rightarrow> bytes" where
  "segment_ident (Segment name args) = name"

definition meta_path :: "path \<Rightarrow> (macro_error, bytes list) result" where
  "meta_path p =
     (case map segment_ident (snd p) of
        [f] \<Rightarrow> Inr [meta_const_ident f]
      | [t, m] \<Rightarrow> Inr [t, meta_const_ident m]
      | _ \<Rightarrow> Inl BadFnsEntry)"

text \<open>
  What \<^verbatim>\<open>module!\<close> makes the library's manifest: the constants a path names are resolved by the
  compiler (\<open>fn_const\<close>, \<open>handle_const\<close>), and the assertion on the hook's metadata is evaluated by it.
\<close>

definition module_manifest ::
  "bytes \<Rightarrow> bytes \<Rightarrow> bytes \<Rightarrow> bytes \<Rightarrow> (bytes list \<Rightarrow> fn_meta) \<Rightarrow> (path \<Rightarrow> handle_meta) \<Rightarrow>
   module_input \<Rightarrow> (macro_error, bytes) result" where
  "module_manifest rulisp_version target pkg version fn_const handle_const mi =
     (if mi_name mi \<noteq> pkg then Inl ModuleNameMismatch
      else if (case mi_on_dump mi of Some f \<Rightarrow> \<not> list_ex (\<lambda>p. is_ident (fst p) (snd p) f) (mi_fns mi)
               | None \<Rightarrow> False) then Inl OnDumpNotInFns
      else bindR (mapR meta_path (mi_fns mi)) (\<lambda>fns.
           if (case mi_on_dump mi of Some f \<Rightarrow> fm_params (fn_const [meta_const_ident f]) \<noteq> []
               | None \<Rightarrow> False) then Inl OnDumpHasParams
           else Inr (render_manifest rulisp_version target pkg version (crate_prefix pkg) (mi_on_dump mi)
                  (map handle_const (mi_handles mi)) (map fn_const fns))))"

section \<open>No named lifetime is accepted\<close>

fun lifetimes :: "ty \<Rightarrow> bytes list"
  and lifetimes_tys :: "ty list \<Rightarrow> bytes list"
  and lifetimes_segments :: "path_segment list \<Rightarrow> bytes list"
  and lifetimes_segment :: "path_segment \<Rightarrow> bytes list"
  and lifetimes_args :: "garg list \<Rightarrow> bytes list" where
  "lifetimes (TReference lt m elem) = (case lt of Some l \<Rightarrow> [l] | None \<Rightarrow> []) @ lifetimes elem"
| "lifetimes (TSlice elem) = lifetimes elem"
| "lifetimes (TTuple elems) = lifetimes_tys elems"
| "lifetimes (TParen elem) = lifetimes elem"
| "lifetimes (TGroup elem) = lifetimes elem"
| "lifetimes (TPath leading segs) = lifetimes_segments segs"
| "lifetimes TOther = []"
| "lifetimes_tys [] = []"
| "lifetimes_tys (t # ts) = lifetimes t @ lifetimes_tys ts"
| "lifetimes_segments [] = []"
| "lifetimes_segments (s # ss) = lifetimes_segment s @ lifetimes_segments ss"
| "lifetimes_segment (Segment name (AngleBracketed gs)) = lifetimes_args gs"
| "lifetimes_segment (Segment name NoArgs) = []"
| "lifetimes_segment (Segment name Parenthesized) = []"
| "lifetimes_args [] = []"
| "lifetimes_args (GLifetime lt # gs) = lt # lifetimes_args gs"
| "lifetimes_args (GType t # gs) = lifetimes t @ lifetimes_args gs"
| "lifetimes_args (GOther # gs) = lifetimes_args gs"

lemma named_Inr [simp]: "named lt = Inr () \<longleftrightarrow> lt = ''_''"
  by (simp add: named_def)

lemma bind_unit_Inr: "bindR r (\<lambda>_. k) = Inr b \<longleftrightarrow> r = Inr () \<and> k = Inr b"
  by (cases r) auto

lemma reject_iff:
  "reject_named_lifetimes ty = Inr () \<longleftrightarrow> set (lifetimes ty) \<subseteq> {''_''}"
  "reject_tys ts = Inr () \<longleftrightarrow> set (lifetimes_tys ts) \<subseteq> {''_''}"
  "reject_segments ss = Inr () \<longleftrightarrow> set (lifetimes_segments ss) \<subseteq> {''_''}"
  "reject_segment sg = Inr () \<longleftrightarrow> set (lifetimes_segment sg) \<subseteq> {''_''}"
  "reject_args gs = Inr () \<longleftrightarrow> set (lifetimes_args gs) \<subseteq> {''_''}"
  by (induction ty and ts and ss and sg and gs
      rule: reject_named_lifetimes_reject_tys_reject_segments_reject_segment_reject_args.induct)
     (auto simp: bind_unit_Inr split: option.splits)

section \<open>The classified vocabulary\<close>

definition scalar_toks :: "bytes set" where
  "scalar_toks = snd ` set SCALARS"

fun pty_closed :: "pty \<Rightarrow> bool" where
  "pty_closed (PTScalar tok ty) = (tok \<in> scalar_toks)"
| "pty_closed (PTOptionScalar tok ty) = (tok \<in> scalar_toks)"
| "pty_closed (PTVecScalar tok ty) = (tok \<in> scalar_toks)"
| "pty_closed (PTCallback toks) = (set toks \<subseteq> insert '':string'' (insert '':bool'' scalar_toks))"
| "pty_closed (PTStoredCallback toks) = (set toks \<subseteq> insert '':string'' (insert '':bool'' scalar_toks))"
| "pty_closed _ = True"

fun rty_closed :: "rty \<Rightarrow> bool" where
  "rty_closed (RTScalar tok ty) = (tok \<in> scalar_toks)"
| "rty_closed (RTOptionScalar tok ty) = (tok \<in> scalar_toks)"
| "rty_closed (RTVecScalar tok ty) = (tok \<in> scalar_toks)"
| "rty_closed _ = True"

lemma scalar_tok_closed: "scalar_tok name = Some tok \<Longrightarrow> tok \<in> scalar_toks"
  unfolding scalar_tok_def scalar_toks_def by (rule image_eqI [OF _ map_of_SomeD]) auto

lemma classify_slice_closed: "classify_slice e = Inr p \<Longrightarrow> pty_closed p"
  by (auto simp: classify_slice_def scalar_tok_closed
      split: ty.splits if_splits option.splits path_segment.splits)

lemma classify_ref_closed: "classify_ref e = Inr p \<Longrightarrow> pty_closed p"
  by (auto simp: classify_ref_def dest: classify_slice_closed split: ty.splits if_splits)

lemma option_param_closed: "option_param p = Inr q \<Longrightarrow> pty_closed p \<Longrightarrow> pty_closed q"
  by (cases p) auto

lemma callback_tok_closed:
  "callback_tok p = Inr tok \<Longrightarrow> pty_closed p \<Longrightarrow> tok \<in> insert '':string'' (insert '':bool'' scalar_toks)"
  by (cases p) auto

text \<open>How a path type can be accepted.\<close>

lemma classify_path_cases:
  assumes "classify_param (TPath leading segs) = Inr p"
  obtains (scalar) name args tok where "last_segment segs = Some (Segment name args)"
      "scalar_tok name = Some tok" "p = PTScalar tok (TPath leading segs)"
  | (boolean) "p = PTBool"
  | (callback) name args stored elems toks where "last_segment segs = Some (Segment name args)"
      "callback_tuple args stored = Inr elems" "classify_elems elems = Inr toks"
      "p = (if stored then PTStoredCallback toks else PTCallback toks)"
  | (option) name inner gs q where
      "last_segment segs = Some (Segment name (AngleBracketed (GType inner # gs)))"
      "classify_param inner = Inr q" "option_param q = Inr p"
proof -
  from assms have a: "(case last_segment segs of
      None \<Rightarrow> Inl Unsupported
    | Some (Segment name args) \<Rightarrow>
        (case scalar_tok name of
           Some tok \<Rightarrow> Inr (PTScalar tok (TPath leading segs))
         | None \<Rightarrow>
             if name = ''bool'' then Inr PTBool
             else if name = ''Callback'' then
               (case callback_tuple args False of
                  Inl e \<Rightarrow> Inl e
                | Inr elems \<Rightarrow> bindR (classify_elems elems) (\<lambda>toks. Inr (PTCallback toks)))
             else if name = ''StoredCallback'' then
               (case callback_tuple args True of
                  Inl e \<Rightarrow> Inl e
                | Inr elems \<Rightarrow> bindR (classify_elems elems) (\<lambda>toks. Inr (PTStoredCallback toks)))
             else if name = ''Option'' then
               (case args of
                  AngleBracketed (GType inner # _) \<Rightarrow> bindR (classify_param inner) option_param
                | _ \<Rightarrow> Inl Unsupported)
             else Inl Unsupported)) = Inr p"
    by (subst (asm) classify_param.simps) (simp add: bind_unit_Inr)
  then obtain name args where seg: "last_segment segs = Some (Segment name args)"
    by (auto split: option.splits path_segment.splits)
  show ?thesis
  proof (cases "scalar_tok name")
    case (Some tok)
    with a seg scalar show ?thesis by simp
  next
    case None
    consider "name = ''bool''" | "name = ''Callback''" | "name = ''StoredCallback''" | "name = ''Option''"
      using a seg None by (auto split: if_splits)
    then show ?thesis
    proof cases
      case 1
      with a seg None boolean show ?thesis by simp
    next
      case 2
      with a seg None callback [of name args False] show ?thesis
        by (auto simp: result_simps split: sum.splits)
    next
      case 3
      with a seg None callback [of name args True] show ?thesis
        by (auto simp: result_simps split: sum.splits)
    next
      case 4
      with a seg None option show ?thesis
        by (auto simp: result_simps split: path_args.splits list.splits garg.splits)
    qed
  qed
qed

lemma classify_elems_closed:
  "(\<And>e p. e \<in> set es \<Longrightarrow> classify_param e = Inr p \<Longrightarrow> pty_closed p) \<Longrightarrow>
   classify_elems es = Inr toks \<Longrightarrow> set toks \<subseteq> insert '':string'' (insert '':bool'' scalar_toks)"
proof (induction es arbitrary: toks)
  case (Cons e es)
  then obtain p tok toks' where "classify_param e = Inr p" "callback_tok p = Inr tok"
      "classify_elems es = Inr toks'" "toks = tok # toks'"
    by (auto simp: result_simps)
  moreover from this have "pty_closed p" using Cons.prems(1) [of e p] by simp
  ultimately show ?case using callback_tok_closed [of p tok] Cons by auto
qed simp

lemma classify_param_closed: "classify_param ty = Inr p \<Longrightarrow> pty_closed p"
proof (induction "size ty" arbitrary: ty p rule: less_induct)
  case less
  show ?case
  proof (cases ty)
    case (TPath leading segs)
    with less.prems have "classify_param (TPath leading segs) = Inr p" by simp
    then show ?thesis
    proof (cases rule: classify_path_cases)
      case (callback name args stored elems toks)
      have small: "size e < size ty" if "e \<in> set elems" for e
        using that callback(1,2) segment_args_size [of segs name args] callback_tuple_size [of args stored elems]
          size_list_estimation' [of e elems "size e" size] TPath by simp
      have "set toks \<subseteq> insert '':string'' (insert '':bool'' scalar_toks)"
        using classify_elems_closed [OF _ callback(3)] less.hyps small by blast
      with callback(4) show ?thesis by simp
    next
      case (option name inner gs q)
      then have "size inner < size ty" using segment_args_size [of segs] TPath by fastforce
      with option less.hyps show ?thesis using option_param_closed by blast
    qed (auto dest: scalar_tok_closed)
  next
    case (TReference lt m elem)
    with less.prems show ?thesis
      by (subst (asm) classify_param.simps) (auto simp: result_simps dest: classify_ref_closed split: if_splits)
  qed (use less.prems in \<open>subst (asm) classify_param.simps; simp add: result_simps\<close>)+
qed

lemma classify_vec_closed: "classify_vec args = Inr r \<Longrightarrow> rty_closed r"
  by (auto simp: classify_vec_def scalar_tok_closed
      split: path_args.splits list.splits garg.splits ty.splits if_splits option.splits path_segment.splits)

lemma option_result_closed: "option_result r = Inr q \<Longrightarrow> rty_closed r \<Longrightarrow> rty_closed q"
  by (cases r) auto

lemma classify_result_ty_closed: "classify_result_ty ty ctor = Inr r \<Longrightarrow> rty_closed r"
proof (induction "size ty" arbitrary: ty ctor r rule: less_induct)
  case less
  show ?case
  proof (cases ty)
    case (TPath leading segs)
    with less.prems obtain name args where seg: "last_segment segs = Some (Segment name args)"
      by (subst (asm) classify_result_ty.simps) (auto split: option.splits path_segment.splits)
    have inner: "rty_closed q" if "args = AngleBracketed (GType inner # gs)"
      "classify_result_ty inner True = Inr q" for inner gs q
      using that less.hyps [of inner True q] segment_args_size [OF seg] TPath by simp
    show ?thesis
      using less.prems TPath seg
      by (subst (asm) classify_result_ty.simps)
         (auto simp: result_simps scalar_tok_closed
           dest: classify_vec_closed inner option_result_closed
           split: option.splits if_splits path_args.splits list.splits garg.splits)
  qed (use less.prems in \<open>subst (asm) classify_result_ty.simps; auto split: if_splits\<close>)+
qed

lemma classify_result_closed: "classify_result ty ctor = Inr r \<Longrightarrow> rty_closed r"
  by (auto simp: classify_result_def classify_result_ty_closed split: option.splits)

lemma fn_params_closed: "fn_params inputs self_ty = Inr ps \<Longrightarrow> list_all (pty_closed \<circ> snd) ps"
proof -
  have one: "fn_param self_ty i = Inr p \<Longrightarrow> pty_closed (snd p)" for i p
    by (cases i) (auto simp: result_simps dest: classify_param_closed split: if_splits option.splits)
  show "fn_params inputs self_ty = Inr ps \<Longrightarrow> ?thesis"
    by (auto simp: fn_params_def mapR_Inr_iff list_all2_conv_all_nth list_all_length dest: one)
qed

definition fn_closed :: "exported_fn \<Rightarrow> bool" where
  "fn_closed f \<longleftrightarrow> list_all (pty_closed \<circ> snd) (ef_params f) \<and> rty_closed (ef_result f)"

lemma export_closed:
  "export_free_fn item = Inr f \<Longrightarrow> fn_closed f"
  "export_method p t item = Inr f \<Longrightarrow> fn_closed f"
  by (auto simp: export_free_fn_def export_method_def fn_closed_def Let_def result_simps
      dest: fn_params_closed classify_result_closed split: prod.splits option.splits if_splits)

text \<open>The names in an export contain no quote and no backslash.\<close>

definition plain_names :: "exported_fn \<Rightarrow> bool" where
  "plain_names f \<longleftrightarrow> plain (ef_rust_name f) \<and> plain (ef_lisp_name f) \<and> plain (ef_symbol f) \<and>
     list_all (plain \<circ> fst) (ef_params f) \<and> pred_option plain (ef_error f)"

lemma type_token_literals:
  "tok \<in> insert '':unit'' (insert '':string'' (insert '':bool'' scalar_toks)) \<Longrightarrow> type_token tok"
  by (auto simp: scalar_toks_def SCALARS_def type_token_def atom_char_def terminates_def
      reader_macro_def whitespace_def)

lemma wf_param_meta_ty: "pty_closed p \<Longrightarrow> (\<And>q. plain (rust_name_of q)) \<Longrightarrow> wf_ty (param_meta_ty rust_name_of p)"
  by (cases p) (auto simp: list_all_iff type_token_literals)

lemma wf_result_meta_ty: "rty_closed r \<Longrightarrow> (\<And>q. plain (rust_name_of q)) \<Longrightarrow> wf_result (result_meta_ty rust_name_of r)"
  by (cases r) (auto simp: type_token_literals)

lemma wf_gen_meta_const:
  assumes "fn_closed f" "plain_names f" "\<And>q. plain (rust_name_of q)"
  shows "wf_fn (gen_meta_const rust_name_of f)"
proof -
  have "wf_ty (param_meta_ty rust_name_of p)" if "(n, p) \<in> set (ef_params f)" for n p
    using wf_param_meta_ty [OF _ assms(3)] assms(1) that by (force simp: fn_closed_def list_all_iff)
  then show ?thesis
    using assms wf_result_meta_ty [OF _ assms(3)]
    by (auto simp: wf_fn_def gen_meta_const_def fn_closed_def plain_names_def list_all_iff)
qed

lemma meta_path_of_ident:
  assumes "mapR meta_path ps = Inr cs" "list_ex (\<lambda>p. is_ident (fst p) (snd p) f) ps"
  shows "[meta_const_ident f] \<in> set cs"
proof -
  from assms(2) obtain p where p: "p \<in> set ps" "snd p = [Segment f NoArgs]"
    by (auto simp: list_ex_iff is_ident_def)
  then have "meta_path p = Inr [meta_const_ident f]" by (simp add: meta_path_def)
  with mapR_elem [OF assms(1) p(1)] show ?thesis by auto
qed

lemma find_distinct:
  "x \<in> set xs \<Longrightarrow> distinct (map k xs) \<Longrightarrow> k x = v \<Longrightarrow> List.find (\<lambda>y. k y = v) xs = Some x"
  by (induction xs) (auto simp: image_iff)

section \<open>Properties\<close>

fun arg_lifetimes :: "fn_arg \<Rightarrow> bytes list" where
  "arg_lifetimes (Receiver (Some (Some lt)) m colon) = [lt]"
| "arg_lifetimes (Receiver _ m colon) = []"
| "arg_lifetimes (TypedArg pat ty) = lifetimes ty"

lemma classify_param_lifetimes: "classify_param ty = Inr p \<Longrightarrow> set (lifetimes ty) \<subseteq> {''_''}"
  by (subst (asm) classify_param.simps) (auto simp: result_simps simp flip: reject_iff(1))

lemma fn_param_lifetimes: "fn_param self_ty a = Inr p \<Longrightarrow> set (arg_lifetimes a) \<subseteq> {''_''}"
  by (cases a rule: arg_lifetimes.cases)
     (auto simp: result_simps dest: classify_param_lifetimes split: if_splits option.splits)



text \<open>A crate with one exported hook \<^verbatim>\<open>fn ping()\<close>.\<close>

definition sample_item :: item_fn where
  "sample_item = \<lparr>if_attrs = [DocAttr '' Say hello. ''], if_ident = ''ping'', if_inputs = [], if_output = None\<rparr>"

definition sample_export :: exported_fn where
  "sample_export = \<lparr>ef_doc = Some ''Say hello.'', ef_rust_name = ''ping'', ef_lisp_name = ''ping'',
     ef_symbol = ''ping'', ef_params = [], ef_result = RTUnit, ef_error = None, ef_call = FreeCall ''ping''\<rparr>"

definition sample_module :: module_input where
  "sample_module = \<lparr>mi_name = ''demo'', mi_handles = [], mi_fns = [(False, [Segment ''ping'' NoArgs])],
     mi_on_dump = Some ''ping''\<rparr>"

lemma sample_item_exports: "export_free_fn sample_item = Inr sample_export"
  by (simp add: export_free_fn_def sample_item_def sample_export_def split_result_def fn_params_def
      classify_result_def doc_of_def trim_def ascii_whitespace_def strip_prefix1_def snake_to_kebab_def
      replace_char_def List.map_filter_simps)

text \<open>
  Whatever a crate exports reads back: if every function constant of a \<^verbatim>\<open>module!\<close> is metadata the
  macros generated from an accepted item, the manifest it emits is one that \<^verbatim>\<open>parse-manifest\<close> accepts,
  and the specifications Lisp gets are exactly that metadata.  The remaining hypotheses are what the
  macros leave to the compiler and the author: quote-free names, distinct symbols and Lisp names, an
  \<^verbatim>\<open>on_dump\<close> hook that returns unit and whose constant is its own.
\<close>

theorem module_manifest_loads:
  assumes m: "module_manifest rulisp_version target pkg version fn_const handle_const mi = Inr text"
    and resolved: "mapR meta_path (mi_fns mi) = Inr cs"
    and gen: "\<forall>c\<in>set cs. \<exists>f. fn_const c = gen_meta_const rust_name_of f \<and> plain_names f \<and>
      ((\<exists>item. export_free_fn item = Inr f) \<or> (\<exists>p t item. export_method p t item = Inr f))"
    and plain: "\<forall>q. plain (rust_name_of q)"
      "list_all plain [rulisp_version, target, pkg, version]" "pred_option plain (mi_on_dump mi)"
    and wf_handles: "\<forall>h\<in>set (mi_handles mi). wf_handle (handle_const h)"
    and dist: "distinct (map (hm_lisp_name \<circ> handle_const) (mi_handles mi))"
      "distinct (map (fm_lisp_name \<circ> fn_const) cs)" "distinct (map (fm_symbol \<circ> fn_const) cs)"
    and hook: "\<forall>f. mi_on_dump mi = Some f \<longrightarrow>
      fm_symbol (fn_const [meta_const_ident f]) = f \<and> fm_result (fn_const [meta_const_ident f]) = RUnit"
  shows "parse_manifest text =
    Inr \<lparr>mf_schema = 1, mf_abi = unat ABI_VERSION, mf_crate = pkg, mf_crate_version = Some version,
      mf_target = Some target, mf_prefix = crate_prefix pkg, mf_errors = error_types (map fn_const cs),
      mf_handles = map (handle_spec_of \<circ> handle_const) (mi_handles mi),
      mf_functions = map (fn_spec_of \<circ> fn_const) cs, mf_on_dump = mi_on_dump mi,
      mf_rulisp_version = Some rulisp_version\<rparr>"
proof -
  from m resolved have out: "text = render_manifest rulisp_version target pkg version (crate_prefix pkg)
      (mi_on_dump mi) (map handle_const (mi_handles mi)) (map fn_const cs)"
    and hook_in: "\<And>f. mi_on_dump mi = Some f \<Longrightarrow>
      list_ex (\<lambda>p. is_ident (fst p) (snd p) f) (mi_fns mi) \<and> fm_params (fn_const [meta_const_ident f]) = []"
    by (auto simp: module_manifest_def split: if_splits)
  have prefix: "plain (crate_prefix pkg)"
    using plain(2) by (auto simp: crate_prefix_def replace_char_def plain_def)
  have fns: "list_all wf_fn (map fn_const cs)"
    using gen plain(1) wf_gen_meta_const export_closed by (fastforce simp: list_all_iff)
  have hook_ok: "on_dump_ok (mi_on_dump mi) (map fn_const cs)"
  proof (cases "mi_on_dump mi")
    case (Some f)
    have "[meta_const_ident f] \<in> set cs"
      using hook_in [OF Some] resolved by (auto intro: meta_path_of_ident)
    then have "List.find (\<lambda>g. fm_symbol g = f) (map fn_const cs) = Some (fn_const [meta_const_ident f])"
      using dist(3) hook Some by (intro find_distinct) auto
    then show ?thesis using Some hook hook_in [OF Some] by (simp add: on_dump_ok_def)
  qed (simp add: on_dump_ok_def)
  from manifest_round_trip_lemma [of rulisp_version target pkg version "crate_prefix pkg" "mi_on_dump mi"
      "map handle_const (mi_handles mi)" "map fn_const cs"] plain prefix fns hook_ok wf_handles dist
  show ?thesis by (simp add: out list_all_iff comp_def)
qed

theorem module_manifest_loads_witness:
  "\<exists>text. module_manifest ''0.8.0'' ''unknown'' ''demo'' ''0.1.0''
      (\<lambda>_. gen_meta_const (\<lambda>_. ''H'') sample_export) (\<lambda>_. handle_meta_of [] ''H'') sample_module = Inr text \<and>
    mf_on_dump (projr (parse_manifest text)) = Some ''ping''"
proof -
  let ?c = "\<lambda>_ :: bytes list. gen_meta_const (\<lambda>_. ''H'') sample_export"
  let ?h = "\<lambda>_ :: path. handle_meta_of [] ''H''"
  have r: "mapR meta_path (mi_fns sample_module) = Inr [[meta_const_ident ''ping'']]"
    by (simp add: sample_module_def meta_path_def)
  obtain out where t: "module_manifest ''0.8.0'' ''unknown'' ''demo'' ''0.1.0'' ?c ?h sample_module = Inr out"
    using r by (simp add: module_manifest_def sample_module_def is_ident_def gen_meta_const_def sample_export_def)
  have gen: "\<forall>c\<in>set [[meta_const_ident ''ping'']]. \<exists>f. ?c c = gen_meta_const (\<lambda>_. ''H'') f \<and> plain_names f \<and>
      ((\<exists>item. export_free_fn item = Inr f) \<or> (\<exists>p t item. export_method p t item = Inr f))"
    using sample_item_exports by (auto simp: plain_names_def plain_def sample_export_def)
  have "mf_on_dump (projr (parse_manifest out)) = Some ''ping''"
    by (subst module_manifest_loads [OF t r gen])
       (simp_all add: plain_def sample_module_def gen_meta_const_def sample_export_def)
  with t show ?thesis by blast
qed

definition backslash_item :: item_fn where
  "backslash_item = \<lparr>if_attrs = [RulispAttr [MetaConstructor, MetaName (''make'' @ [BACKSLASH])]],
     if_ident = ''new'', if_inputs = [], if_output = Some (TPath False [Segment ''Bag'' NoArgs])\<rparr>"


end
