(* ===== verification/Callback.thy ===== *)
theory Callback
  imports Runtime
begin

text \<open>
  \<^verbatim>\<open>crates/rulisp/src/lib.rs\<close>: the error types of glue code, and the two kinds of Lisp callback.

  A C value on the wire is a scalar (its octets in memory order), an octet, an address, a length, a
  function pointer or a 64-bit number.  The Lisp trampoline behind a function pointer is a parameter:
  it gets the leading \<^verbatim>\<open>u64\<close> and the encoded arguments, may call back into the library, and answers
  a status.
\<close>

datatype wire = WNum bytes | WByte u8 | WPtr ptr | WSize nat | WFn nat | WU64 u64

section \<open>Errors\<close>

datatype error = Error bytes

definition error_msg :: "bytes \<Rightarrow> error" where
  "error_msg m = Error m"

fun error_string :: "error \<Rightarrow> bytes" where
  "error_string (Error m) = m"

datatype callback_error = CallbackError

definition callback_error_string :: "callback_error \<Rightarrow> bytes" where
  "callback_error_string e = ''Lisp callback signaled a condition''"

definition error_from_callback :: "callback_error \<Rightarrow> error" where
  "error_from_callback e = error_msg ''Lisp callback signaled a condition''"

section \<open>Argument tuples\<close>

text \<open>The one-element tuples \<^verbatim>\<open>CbArgsFor\<close> is implemented for; a string is passed by its address.\<close>

datatype cb_arg = ArgStr ptr bytes | ArgScalar bytes bytes | ArgU8 u8 | ArgBool bool

fun cb_encode :: "cb_arg \<Rightarrow> wire list" where
  "cb_encode (ArgStr p s) = [WPtr p, WSize (length s)]"
| "cb_encode (ArgScalar tok v) = [WNum v]"
| "cb_encode (ArgBool b) = [WByte (if b then 1 else 0)]"
| "cb_encode (ArgU8 v) = [WByte v]"

type_synonym ('h, 'z) trampoline = "nat \<Rightarrow> u64 \<Rightarrow> wire list \<Rightarrow> ('h, 'z) runtime_scheme \<Rightarrow> i32 \<times> ('h, 'z) runtime_scheme"

definition invoke :: "('h, 'z) trampoline \<Rightarrow> nat \<Rightarrow> u64 \<Rightarrow> cb_arg \<Rightarrow> ('h, 'z) runtime_scheme \<Rightarrow> i32 \<times> ('h, 'z) runtime_scheme" where
  "invoke tramp fnptr userdata arg s = tramp fnptr userdata (cb_encode arg) s"

section \<open>Borrowed and stored callbacks\<close>

record callback =
  cb_fnptr :: nat
  cb_userdata :: u64

record stored_callback =
  sc_fnptr :: nat
  sc_id :: u64

definition callback_from_raw :: "nat \<Rightarrow> u64 \<Rightarrow> callback" where
  "callback_from_raw fnptr userdata = \<lparr>cb_fnptr = fnptr, cb_userdata = userdata\<rparr>"

definition stored_from_raw :: "nat \<Rightarrow> u64 \<Rightarrow> stored_callback" where
  "stored_from_raw fnptr i = \<lparr>sc_fnptr = fnptr, sc_id = i\<rparr>"

definition callback_call ::
  "tid \<Rightarrow> ('h, 'z) trampoline \<Rightarrow> callback \<Rightarrow> cb_arg \<Rightarrow> ('h, 'z) runtime_scheme \<Rightarrow> (callback_error, unit) result \<times> ('h, 'z) runtime_scheme" where
  "callback_call t tramp cb arg s =
     (let (status, s') = invoke tramp (cb_fnptr cb) (cb_userdata cb) arg s
      in if status = 0 then (Inr (), s') else (Inl CallbackError, set_callback_tunnel t s'))"

definition stored_call ::
  "('h, 'z) trampoline \<Rightarrow> stored_callback \<Rightarrow> cb_arg \<Rightarrow> ('h, 'z) runtime_scheme \<Rightarrow> (callback_error, unit) result \<times> ('h, 'z) runtime_scheme" where
  "stored_call tramp sc arg s =
     (let (status, s') = invoke tramp (sc_fnptr sc) (sc_id sc) arg s
      in if status = 0 then (Inr (), s') else (Inl CallbackError, s'))"

lemma callback_call_status:
  "tramp (cb_fnptr cb) (cb_userdata cb) (cb_encode arg) s = (status, s') \<Longrightarrow>
   callback_call t tramp cb arg s =
     (if status = 0 then (Inr (), s') else (Inl CallbackError, set_callback_tunnel t s'))"
  by (simp add: callback_call_def invoke_def)

lemma stored_call_tunnel:
  "tramp (sc_fnptr sc) (sc_id sc) (cb_encode arg) s = (status, s') \<Longrightarrow>
   callback_tunnel t (snd (stored_call tramp sc arg s)) = callback_tunnel t s'"
  by (simp add: stored_call_def invoke_def)

section \<open>What the trampoline decodes\<close>

text \<open>
  The argument forms of \<^verbatim>\<open>trampoline-form\<close> in \<^verbatim>\<open>lisp/src/codegen.lisp\<close>: a string from its address and
  length (read through \<open>mem\<close>), a bool as \<^verbatim>\<open>plusp\<close>, any other scalar as it is.
\<close>

datatype lisp_arg = LString bytes | LBool bool | LByte u8 | LNumber bytes

fun trampoline_arg :: "mem \<Rightarrow> bytes \<Rightarrow> wire list \<Rightarrow> lisp_arg option" where
  "trampoline_arg m tok [WPtr p, WSize n] =
     (if tok = '':string'' then map_option LString (bytes_arg m p n) else None)"
| "trampoline_arg m tok [WByte b] =
     (if tok = '':bool'' then Some (LBool (0 < b)) else if tok = '':u8'' then Some (LByte b) else None)"
| "trampoline_arg m tok [WNum v] =
     (if tok \<in> {'':string'', '':bool'', '':u8''} then None else Some (LNumber v))"
| "trampoline_arg m tok _ = None"

fun cb_tok :: "cb_arg \<Rightarrow> bytes" where
  "cb_tok (ArgStr p s) = '':string''"
| "cb_tok (ArgScalar tok v) = tok"
| "cb_tok (ArgU8 v) = '':u8''"
| "cb_tok (ArgBool b) = '':bool''"

fun lisp_of_arg :: "cb_arg \<Rightarrow> lisp_arg" where
  "lisp_of_arg (ArgStr p s) = LString s"
| "lisp_of_arg (ArgScalar tok v) = LNumber v"
| "lisp_of_arg (ArgU8 v) = LByte v"
| "lisp_of_arg (ArgBool b) = LBool b"

definition arg_readable :: "mem \<Rightarrow> cb_arg \<Rightarrow> bool" where
  "arg_readable m a = (case a of ArgStr p s \<Rightarrow> read_mem m p (length s) = Some s
     | ArgScalar tok v \<Rightarrow> tok \<notin> {'':string'', '':bool'', '':u8''} | _ \<Rightarrow> True)"

section \<open>Properties\<close>

text \<open>
  A callback's argument reaches the Lisp closure unchanged: what \<^verbatim>\<open>CbArgsFor::invoke\<close> puts on the
  wire for a declared argument type, the trampoline for that type's token decodes to the same value.
\<close>

theorem callback_argument_round_trip:
  assumes "arg_readable m a"
  shows "trampoline_arg m (cb_tok a) (cb_encode a) = Some (lisp_of_arg a)"
  using assms by (cases a) (auto simp: arg_readable_def bytes_arg_def)

theorem callback_argument_round_trip_witness:
  "trampoline_arg (store_mem Map.empty 64 ''hi'') (cb_tok (ArgStr 64 ''hi'')) (cb_encode (ArgStr 64 ''hi'')) =
     Some (LString ''hi'')"
  using callback_argument_round_trip [of "store_mem Map.empty 64 ''hi''" "ArgStr 64 ''hi''"]
    read_store_mem [of "''hi''" Map.empty 64]
  by (simp add: arg_readable_def)

end
