(* ===== verification/Shim.thy ===== *)
theory Shim
  imports Macros Callback
begin

text \<open>
  \<^verbatim>\<open>crates/rulisp-macros/src/lib.rs\<close>, \<^verbatim>\<open>gen_fn\<close>: the \<^verbatim>\<open>extern "C"\<close> functions the macros generate, as a
  description, and the C signature the Lisp wrapper derives from the manifest,
  \<^verbatim>\<open>lisp/src/codegen.lisp\<close>.  What a generated function does when it is called is theory
  \<open>Shim_Exec\<close>.
\<close>

section \<open>C types and signatures\<close>

datatype c_ty =
    CI8 | CI16 | CI32 | CI64 | CU8 | CU16 | CU32 | CU64 | CF32 | CF64 | CUsize
  | CVoid | CPtr c_ty | CMutPtr c_ty | CFnPtr "c_ty list"

definition scalar_c_ty :: "bytes \<Rightarrow> c_ty option" where
  "scalar_c_ty tok = map_of
     [('':i8'', CI8), ('':i16'', CI16), ('':i32'', CI32), ('':i64'', CI64), ('':u8'', CU8),
      ('':u16'', CU16), ('':u32'', CU32), ('':u64'', CU64), ('':f32'', CF32), ('':f64'', CF64)] tok"

abbreviation scalar_c :: "bytes \<Rightarrow> c_ty" where
  "scalar_c tok \<equiv> (case scalar_c_ty tok of Some c \<Rightarrow> c | None \<Rightarrow> CVoid)"

text \<open>\<^verbatim>\<open>size_of\<close> (and on the supported 64-bit targets \<^verbatim>\<open>align_of\<close>) of a scalar type.\<close>

definition scalar_size :: "bytes \<Rightarrow> nat" where
  "scalar_size tok =
     (if tok \<in> {'':i8'', '':u8''} then 1 else if tok \<in> {'':i16'', '':u16''} then 2
      else if tok \<in> {'':i32'', '':u32'', '':f32''} then 4 else 8)"

text \<open>\<open>None\<close> is the \<^verbatim>\<open>unreachable!\<close> arm.\<close>

definition cb_ffi_type :: "bytes \<Rightarrow> c_ty list option" where
  "cb_ffi_type tok =
     (if tok = '':string'' then Some [CPtr CU8, CUsize]
      else if tok = '':bool'' then Some [CU8]
      else map_option (\<lambda>c. [c]) (scalar_c_ty tok))"

fun cb_ffi_types :: "bytes list \<Rightarrow> c_ty list option" where
  "cb_ffi_types [] = Some []"
| "cb_ffi_types (tok # toks) =
     (case cb_ffi_type tok of None \<Rightarrow> None
      | Some cs \<Rightarrow> map_option ((@) cs) (cb_ffi_types toks))"

definition param_ident :: "bytes \<Rightarrow> bytes" where
  "param_ident name = (if name = ''self'' then ''this'' else name)"

definition fn_ptr_ty :: "bytes list \<Rightarrow> c_ty" where
  "fn_ptr_ty toks = CFnPtr (CU64 # (case cb_ffi_types toks of Some cs \<Rightarrow> cs | None \<Rightarrow> []))"

fun extern_params :: "bytes \<Rightarrow> pty \<Rightarrow> (bytes \<times> c_ty) list" where
  "extern_params i (PTScalar tok ty) = [(i, scalar_c tok)]"
| "extern_params i PTBool = [(i, CU8)]"
| "extern_params i PTStrRef = [(i @ ''_ptr'', CPtr CU8), (i @ ''_len'', CUsize)]"
| "extern_params i PTBytesRef = [(i @ ''_ptr'', CPtr CU8), (i @ ''_len'', CUsize)]"
| "extern_params i (PTVecScalar tok ty) = [(i @ ''_ptr'', CPtr (scalar_c tok)), (i @ ''_len'', CUsize)]"
| "extern_params i (PTOptionScalar tok ty) = [(i @ ''_present'', CU8), (i, scalar_c tok)]"
| "extern_params i PTOptionStr =
     [(i @ ''_present'', CU8), (i @ ''_ptr'', CPtr CU8), (i @ ''_len'', CUsize)]"
| "extern_params i PTOptionBytes =
     [(i @ ''_present'', CU8), (i @ ''_ptr'', CPtr CU8), (i @ ''_len'', CUsize)]"
| "extern_params i (PTHandleRef p) = [(i, CPtr CVoid)]"
| "extern_params i (PTCallback toks) = [(i, fn_ptr_ty toks), (i @ ''_userdata'', CU64)]"
| "extern_params i (PTStoredCallback toks) = [(i, fn_ptr_ty toks), (i @ ''_userdata'', CU64)]"

fun out_params :: "rty \<Rightarrow> (bytes \<times> c_ty) list" where
  "out_params RTUnit = []"
| "out_params (RTScalar tok ty) = [(''out'', CMutPtr (scalar_c tok))]"
| "out_params RTBool = [(''out'', CMutPtr CU8)]"
| "out_params RTStr = [(''out_ptr'', CMutPtr (CMutPtr CU8)), (''out_len'', CMutPtr CUsize)]"
| "out_params RTBytes = [(''out_ptr'', CMutPtr (CMutPtr CU8)), (''out_len'', CMutPtr CUsize)]"
| "out_params (RTHandle p) = [(''out'', CMutPtr (CMutPtr CVoid))]"
| "out_params (RTVecScalar tok ty) =
     [(''out_ptr'', CMutPtr (CMutPtr (scalar_c tok))), (''out_len'', CMutPtr CUsize)]"
| "out_params (RTOptionScalar tok ty) = [(''some_out'', CMutPtr CU8), (''out'', CMutPtr (scalar_c tok))]"
| "out_params RTOptionStr =
     [(''some_out'', CMutPtr CU8), (''out_ptr'', CMutPtr (CMutPtr CU8)), (''out_len'', CMutPtr CUsize)]"
| "out_params RTOptionBytes =
     [(''some_out'', CMutPtr CU8), (''out_ptr'', CMutPtr (CMutPtr CU8)), (''out_len'', CMutPtr CUsize)]"

section \<open>The generated shim\<close>

fun is_borrowed_callback :: "pty \<Rightarrow> bool" where
  "is_borrowed_callback (PTCallback toks) = True"
| "is_borrowed_callback _ = False"

fun is_handle_ref :: "pty \<Rightarrow> bool" where
  "is_handle_ref (PTHandleRef p) = True"
| "is_handle_ref _ = False"

record shim_desc =
  sd_ident :: bytes
  sd_signature :: "(bytes \<times> c_ty) list"
  sd_params :: "(bytes \<times> pty) list"
  sd_has_callback :: bool
  sd_call :: call_kind
  sd_result :: rty
  sd_error :: "bytes option"

definition gen_fn :: "bytes \<Rightarrow> exported_fn \<Rightarrow> (macro_error, shim_desc) result" where
  "gen_fn crate_name f =
     (let self_expr = list_ex (\<lambda>(name, p). name = ''self'' \<and> is_handle_ref p) (ef_params f)
      in if (case ef_call f of MethodCall m \<Rightarrow> \<not> self_expr | _ \<Rightarrow> False) then Inl MethodNeedsSelf
         else Inr
           \<lparr>sd_ident = crate_prefix crate_name @ ef_symbol f,
            sd_signature = concat (map (\<lambda>(name, p). extern_params (param_ident name) p) (ef_params f)) @
                           out_params (ef_result f),
            sd_params = ef_params f,
            sd_has_callback = list_ex (is_borrowed_callback \<circ> snd) (ef_params f),
            sd_call = ef_call f, sd_result = ef_result f, sd_error = ef_error f\<rparr>)"

section \<open>The signature the Lisp wrapper calls\<close>

text \<open>
  \<^verbatim>\<open>wrapper-form\<close> and \<^verbatim>\<open>result-plumbing\<close>: the C types Lisp derives from a manifest type.  Every pointer
  is \<^verbatim>\<open>:pointer\<close> there; \<open>None\<close> is a \<^verbatim>\<open>manifest-error\<close>.
\<close>

abbreviation lisp_pointer :: c_ty where
  "lisp_pointer \<equiv> CPtr CVoid"

fun erase :: "c_ty \<Rightarrow> c_ty" where
  "erase (CPtr c) = lisp_pointer"
| "erase (CMutPtr c) = lisp_pointer"
| "erase (CFnPtr cs) = lisp_pointer"
| "erase c = c"

definition scalar_types :: "(sexp \<times> c_ty) list" where
  "scalar_types =
     [(kw ''bool'', CU8), (kw ''i8'', CI8), (kw ''i16'', CI16), (kw ''i32'', CI32), (kw ''i64'', CI64),
      (kw ''u8'', CU8), (kw ''u16'', CU16), (kw ''u32'', CU32), (kw ''u64'', CU64),
      (kw ''f32'', CF32), (kw ''f64'', CF64)]"

definition scalar_cffi :: "sexp \<Rightarrow> c_ty option" where
  "scalar_cffi ty = map_of scalar_types ty"

definition vec_elt_size :: "sexp \<Rightarrow> nat option" where
  "vec_elt_size ty = map_of
     [(kw ''i8'', 1), (kw ''i16'', 2), (kw ''i32'', 4), (kw ''i64'', 8), (kw ''u8'', 1), (kw ''u16'', 2),
      (kw ''u32'', 4), (kw ''u64'', 8), (kw ''f32'', 4), (kw ''f64'', 8)] ty"

definition check_callback_shape :: "sexp list \<Rightarrow> sexp list option" where
  "check_callback_shape plist =
     (case getf plist ''params'' of
        SList params \<Rightarrow>
          if getf plist ''result'' = kw ''unit'' \<and>
             list_all (\<lambda>p. p = kw ''string'' \<or> scalar_cffi p \<noteq> None) params
          then Some params else None
      | _ \<Rightarrow> None)"

definition lisp_arg_types :: "sexp \<Rightarrow> c_ty list option" where
  "lisp_arg_types ty =
     (if ty = kw ''string'' \<or> ty = kw ''bytes'' then Some [lisp_pointer, CUsize]
      else case ty of
        SList (tag # rest) \<Rightarrow>
          if tag = kw ''option'' then
            (case rest of
               inner # _ \<Rightarrow>
                 if inner = kw ''bool'' then None
                 else if inner = kw ''string'' \<or> inner = kw ''bytes'' then Some [CU8, lisp_pointer, CUsize]
                 else map_option (\<lambda>c. [CU8, c]) (scalar_cffi inner)
             | [] \<Rightarrow> None)
          else if tag = kw ''vec'' then
            (case rest of e # _ \<Rightarrow> map_option (\<lambda>_. [lisp_pointer, CUsize]) (vec_elt_size e) | [] \<Rightarrow> None)
          else if tag = kw ''handle'' then Some [lisp_pointer]
          else if tag = kw ''callback'' \<or> tag = kw ''stored-callback'' then
            map_option (\<lambda>_. [lisp_pointer, CU64]) (check_callback_shape rest)
          else None
      | _ \<Rightarrow> map_option (\<lambda>c. [c]) (scalar_cffi ty))"

text \<open>The cells the wrapper allocates for the results; their addresses are the out-arguments.\<close>

definition lisp_out_cells :: "sexp \<Rightarrow> c_ty list option" where
  "lisp_out_cells ty =
     (if ty = kw ''unit'' then Some []
      else if ty = kw ''string'' \<or> ty = kw ''bytes'' then Some [lisp_pointer, CUsize]
      else case ty of
        SList (tag # rest) \<Rightarrow>
          if tag = kw ''handle'' then Some [lisp_pointer]
          else if tag = kw ''option'' then
            (case rest of
               inner # _ \<Rightarrow>
                 if inner = kw ''bool'' then None
                 else if inner = kw ''string'' \<or> inner = kw ''bytes'' then Some [CU8, lisp_pointer, CUsize]
                 else map_option (\<lambda>c. [CU8, c]) (scalar_cffi inner)
             | [] \<Rightarrow> None)
          else if tag = kw ''vec'' then
            (case rest of e # _ \<Rightarrow> map_option (\<lambda>_. [lisp_pointer, CUsize]) (vec_elt_size e) | [] \<Rightarrow> None)
          else None
      | _ \<Rightarrow> map_option (\<lambda>c. [c]) (scalar_cffi ty))"

text \<open>The parameter types of the trampoline defined for a callback's parameter list.\<close>

fun trampoline_types :: "sexp list \<Rightarrow> c_ty list option" where
  "trampoline_types [] = Some []"
| "trampoline_types (ty # tys) =
     (case (if ty = kw ''string'' then Some [lisp_pointer, CUsize] else map_option (\<lambda>c. [c]) (scalar_cffi ty)) of
        None \<Rightarrow> None
      | Some cs \<Rightarrow> map_option ((@) cs) (trampoline_types tys))"

fun collect :: "'a option list \<Rightarrow> 'a list option" where
  "collect [] = Some []"
| "collect (x # xs) = (case x of None \<Rightarrow> None | Some y \<Rightarrow> map_option ((#) y) (collect xs))"

definition lisp_signature :: "fn_spec \<Rightarrow> c_ty list option" where
  "lisp_signature f =
     (case (collect (map (lisp_arg_types \<circ> ps_type) (fs_params f)), lisp_out_cells (fs_result f)) of
        (Some args, Some outs) \<Rightarrow> Some (concat args @ map (\<lambda>_. lisp_pointer) outs)
      | _ \<Rightarrow> None)"

section \<open>Signatures agree\<close>

text \<open>Keywords that name scalar types are decided by evaluation.\<close>

lemma scalar_cffi_toks:
  assumes "tok \<in> scalar_toks"
  shows "scalar_cffi (kw (tl tok)) = scalar_c_ty tok" "scalar_c_ty tok \<noteq> None"
    "vec_elt_size (kw (tl tok)) = Some (scalar_size tok)"
    "kw (tl tok) \<notin> {kw ''string'', kw ''bytes'', kw ''bool'', kw ''unit''}"
    "erase (scalar_c tok) = scalar_c tok"
proof -
  have "list_all (\<lambda>tok. scalar_cffi (kw (tl tok)) = scalar_c_ty tok \<and> scalar_c_ty tok \<noteq> None \<and>
      vec_elt_size (kw (tl tok)) = Some (scalar_size tok) \<and>
      kw (tl tok) \<notin> {kw ''string'', kw ''bytes'', kw ''bool'', kw ''unit''} \<and>
      erase (scalar_c tok) = scalar_c tok) (map snd SCALARS)"
    by code_simp
  then show "scalar_cffi (kw (tl tok)) = scalar_c_ty tok" "scalar_c_ty tok \<noteq> None"
    "vec_elt_size (kw (tl tok)) = Some (scalar_size tok)"
    "kw (tl tok) \<notin> {kw ''string'', kw ''bytes'', kw ''bool'', kw ''unit''}"
    "erase (scalar_c tok) = scalar_c tok"
    using assms by (auto simp: list_all_iff scalar_toks_def)
qed

lemma lisp_keywords:
  "kw ''option'' \<noteq> kw ''vec''" "kw ''option'' \<noteq> kw ''handle''" "kw ''vec'' \<noteq> kw ''handle''"
  "kw ''option'' \<noteq> kw ''callback''" "kw ''vec'' \<noteq> kw ''callback''" "kw ''handle'' \<noteq> kw ''callback''"
  "kw ''option'' \<noteq> kw ''stored-callback''" "kw ''vec'' \<noteq> kw ''stored-callback''"
  "kw ''handle'' \<noteq> kw ''stored-callback''" "kw ''callback'' \<noteq> kw ''stored-callback''"
  "kw ''string'' \<noteq> kw ''bytes''" "kw ''bool'' \<noteq> kw ''string''" "kw ''bool'' \<noteq> kw ''bytes''"
  "kw ''bool'' \<noteq> kw ''unit''" "kw ''string'' \<noteq> kw ''unit''" "kw ''bytes'' \<noteq> kw ''unit''"
  "scalar_cffi (kw ''bool'') = Some CU8" "kw ''params'' \<noteq> kw ''result''"
  by (simp_all add: upcase_name_char name_char_def scalar_cffi_def scalar_types_def)

definition callback_toks :: "bytes list" where
  "callback_toks = '':string'' # '':bool'' # map snd SCALARS"

definition trampoline_type :: "sexp \<Rightarrow> c_ty list option" where
  "trampoline_type ty =
     (if ty = kw ''string'' then Some [lisp_pointer, CUsize] else map_option (\<lambda>c. [c]) (scalar_cffi ty))"

lemma callback_tok_ok:
  assumes "tok \<in> set callback_toks"
  shows "trampoline_type (kw (tl tok)) = map_option (map erase) (cb_ffi_type tok)" "cb_ffi_type tok \<noteq> None"
proof -
  have "list_all (\<lambda>tok. trampoline_type (kw (tl tok)) = map_option (map erase) (cb_ffi_type tok) \<and>
      cb_ffi_type tok \<noteq> None) callback_toks"
    by code_simp
  with assms show "trampoline_type (kw (tl tok)) = map_option (map erase) (cb_ffi_type tok)"
    "cb_ffi_type tok \<noteq> None"
    by (auto simp: list_all_iff)
qed

lemma trampoline_types_Cons:
  "trampoline_types (ty # tys) =
     (case trampoline_type ty of None \<Rightarrow> None | Some cs \<Rightarrow> map_option ((@) cs) (trampoline_types tys))"
  by (simp add: trampoline_type_def)

lemma callback_types_ok:
  assumes "set toks \<subseteq> set callback_toks"
  shows "trampoline_types (map (\<lambda>tok. kw (tl tok)) toks) = map_option (map erase) (cb_ffi_types toks) \<and>
         cb_ffi_types toks \<noteq> None"
  using assms
proof (induction toks)
  case (Cons tok toks)
  have tok: "tok \<in> set callback_toks" using Cons.prems by simp
  obtain cs where cs: "cb_ffi_type tok = Some cs" using callback_tok_ok(2) [OF tok] by blast
  from Cons obtain ds where ds: "cb_ffi_types toks = Some ds"
    "trampoline_types (map (\<lambda>tok. kw (tl tok)) toks) = Some (map erase ds)" by auto
  have "trampoline_types (map (\<lambda>tok. kw (tl tok)) (tok # toks)) = trampoline_types (kw (tl tok) # map (\<lambda>tok. kw (tl tok)) toks)"
    by simp
  also have "\<dots> = Some (map erase (cs @ ds))"
    unfolding trampoline_types_Cons callback_tok_ok(1) [OF tok] cs ds by simp
  finally show ?case using cs ds by simp
qed simp

lemma callback_shape_ok:
  assumes "set toks \<subseteq> set callback_toks"
  shows "check_callback_shape [kw ''params'', SList (map (\<lambda>tok. kw (tl tok)) toks), kw ''result'', kw ''unit''] =
      Some (map (\<lambda>tok. kw (tl tok)) toks)"
proof -
  have "p = kw ''string'' \<or> scalar_cffi p \<noteq> None" if "p \<in> set (map (\<lambda>tok. kw (tl tok)) toks)" for p
  proof -
    from that assms obtain tok where "tok \<in> set callback_toks" "p = kw (tl tok)" by auto
    with callback_tok_ok [of tok] show ?thesis by (auto simp: trampoline_type_def split: if_splits)
  qed
  then show ?thesis
    using lisp_keywords(18) by (simp add: check_callback_shape_def list_all_iff)
qed

lemma callback_toks_set: "set callback_toks = insert '':string'' (insert '':bool'' scalar_toks)"
  by (simp add: callback_toks_def scalar_toks_def)

lemma lisp_arg_types_agree:
  assumes "pty_closed p"
  shows "lisp_arg_types (ty_tree (param_meta_ty rust_name_of p)) =
         Some (map (erase \<circ> snd) (extern_params i p))"
proof (cases p)
  case (PTScalar tok ty)
  with assms have tok: "tok \<in> scalar_toks" by simp
  from scalar_cffi_toks [OF tok] PTScalar show ?thesis by (auto simp: lisp_arg_types_def)
next
  case (PTOptionScalar tok ty)
  with assms have tok: "tok \<in> scalar_toks" by simp
  from scalar_cffi_toks [OF tok] PTOptionScalar show ?thesis by (auto simp: lisp_arg_types_def)
next
  case (PTVecScalar tok ty)
  with assms have tok: "tok \<in> scalar_toks" by simp
  from scalar_cffi_toks [OF tok] PTVecScalar lisp_keywords show ?thesis by (auto simp: lisp_arg_types_def)
next
  case (PTCallback toks)
  then have e: "map (erase \<circ> snd) (extern_params i p) = [lisp_pointer, CU64]" by (simp add: fn_ptr_ty_def)
  from PTCallback assms callback_shape_ok [of toks] lisp_keywords show ?thesis
    unfolding e by (simp add: lisp_arg_types_def callback_toks_set comp_def del: list.map(2))
next
  case (PTStoredCallback toks)
  then have e: "map (erase \<circ> snd) (extern_params i p) = [lisp_pointer, CU64]" by (simp add: fn_ptr_ty_def)
  from PTStoredCallback assms callback_shape_ok [of toks] lisp_keywords show ?thesis
    unfolding e by (simp add: lisp_arg_types_def callback_toks_set comp_def del: list.map(2))
qed (use lisp_keywords in \<open>auto simp: lisp_arg_types_def\<close>)

fun pointee :: "c_ty \<Rightarrow> c_ty" where
  "pointee (CMutPtr c) = c"
| "pointee c = c"

lemma lisp_out_cells_agree:
  assumes "rty_closed r"
  shows "lisp_out_cells (result_tree (result_meta_ty rust_name_of r)) =
         Some (map (erase \<circ> pointee \<circ> snd) (out_params r))"
proof (cases r)
  case (RTScalar tok ty)
  with assms have tok: "tok \<in> scalar_toks" by simp
  from scalar_cffi_toks [OF tok] RTScalar show ?thesis by (auto simp: lisp_out_cells_def)
next
  case (RTOptionScalar tok ty)
  with assms have tok: "tok \<in> scalar_toks" by simp
  from scalar_cffi_toks [OF tok] RTOptionScalar lisp_keywords show ?thesis
    by (auto simp: lisp_out_cells_def)
next
  case (RTVecScalar tok ty)
  with assms have tok: "tok \<in> scalar_toks" by simp
  from scalar_cffi_toks [OF tok] RTVecScalar lisp_keywords show ?thesis by (auto simp: lisp_out_cells_def)
qed (use lisp_keywords in \<open>auto simp: lisp_out_cells_def\<close>)

lemma collect_map_Some: "(\<And>x. x \<in> set xs \<Longrightarrow> f x = Some (g x)) \<Longrightarrow> collect (map f xs) = Some (map g xs)"
  by (induction xs) auto

lemma out_params_pointers: "map (erase \<circ> snd) (out_params r) = map (\<lambda>_. lisp_pointer) (out_params r)"
  by (cases r) auto

lemma lisp_signature_agrees:
  assumes "fn_closed f" and "gen_fn crate_name f = Inr d"
  shows "lisp_signature (fn_spec_of (gen_meta_const rust_name_of f)) = Some (map (erase \<circ> snd) (sd_signature d))"
proof -
  let ?g = "\<lambda>(name, p). map (erase \<circ> snd) (extern_params (param_ident name) p)"
  have arg: "(lisp_arg_types \<circ> ps_type \<circ> param_spec_of \<circ>
        (\<lambda>(name, p). \<lparr>pm_name = name, pm_ty = param_meta_ty rust_name_of p\<rparr>)) np = Some (?g np)"
    if "np \<in> set (ef_params f)" for np
  proof -
    have "pty_closed (snd np)" using that assms(1) by (auto simp: fn_closed_def list_all_iff)
    from lisp_arg_types_agree [OF this] show ?thesis by (simp add: param_spec_of_def case_prod_unfold)
  qed
  have args: "collect (map (lisp_arg_types \<circ> ps_type) (fs_params (fn_spec_of (gen_meta_const rust_name_of f)))) =
      Some (map ?g (ef_params f))"
    using collect_map_Some [OF arg] by (simp add: fn_spec_of_def gen_meta_const_def comp_def)
  have outs: "lisp_out_cells (fs_result (fn_spec_of (gen_meta_const rust_name_of f))) =
      Some (map (erase \<circ> pointee \<circ> snd) (out_params (ef_result f)))"
    using assms(1) lisp_out_cells_agree by (simp add: fn_spec_of_def gen_meta_const_def fn_closed_def)
  have sig: "sd_signature d = concat (map (\<lambda>(name, p). extern_params (param_ident name) p) (ef_params f)) @
      out_params (ef_result f)"
    using assms(2) by (auto simp: gen_fn_def Let_def split: if_splits)
  show ?thesis
    unfolding lisp_signature_def args outs sig
    using out_params_pointers [of "ef_result f"]
    by (simp add: map_concat comp_def case_prod_unfold)
qed

section \<open>Properties\<close>



end
