(* ===== verification/Shim_Exec.thy ===== *)
theory Shim_Exec
  imports Shim
begin

text \<open>
  What the functions \<^verbatim>\<open>gen_fn\<close> and \<^verbatim>\<open>handle\<close> generate do when they are called, and what the Lisp wrapper
  makes of their results.

  The user's function is a parameter: it receives decoded Rust values, may change the runtime state
  (through handles, callbacks and its own calls), and returns a value, an \<^verbatim>\<open>Err\<close> with its message, or
  a panic.  A run is \<open>None\<close> where the C caller broke the contract: an unreadable argument, a dead
  handle, arguments that do not match the signature.  A string argument that fails UTF-8 validation
  is not such a case.
\<close>

section \<open>Running a shim\<close>

datatype 'h rval =
    VUnit
  | VScalar bytes
  | VBool bool
  | VStr bytes
  | VBytes bytes
  | VVec "bytes list"
  | VOpt "'h rval option"
  | VHandleRef ptr
  | VCallback callback
  | VStored stored_callback
  | VObject 'h

text \<open>One prelude: how the words of a parameter become the value the user's function gets.\<close>

definition str_value ::
  "((i32, bytes) result \<times> ('h, 'z) runtime_scheme) option \<Rightarrow> (bytes \<Rightarrow> 'h rval) \<Rightarrow> ((i32, 'h rval) result \<times> ('h, 'z) runtime_scheme) option" where
  "str_value r k = map_option (\<lambda>(x, s). (bindR x (\<lambda>bs. Inr (k bs)), s)) r"

definition prelude ::
  "tid \<Rightarrow> mem \<Rightarrow> pty \<Rightarrow> wire list \<Rightarrow> ('h, 'z) runtime_scheme \<Rightarrow> ((i32, 'h rval) result \<times> ('h, 'z) runtime_scheme) option" where
  "prelude t m p ws s =
     (case p of
        PTScalar tok ty \<Rightarrow> (case ws of [WNum v] \<Rightarrow> Some (Inr (VScalar v), s) | _ \<Rightarrow> None)
      | PTBool \<Rightarrow> (case ws of [WByte b] \<Rightarrow> Some (Inr (VBool (b \<noteq> 0)), s) | _ \<Rightarrow> None)
      | PTStrRef \<Rightarrow>
          (case ws of [WPtr q, WSize n] \<Rightarrow> str_value (str_arg t m q n s) VStr | _ \<Rightarrow> None)
      | PTBytesRef \<Rightarrow>
          (case ws of [WPtr q, WSize n] \<Rightarrow> map_option (\<lambda>bs. (Inr (VBytes bs), s)) (bytes_arg m q n)
           | _ \<Rightarrow> None)
      | PTVecScalar tok ty \<Rightarrow>
          (case ws of [WPtr q, WSize n] \<Rightarrow>
             map_option (\<lambda>es. (Inr (VVec es), s)) (slice_arg m (scalar_size tok) q n)
           | _ \<Rightarrow> None)
      | PTOptionScalar tok ty \<Rightarrow>
          (case ws of [WByte present, WNum v] \<Rightarrow>
             Some (Inr (VOpt (if present \<noteq> 0 then Some (VScalar v) else None)), s)
           | _ \<Rightarrow> None)
      | PTOptionStr \<Rightarrow>
          (case ws of [WByte present, WPtr q, WSize n] \<Rightarrow>
             if present \<noteq> 0 then str_value (str_arg t m q n s) (\<lambda>bs. VOpt (Some (VStr bs)))
             else Some (Inr (VOpt None), s)
           | _ \<Rightarrow> None)
      | PTOptionBytes \<Rightarrow>
          (case ws of [WByte present, WPtr q, WSize n] \<Rightarrow>
             if present \<noteq> 0 then map_option (\<lambda>bs. (Inr (VOpt (Some (VBytes bs))), s)) (bytes_arg m q n)
             else Some (Inr (VOpt None), s)
           | _ \<Rightarrow> None)
      | PTHandleRef path \<Rightarrow>
          (case ws of [WPtr q] \<Rightarrow> if handle_ref q s = None then None else Some (Inr (VHandleRef q), s)
           | _ \<Rightarrow> None)
      | PTCallback toks \<Rightarrow>
          (case ws of [WFn f, WU64 u] \<Rightarrow> Some (Inr (VCallback (callback_from_raw f u)), s) | _ \<Rightarrow> None)
      | PTStoredCallback toks \<Rightarrow>
          (case ws of [WFn f, WU64 u] \<Rightarrow> Some (Inr (VStored (stored_from_raw f u)), s) | _ \<Rightarrow> None))"

text \<open>All preludes in order; the first \<^verbatim>\<open>return status\<close> ends the body.\<close>

fun preludes ::
  "tid \<Rightarrow> mem \<Rightarrow> (bytes \<times> pty) list \<Rightarrow> wire list \<Rightarrow> ('h, 'z) runtime_scheme \<Rightarrow> ((i32, 'h rval list) result \<times> ('h, 'z) runtime_scheme) option" where
  "preludes t m [] ws s = (if ws = [] then Some (Inr [], s) else None)"
| "preludes t m ((name, p) # ps) ws s =
     (let n = length (extern_params name p) in
      case prelude t m p (take n ws) s of
        None \<Rightarrow> None
      | Some (Inl status, s') \<Rightarrow> Some (Inl status, s')
      | Some (Inr v, s') \<Rightarrow>
          map_option (\<lambda>(r, s''). (bindR r (\<lambda>vs. Inr (v # vs)), s'')) (preludes t m ps (drop n ws) s'))"

text \<open>
  The success writer: what it stores through the out-pointers (\<open>None\<close> for one it leaves unwritten).
  \<open>fresh\<close> is the address the allocator gives.
\<close>

type_synonym ('h, 'z) allocator = "('h, 'z) runtime_scheme \<Rightarrow> ptr"

definition out_buffer :: "(ptr \<times> nat) \<times> ('h, 'z) runtime_scheme \<Rightarrow> wire option list \<times> ('h, 'z) runtime_scheme" where
  "out_buffer r = (case r of ((p, n), s) \<Rightarrow> ([Some (WPtr p), Some (WSize n)], s))"

definition out_some :: "wire option list \<times> ('h, 'z) runtime_scheme \<Rightarrow> wire option list \<times> ('h, 'z) runtime_scheme" where
  "out_some r = apfst ((#) (Some (WByte 1))) r"

definition write_ok ::
  "('h, 'z) allocator \<Rightarrow> rty \<Rightarrow> 'h rval \<Rightarrow> ('h, 'z) runtime_scheme \<Rightarrow> (wire option list \<times> ('h, 'z) runtime_scheme) option" where
  "write_ok fresh r v s =
     (case r of
        RTUnit \<Rightarrow> Some ([], s)
      | RTScalar tok ty \<Rightarrow> (case v of VScalar x \<Rightarrow> Some ([Some (WNum x)], s) | _ \<Rightarrow> None)
      | RTBool \<Rightarrow> (case v of VBool b \<Rightarrow> Some ([Some (WByte (if b then 1 else 0))], s) | _ \<Rightarrow> None)
      | RTStr \<Rightarrow> (case v of VStr x \<Rightarrow> Some (out_buffer (string_into_raw (fresh s) x s)) | _ \<Rightarrow> None)
      | RTBytes \<Rightarrow> (case v of VBytes x \<Rightarrow> Some (out_buffer (bytes_into_raw (fresh s) x s)) | _ \<Rightarrow> None)
      | RTHandle path \<Rightarrow>
          (case v of VObject h \<Rightarrow> (let (p, s') = handle_new (fresh s) h s in Some ([Some (WPtr p)], s'))
           | _ \<Rightarrow> None)
      | RTVecScalar tok ty \<Rightarrow>
          (case v of VVec es \<Rightarrow>
             Some (out_buffer (vec_into_raw (scalar_size tok) (scalar_size tok) (fresh s) es s))
           | _ \<Rightarrow> None)
      | RTOptionScalar tok ty \<Rightarrow>
          (case v of VOpt (Some (VScalar x)) \<Rightarrow> Some ([Some (WByte 1), Some (WNum x)], s)
           | VOpt None \<Rightarrow> Some ([Some (WByte 0), None], s)
           | _ \<Rightarrow> None)
      | RTOptionStr \<Rightarrow>
          (case v of VOpt (Some (VStr x)) \<Rightarrow> Some (out_some (out_buffer (string_into_raw (fresh s) x s)))
           | VOpt None \<Rightarrow> Some ([Some (WByte 0), None, None], s)
           | _ \<Rightarrow> None)
      | RTOptionBytes \<Rightarrow>
          (case v of VOpt (Some (VBytes x)) \<Rightarrow> Some (out_some (out_buffer (bytes_into_raw (fresh s) x s)))
           | VOpt None \<Rightarrow> Some ([Some (WByte 0), None, None], s)
           | _ \<Rightarrow> None))"

text \<open>What the user's function does: a panic, or \<^verbatim>\<open>Err\<close> with its displayed message, or a value.\<close>

type_synonym ('h, 'z) user_fn =
  "'h rval list \<Rightarrow> ('h, 'z) runtime_scheme \<Rightarrow> (payload, (bytes, 'h rval) result) result \<times> ('h, 'z) runtime_scheme"

definition finish_body ::
  "tid \<Rightarrow> ('h, 'z) allocator \<Rightarrow> shim_desc \<Rightarrow> (payload, (bytes, 'h rval) result) result \<times> ('h, 'z) runtime_scheme \<Rightarrow>
   ((payload, i32) result \<times> wire option list \<times> ('h, 'z) runtime_scheme) option" where
  "finish_body t fresh d res =
     (case res of
        (Inl payload, s) \<Rightarrow> Some (Inl payload, [], s)
      | (Inr (Inr v), s) \<Rightarrow> map_option (\<lambda>(outs, s'). (Inr STATUS_OK, outs, s')) (write_ok fresh (sd_result d) v s)
      | (Inr (Inl msg), s) \<Rightarrow>
          (case sd_error d of
             None \<Rightarrow> None
           | Some err_name \<Rightarrow>
               if sd_has_callback d \<and> callback_tunnel t s then Some (Inr STATUS_CB_ERR, [], s)
               else Some (Inr STATUS_ERR, [], set_last_error t err_name msg s)))"

definition shim_body ::
  "tid \<Rightarrow> ('h, 'z) allocator \<Rightarrow> mem \<Rightarrow> shim_desc \<Rightarrow> ('h, 'z) user_fn \<Rightarrow> wire list \<Rightarrow> ('h, 'z) runtime_scheme \<Rightarrow>
   ((payload, i32) result \<times> wire option list \<times> ('h, 'z) runtime_scheme) option" where
  "shim_body t fresh m d user ws s =
     (let s0 = (if sd_has_callback d then clear_callback_tunnel t s else s)
      in case preludes t m (sd_params d) ws s0 of
           None \<Rightarrow> None
         | Some (Inl status, s1) \<Rightarrow> Some (Inr status, [], s1)
         | Some (Inr vs, s1) \<Rightarrow> finish_body t fresh d (user vs s1))"

definition run_shim ::
  "tid \<Rightarrow> ('h, 'z) allocator \<Rightarrow> mem \<Rightarrow> shim_desc \<Rightarrow> ('h, 'z) user_fn \<Rightarrow> wire list \<Rightarrow> ('h, 'z) runtime_scheme \<Rightarrow>
   (i32 \<times> wire option list \<times> ('h, 'z) runtime_scheme) option" where
  "run_shim t fresh m d user ws s =
     (case shim_body t fresh m d user ws s of
        None \<Rightarrow> None
      | Some (r, outs, s') \<Rightarrow>
          (case shim t (\<lambda>_. (r, s')) s of (status, s'') \<Rightarrow> Some (status, outs, s'')))"

text \<open>The free shim of a handle type: a panic in the destructor is swallowed (and logged).\<close>

definition free_shim :: "('h, 'z) destructor \<Rightarrow> ptr \<Rightarrow> ('h, 'z) runtime_scheme \<Rightarrow> (bool \<times> ('h, 'z) runtime_scheme) option" where
  "free_shim dtor this s = map_option (\<lambda>(panic, s'). (panic \<noteq> None, s')) (handle_free dtor this s)"

definition entry_state :: "tid \<Rightarrow> shim_desc \<Rightarrow> ('h, 'z) runtime_scheme \<Rightarrow> ('h, 'z) runtime_scheme" where
  "entry_state t d s = (if sd_has_callback d then clear_callback_tunnel t s else s)"

section \<open>Arguments: what Lisp encodes, the user's function receives\<close>

text \<open>
  \<open>encodes m p v ws\<close>: the words \<open>ws\<close>, with the memory \<open>m\<close> lent for the call, are what the wrapper
  passes for the value \<open>v\<close> of the parameter type \<open>p\<close> (\<^verbatim>\<open>call-with-utf8-arg\<close> and its siblings).
\<close>

definition encodes :: "mem \<Rightarrow> ('h, 'z) runtime_scheme \<Rightarrow> pty \<Rightarrow> 'h rval \<Rightarrow> wire list \<Rightarrow> bool" where
  "encodes m s p v ws \<longleftrightarrow>
     (case p of
        PTScalar tok ty \<Rightarrow> (\<exists>x. v = VScalar x \<and> ws = [WNum x])
      | PTBool \<Rightarrow> (\<exists>b. v = VBool b \<and> ws = [WByte (if b then 1 else 0)])
      | PTStrRef \<Rightarrow> (\<exists>x q. v = VStr x \<and> ws = [WPtr q, WSize (length x)] \<and> read_mem m q (length x) = Some x)
      | PTBytesRef \<Rightarrow> (\<exists>x q. v = VBytes x \<and> ws = [WPtr q, WSize (length x)] \<and> read_mem m q (length x) = Some x)
      | PTVecScalar tok ty \<Rightarrow> (\<exists>es q. v = VVec es \<and> ws = [WPtr q, WSize (length es)] \<and>
          (\<forall>e\<in>set es. length e = scalar_size tok) \<and>
          read_mem m q (length es * scalar_size tok) = Some (concat es))
      | PTOptionScalar tok ty \<Rightarrow>
          (\<exists>x. v = VOpt (Some (VScalar x)) \<and> ws = [WByte 1, WNum x]) \<or>
          (\<exists>z. v = VOpt None \<and> ws = [WByte 0, WNum z])
      | PTOptionStr \<Rightarrow>
          (\<exists>x q. v = VOpt (Some (VStr x)) \<and> ws = [WByte 1, WPtr q, WSize (length x)] \<and>
             read_mem m q (length x) = Some x) \<or> v = VOpt None \<and> ws = [WByte 0, WPtr 0, WSize 0]
      | PTOptionBytes \<Rightarrow>
          (\<exists>x q. v = VOpt (Some (VBytes x)) \<and> ws = [WByte 1, WPtr q, WSize (length x)] \<and>
             read_mem m q (length x) = Some x) \<or> v = VOpt None \<and> ws = [WByte 0, WPtr 0, WSize 0]
      | PTHandleRef path \<Rightarrow> (\<exists>q. v = VHandleRef q \<and> ws = [WPtr q] \<and> handles s q \<noteq> None)
      | PTCallback toks \<Rightarrow> (\<exists>f u. v = VCallback \<lparr>cb_fnptr = f, cb_userdata = u\<rparr> \<and> ws = [WFn f, WU64 u])
      | PTStoredCallback toks \<Rightarrow> (\<exists>f u. v = VStored \<lparr>sc_fnptr = f, sc_id = u\<rparr> \<and> ws = [WFn f, WU64 u]))"

text \<open>A value whose string parts are UTF-8.\<close>

fun utf8_ok :: "'h rval \<Rightarrow> bool" where
  "utf8_ok (VStr x) = well_formed x"
| "utf8_ok (VOpt (Some v)) = utf8_ok v"
| "utf8_ok v = True"

lemma str_arg_read:
  "read_mem m q (length x) = Some x \<Longrightarrow>
   str_arg t m q (length x) s =
     (case from_utf8 x of Inr str \<Rightarrow> Some (Inr str, s)
      | Inl e \<Rightarrow> Some (Inl STATUS_INVALID, set_last_error t ''InvalidUtf8'' (utf8_error_string e) s))"
  by (cases x) (auto simp: str_arg_def)

lemma bytes_arg_read: "read_mem m q (length x) = Some x \<Longrightarrow> bytes_arg m q (length x) = Some x"
  by (simp add: bytes_arg_def)

lemma slice_arg_read:
  "\<forall>e\<in>set es. length e = sz \<Longrightarrow> read_mem m q (length es * sz) = Some (concat es) \<Longrightarrow>
   slice_arg m sz q (length es) = Some es"
  by (simp add: slice_arg_def read_elems_concat)

lemma encodes_length: "encodes m s p v ws \<Longrightarrow> length ws = length (extern_params i p)"
  by (cases p) (auto simp: encodes_def)

lemma prelude_decodes:
  assumes "encodes m s p v ws"
  shows "utf8_ok v \<Longrightarrow> prelude t m p ws s = Some (Inr v, s)"
    "\<not> utf8_ok v \<Longrightarrow> \<exists>msg. prelude t m p ws s = Some (Inl STATUS_INVALID, set_last_error t ''InvalidUtf8'' msg s)"
proof -
  have ok: "from_utf8 x = Inr x" if "well_formed x" for x
    using that by (simp add: from_utf8_Inr)
  have inv: "\<exists>e. from_utf8 x = Inl e" if "\<not> well_formed x" for x
    using that from_utf8_Inl by blast
  show "utf8_ok v \<Longrightarrow> prelude t m p ws s = Some (Inr v, s)"
    using assms
    by (cases p)
       (auto simp: encodes_def prelude_def str_arg_read bytes_arg_read slice_arg_read ok
         str_value_def handle_ref_def callback_from_raw_def stored_from_raw_def)
  show "\<not> utf8_ok v \<Longrightarrow> \<exists>msg. prelude t m p ws s = Some (Inl STATUS_INVALID, set_last_error t ''InvalidUtf8'' msg s)"
    using assms inv
    by (cases p) (fastforce simp: encodes_def prelude_def str_arg_read str_value_def)+
qed

lemma encodes_frame: "handles s' = handles s \<Longrightarrow> encodes m s' p v ws = encodes m s p v ws"
  by (cases p) (simp_all add: encodes_def)

fun encodes_all :: "mem \<Rightarrow> ('h, 'z) runtime_scheme \<Rightarrow> (bytes \<times> pty) list \<Rightarrow> 'h rval list \<Rightarrow> wire list \<Rightarrow> bool" where
  "encodes_all m s [] vs ws \<longleftrightarrow> vs = [] \<and> ws = []"
| "encodes_all m s ((name, p) # ps) vs ws \<longleftrightarrow>
     (\<exists>v vs' w ws'. vs = v # vs' \<and> ws = w @ ws' \<and> encodes m s p v w \<and> encodes_all m s ps vs' ws')"

lemma encodes_all_frame:
  assumes "handles s' = handles s"
  shows "encodes_all m s' ps vs ws = encodes_all m s ps vs ws"
proof (induction ps arbitrary: vs ws)
  case (Cons np ps)
  then show ?case by (cases np) (simp add: encodes_frame [OF assms])
qed simp

lemma preludes_decode:
  assumes "encodes_all m s ps vs ws"
  shows "list_all utf8_ok vs \<Longrightarrow> preludes t m ps ws s = Some (Inr vs, s)"
    "\<not> list_all utf8_ok vs \<Longrightarrow>
     \<exists>msg. preludes t m ps ws s = Some (Inl STATUS_INVALID, set_last_error t ''InvalidUtf8'' msg s)"
proof -
  have "(list_all utf8_ok vs \<longrightarrow> preludes t m ps ws s = Some (Inr vs, s)) \<and>
    (\<not> list_all utf8_ok vs \<longrightarrow>
     (\<exists>msg. preludes t m ps ws s = Some (Inl STATUS_INVALID, set_last_error t ''InvalidUtf8'' msg s)))"
    using assms
  proof (induction ps arbitrary: vs ws)
    case (Cons np ps)
    obtain name p where np: "np = (name, p)" by fastforce
    with Cons.prems obtain v vs' w ws' where e: "vs = v # vs'" "ws = w @ ws'" "encodes m s p v w"
      "encodes_all m s ps vs' ws'" by auto
    have split: "take (length (extern_params name p)) ws = w" "drop (length (extern_params name p)) ws = ws'"
      using encodes_length [OF e(3), of name] e(2) by auto
    show ?case
    proof (cases "utf8_ok v")
      case True
      then show ?thesis
        using prelude_decodes(1) [OF e(3), of t] Cons.IH [OF e(4)] e(1) np split by (auto simp: Let_def)
    next
      case False
      then show ?thesis
        using prelude_decodes(2) [OF e(3), of t] e(1) np split by (auto simp: Let_def)
    qed
  qed simp
  then show "list_all utf8_ok vs \<Longrightarrow> preludes t m ps ws s = Some (Inr vs, s)"
    "\<not> list_all utf8_ok vs \<Longrightarrow>
     \<exists>msg. preludes t m ps ws s = Some (Inl STATUS_INVALID, set_last_error t ''InvalidUtf8'' msg s)"
    by blast+
qed

section \<open>Results: what the user's function returns, Lisp receives\<close>

fun chunks :: "nat \<Rightarrow> nat \<Rightarrow> bytes \<Rightarrow> bytes list" where
  "chunks sz 0 bs = []"
| "chunks sz (Suc n) bs = take sz bs # chunks sz n (drop sz bs)"

lemma chunks_concat: "\<forall>e\<in>set es. length e = sz \<Longrightarrow> chunks sz (length es) (concat es) = es"
  by (induction es) auto

text \<open>
  \<^verbatim>\<open>%take-string-result\<close>, \<^verbatim>\<open>%take-bytes-result\<close> and \<^verbatim>\<open>%take-vec-result\<close>: copy the buffer, then release
  it with the size and alignment that follow from the wire length.
\<close>

definition take_buffer ::
  "nat \<Rightarrow> wire option list \<Rightarrow> ('h, 'z) runtime_scheme \<Rightarrow> (bytes list \<times> ('h, 'z) runtime_scheme) option" where
  "take_buffer sz outs s =
     (case outs of
        [Some (WPtr p), Some (WSize n)] \<Rightarrow>
          (case (if n = 0 then Some [] else map_option block_data (blocks s p)) of
             None \<Rightarrow> None
           | Some data \<Rightarrow> map_option (\<lambda>s'. (chunks sz n data, s')) (dealloc p (n * sz) sz s))
      | _ \<Rightarrow> None)"

definition take_octets :: "wire option list \<Rightarrow> ('h, 'z) runtime_scheme \<Rightarrow> (bytes \<times> ('h, 'z) runtime_scheme) option" where
  "take_octets outs s = map_option (apfst concat) (take_buffer 1 outs s)"

definition take_scalar :: "wire option list \<Rightarrow> ('h, 'z) runtime_scheme \<Rightarrow> ('h rval \<times> ('h, 'z) runtime_scheme) option" where
  "take_scalar outs s = (case outs of [Some (WNum x)] \<Rightarrow> Some (VScalar x, s) | _ \<Rightarrow> None)"

definition take_result :: "sexp \<Rightarrow> wire option list \<Rightarrow> ('h, 'z) runtime_scheme \<Rightarrow> ('h rval \<times> ('h, 'z) runtime_scheme) option" where
  "take_result ty outs s =
     (if ty = kw ''unit'' then Some (VUnit, s)
      else if ty = kw ''string'' then map_option (apfst VStr) (take_octets outs s)
      else if ty = kw ''bytes'' then map_option (apfst VBytes) (take_octets outs s)
      else if ty = kw ''bool'' then
        (case outs of [Some (WByte b)] \<Rightarrow> Some (VBool (0 < b), s) | _ \<Rightarrow> None)
      else case ty of
        SList (tag # rest) \<Rightarrow>
          if tag = kw ''handle'' then
            (case outs of [Some (WPtr p)] \<Rightarrow> Some (VHandleRef p, s) | _ \<Rightarrow> None)
          else if tag = kw ''option'' then
            (case (outs, rest) of
               (Some (WByte b) # outs', inner # _) \<Rightarrow>
                 if 0 < b then
                   map_option (apfst (VOpt \<circ> Some))
                     (if inner = kw ''string'' then map_option (apfst VStr) (take_octets outs' s)
                      else if inner = kw ''bytes'' then map_option (apfst VBytes) (take_octets outs' s)
                      else take_scalar outs' s)
                 else Some (VOpt None, s)
             | _ \<Rightarrow> None)
          else if tag = kw ''vec'' then
            (case rest of
               e # _ \<Rightarrow> (case vec_elt_size e of
                          Some sz \<Rightarrow> map_option (apfst VVec) (take_buffer sz outs s)
                        | None \<Rightarrow> None)
             | [] \<Rightarrow> None)
          else None
      | _ \<Rightarrow> take_scalar outs s)"

text \<open>The Rust type of a result other than a handle.\<close>

definition has_rty :: "rty \<Rightarrow> 'h rval \<Rightarrow> bool" where
  "has_rty r v \<longleftrightarrow>
     (case r of
        RTUnit \<Rightarrow> v = VUnit
      | RTScalar tok ty \<Rightarrow> (\<exists>x. v = VScalar x)
      | RTBool \<Rightarrow> (\<exists>b. v = VBool b)
      | RTStr \<Rightarrow> (\<exists>x. v = VStr x)
      | RTBytes \<Rightarrow> (\<exists>x. v = VBytes x)
      | RTHandle path \<Rightarrow> False
      | RTVecScalar tok ty \<Rightarrow> (\<exists>es. v = VVec es \<and> (\<forall>e\<in>set es. length e = scalar_size tok))
      | RTOptionScalar tok ty \<Rightarrow> v = VOpt None \<or> (\<exists>x. v = VOpt (Some (VScalar x)))
      | RTOptionStr \<Rightarrow> v = VOpt None \<or> (\<exists>x. v = VOpt (Some (VStr x)))
      | RTOptionBytes \<Rightarrow> v = VOpt None \<or> (\<exists>x. v = VOpt (Some (VBytes x))))"

lemma scalar_size_pos [simp]: "0 < scalar_size tok"
  by (simp add: scalar_size_def)

lemma take_vec_buffer:
  assumes "blocks s p = None" "\<forall>e\<in>set es. length e = sz" "0 < sz"
    and "out_buffer (vec_into_raw sz sz p es s) = (outs, s')"
  shows "take_buffer sz outs s' = Some (es, s)"
  using assms chunks_concat [OF assms(2)]
  by (auto simp: out_buffer_def vec_into_raw_def take_buffer_def dealloc_def Let_def fun_upd_idem
      split: if_splits)

lemma concat_singletons: "concat (chunks 1 (length x) x) = x"
  by (induction x) auto

lemma take_octets_buffer:
  assumes "blocks s p = None" and "out_buffer (bytes_into_raw p x s) = (outs, s')"
  shows "take_octets outs s' = Some (x, s)"
  using assms concat_singletons [of x]
  by (auto simp: out_buffer_def bytes_into_raw_def take_octets_def take_buffer_def dealloc_def Let_def
      fun_upd_idem split: if_splits)

lemma write_then_take:
  assumes "rty_closed r" "has_rty r v" "blocks s (fresh s) = None"
  shows "\<exists>outs s'. write_ok fresh r v s = Some (outs, s') \<and>
    take_result (result_tree (result_meta_ty rust_name_of r)) outs s' = Some (v, s)"
proof (cases r)
  case (RTScalar tok ty)
  with assms have tok: "tok \<in> scalar_toks" by simp
  from scalar_cffi_toks [OF tok] RTScalar assms(2) show ?thesis
    by (auto simp: write_ok_def take_result_def take_scalar_def has_rty_def)
next
  case (RTOptionScalar tok ty)
  with assms have tok: "tok \<in> scalar_toks" by simp
  from scalar_cffi_toks [OF tok] RTOptionScalar assms(2) lisp_keywords show ?thesis
    by (auto simp: write_ok_def take_result_def take_scalar_def has_rty_def)
next
  case (RTVecScalar tok ty)
  with assms have tok: "tok \<in> scalar_toks" by simp
  from RTVecScalar assms(2) obtain es where v: "v = VVec es" "\<forall>e\<in>set es. length e = scalar_size tok"
    by (auto simp: has_rty_def)
  obtain outs s' where b: "out_buffer (vec_into_raw (scalar_size tok) (scalar_size tok) (fresh s) es s) = (outs, s')"
    by fastforce
  from take_vec_buffer [OF assms(3) v(2) scalar_size_pos b] b v(1) RTVecScalar scalar_cffi_toks(3) [OF tok]
    lisp_keywords
  show ?thesis by (auto simp: write_ok_def take_result_def)
next
  case RTStr
  with assms(2) obtain x where v: "v = VStr x" by (auto simp: has_rty_def)
  obtain outs s' where b: "out_buffer (bytes_into_raw (fresh s) x s) = (outs, s')" by fastforce
  from take_octets_buffer [OF assms(3) b] b v RTStr lisp_keywords show ?thesis
    by (auto simp: write_ok_def take_result_def string_into_raw_def)
next
  case RTBytes
  with assms(2) obtain x where v: "v = VBytes x" by (auto simp: has_rty_def)
  obtain outs s' where b: "out_buffer (bytes_into_raw (fresh s) x s) = (outs, s')" by fastforce
  from take_octets_buffer [OF assms(3) b] b v RTBytes lisp_keywords show ?thesis
    by (auto simp: write_ok_def take_result_def)
next
  case RTOptionStr
  show ?thesis
  proof (cases "v = VOpt None")
    case False
    with RTOptionStr assms(2) obtain x where v: "v = VOpt (Some (VStr x))" by (auto simp: has_rty_def)
    obtain outs s' where b: "out_buffer (bytes_into_raw (fresh s) x s) = (outs, s')" by fastforce
    from take_octets_buffer [OF assms(3) b] b v RTOptionStr lisp_keywords show ?thesis
      by (auto simp: write_ok_def take_result_def string_into_raw_def out_some_def)
  qed (use RTOptionStr lisp_keywords in \<open>auto simp: write_ok_def take_result_def\<close>)
next
  case RTOptionBytes
  show ?thesis
  proof (cases "v = VOpt None")
    case False
    with RTOptionBytes assms(2) obtain x where v: "v = VOpt (Some (VBytes x))" by (auto simp: has_rty_def)
    obtain outs s' where b: "out_buffer (bytes_into_raw (fresh s) x s) = (outs, s')" by fastforce
    from take_octets_buffer [OF assms(3) b] b v RTOptionBytes lisp_keywords show ?thesis
      by (auto simp: write_ok_def take_result_def out_some_def)
  qed (use RTOptionBytes lisp_keywords in \<open>auto simp: write_ok_def take_result_def\<close>)
qed (use assms(2) lisp_keywords in \<open>auto simp: write_ok_def take_result_def has_rty_def\<close>)

lemma entry_state_handles [simp]: "handles (entry_state t d s) = handles s"
  by (simp add: entry_state_def clear_callback_tunnel_def)

lemma run_shim_user:
  assumes "encodes_all m s (sd_params d) vs ws" "list_all utf8_ok vs"
  shows "run_shim t fresh m d user ws s =
    (case finish_body t fresh d (user vs (entry_state t d s)) of
       None \<Rightarrow> None
     | Some (r, outs, s') \<Rightarrow> (case shim t (\<lambda>_. (r, s')) s of (status, s'') \<Rightarrow> Some (status, outs, s'')))"
proof -
  have "encodes_all m (entry_state t d s) (sd_params d) vs ws"
    using assms(1) encodes_all_frame [OF entry_state_handles] by blast
  from preludes_decode(1) [OF this assms(2), of t] show ?thesis
    by (simp add: run_shim_def shim_body_def entry_state_def Let_def)
qed

lemma run_shim_invalid:
  assumes "encodes_all m s (sd_params d) vs ws" "\<not> list_all utf8_ok vs"
  shows "\<exists>msg. run_shim t fresh m d user ws s =
    Some (STATUS_INVALID, [], set_last_error t ''InvalidUtf8'' msg (entry_state t d s))"
proof -
  have "encodes_all m (entry_state t d s) (sd_params d) vs ws"
    using assms(1) encodes_all_frame [OF entry_state_handles] by blast
  from preludes_decode(2) [OF this assms(2), of t] show ?thesis
    by (auto simp: run_shim_def shim_body_def entry_state_def Let_def shim_def)
qed

lemma gen_fn_fields:
  "gen_fn crate_name f = Inr d \<Longrightarrow>
   sd_params d = ef_params f \<and> sd_result d = ef_result f \<and> sd_error d = ef_error f \<and>
   sd_has_callback d = list_ex (is_borrowed_callback \<circ> snd) (ef_params f)"
  by (auto simp: gen_fn_def Let_def split: if_splits)

section \<open>Properties\<close>



text \<open>
  (C2) Every way a call can fail is reported, and in one way each.  An argument that is not UTF-8 means
  \<^verbatim>\<open>STATUS_INVALID\<close> without the user's function having run; a panic means \<^verbatim>\<open>STATUS_PANIC\<close> with its
  message in the calling thread's error slot; an \<^verbatim>\<open>Err\<close> means \<^verbatim>\<open>STATUS_ERR\<close> with the declared error
  type and the displayed message, or \<^verbatim>\<open>STATUS_CB_ERR\<close> with the state untouched when the export takes a
  callback and the thread's tunnel flag is up.  No failing call writes an out-parameter.
\<close>

theorem call_failures_reported:
  assumes "gen_fn crate_name f = Inr d" and "encodes_all m s (ef_params f) vs ws"
  shows "(\<not> list_all utf8_ok vs \<longrightarrow>
      (\<exists>msg. run_shim t fresh m d user ws s =
         Some (STATUS_INVALID, [], set_last_error t ''InvalidUtf8'' msg (entry_state t d s)))) \<and>
    (list_all utf8_ok vs \<and> user vs (entry_state t d s) = (Inl payload, s1) \<longrightarrow>
      run_shim t fresh m d user ws s =
        Some (STATUS_PANIC, [], set_last_error t ''panic'' (payload_msg payload) s1)) \<and>
    (list_all utf8_ok vs \<and> user vs (entry_state t d s) = (Inr (Inl msg), s1) \<and> ef_error f = Some err \<longrightarrow>
      run_shim t fresh m d user ws s =
        (if list_ex (is_borrowed_callback \<circ> snd) (ef_params f) \<and> callback_tunnel t s1
         then Some (STATUS_CB_ERR, [], s1)
         else Some (STATUS_ERR, [], set_last_error t err msg s1)))"
proof -
  note d = gen_fn_fields [OF assms(1)]
  have enc: "encodes_all m s (sd_params d) vs ws" using assms(2) d by simp
  show ?thesis
    using run_shim_invalid [OF enc] run_shim_user [OF enc, of t fresh user] d
    by (simp add: finish_body_def shim_def)
qed

theorem call_failures_reported_witness:
  "run_shim 0 (\<lambda>_. 64) Map.empty (projr (gen_fn ''demo'' sample_export)) (\<lambda>_ s. (Inl (StrPayload ''boom''), s))
     [] (init_runtime :: nat runtime) =
   Some (STATUS_PANIC, [], set_last_error 0 ''panic'' ''boom'' init_runtime)"
proof -
  have g: "gen_fn ''demo'' sample_export = Inr (projr (gen_fn ''demo'' sample_export))"
    by (simp add: gen_fn_def sample_export_def)
  have "encodes_all Map.empty (init_runtime :: nat runtime) (ef_params sample_export) [] []"
    by (simp add: sample_export_def)
  from call_failures_reported [OF g this, of 0 "\<lambda>_. 64" "\<lambda>_ s. (Inl (StrPayload ''boom''), s)"
      "StrPayload ''boom''" "init_runtime :: nat runtime" "[]" "[]"]
  show ?thesis by (simp add: gen_fn_def sample_export_def entry_state_def payload_msg_def)
qed

text \<open>
  (C14) A handle lives from its constructor to its free shim: the pointer a constructor returns can be
  passed to any method, the free shim removes exactly that object even when its destructor panics
  (the panic is swallowed and the call returns normally), and freeing a null pointer does nothing.
\<close>

theorem handle_lifecycle:
  assumes "encodes_all m s (sd_params d) vs ws" "list_all utf8_ok vs"
    and "sd_result d = RTHandle path" "user vs (entry_state t d s) = (Inr (Inr (VObject h)), s1)"
    and "fresh s1 \<noteq> 0"
  shows "\<exists>s2. run_shim t fresh m d user ws s = Some (STATUS_OK, [Some (WPtr (fresh s1))], s2) \<and>
    handles s2 = (handles s1)(fresh s1 \<mapsto> h) \<and>
    prelude t m (PTHandleRef path) [WPtr (fresh s1)] s2 = Some (Inr (VHandleRef (fresh s1)), s2) \<and>
    free_shim dtor (fresh s1) s2 =
      (case dtor h (s2\<lparr>handles := (handles s1)(fresh s1 := None)\<rparr>) of (panic, s3) \<Rightarrow> Some (panic \<noteq> None, s3)) \<and>
    free_shim dtor 0 s2 = Some (False, s2)"
  using run_shim_user [OF assms(1,2), of t fresh user] assms(3-5)
  by (simp add: finish_body_def write_ok_def handle_new_def shim_def prelude_def handle_ref_def
      free_shim_def handle_free_def split: prod.split)

text \<open>An export \<^verbatim>\<open>fn each(f: Callback<(u8,), ()>) -> Result<(), Error>\<close>.\<close>

definition each_desc :: shim_desc where
  "each_desc = \<lparr>sd_ident = ''demo_rulisp_each'', sd_signature = [(''f'', fn_ptr_ty ['':u8'']), (''f_userdata'', CU64)],
     sd_params = [(''f'', PTCallback ['':u8''])], sd_has_callback = True, sd_call = FreeCall ''each'',
     sd_result = RTUnit, sd_error = Some ''Error''\<rparr>"

theorem handle_lifecycle_witness:
  "\<exists>s2. run_shim 0 (\<lambda>_. 64) Map.empty (each_desc\<lparr>sd_params := [], sd_result := RTHandle (False, [])\<rparr>)
     (\<lambda>_ s. (Inr (Inr (VObject 5)), s)) [] (init_runtime :: nat runtime) = Some (STATUS_OK, [Some (WPtr 64)], s2) \<and>
   handles s2 = [64 \<mapsto> 5]"
  using handle_lifecycle [of Map.empty "init_runtime :: nat runtime"
      "each_desc\<lparr>sd_params := [], sd_result := RTHandle (False, [])\<rparr>" "[]" "[]" "(False, [])"
      "\<lambda>_ s. (Inr (Inr (VObject 5)), s)" 0 5 "clear_callback_tunnel 0 init_runtime" "\<lambda>_. 64" "\<lambda>_ s. (None, s)"]
  by (auto simp: each_desc_def entry_state_def clear_callback_tunnel_def init_runtime_def)

text \<open>Propagates the callback's error with the question-mark operator.\<close>

definition propagating_user :: "('h, 'z) trampoline \<Rightarrow> ('h, 'z) user_fn" where
  "propagating_user tramp vs s =
     (case vs of
        [VCallback cb] \<Rightarrow>
          (case callback_call 0 tramp cb (ArgU8 7) s of
             (Inl e, s') \<Rightarrow> (Inr (Inl (error_string (error_from_callback e))), s')
           | (Inr _, s') \<Rightarrow> (Inr (Inr VUnit), s'))
      | _ \<Rightarrow> (Inl OtherPayload, s))"

text \<open>Calls its callback, which succeeds, and then fails for a reason of its own.\<close>

definition own_failure_user :: "('h, 'z) trampoline \<Rightarrow> ('h, 'z) user_fn" where
  "own_failure_user tramp vs s =
     (case vs of
        [VCallback cb] \<Rightarrow>
          (case callback_call 0 tramp cb (ArgU8 7) s of
             (Inl e, s') \<Rightarrow> (Inr (Inl (error_string (error_from_callback e))), s')
           | (Inr _, s') \<Rightarrow> (Inr (Inl ''disk full''), s'))
      | _ \<Rightarrow> (Inl OtherPayload, s))"

text \<open>A closure that calls back into the library with a signalling closure, handles the condition and
  returns normally.\<close>

definition handling_closure :: "('h, 'z) trampoline" where
  "handling_closure fnptr userdata ws s =
     (case run_shim 0 (\<lambda>_. 64) Map.empty each_desc (propagating_user (\<lambda>_ _ _ s. (1, s))) [WFn 1, WU64 0] s of
        Some (status, outs, s') \<Rightarrow> (0, s')
      | None \<Rightarrow> (0, s))"

text \<open>
  (C39) The tunnel flag is per thread, not per call, and a nested call leaks it: when a callback calls
  back into the library, that inner call's callback signals, and the Lisp code handles the condition,
  then an ordinary error of the outer call is reported as \<^verbatim>\<open>STATUS_CB_ERR\<close> although no callback of
  the outer call failed, and the error's type and message never reach the error slot.
\<close>

theorem nested_call_leaks_tunnel:
  "fst (callback_call 0 handling_closure (callback_from_raw 0 0) (ArgU8 7) s) = Inr () \<and>
   (\<exists>s'. run_shim 0 (\<lambda>_. 64) Map.empty each_desc (own_failure_user handling_closure) [WFn 0, WU64 0] s =
      Some (STATUS_CB_ERR, [], s') \<and> LAST_ERROR s' = LAST_ERROR s)"
proof -
  have inner: "handling_closure f u ws s0 = (0, set_callback_tunnel 0 (clear_callback_tunnel 0 s0))" for f u ws
      and s0 :: "('a, 'b) runtime_scheme"
    by (simp add: handling_closure_def run_shim_def shim_body_def each_desc_def prelude_def
        propagating_user_def callback_call_def invoke_def finish_body_def shim_def callback_from_raw_def
        callback_tunnel_def set_callback_tunnel_def Let_def)
  then show ?thesis
    by (simp add: run_shim_def shim_body_def each_desc_def prelude_def own_failure_user_def
        callback_call_def invoke_def finish_body_def shim_def callback_from_raw_def callback_tunnel_def
        set_callback_tunnel_def clear_callback_tunnel_def Let_def)
qed

end
