(* ===== verification/Text.thy ===== *)
theory Text
  imports Utf8
begin

text \<open>
  The standard library's \<^verbatim>\<open>str::trim\<close>, \<^verbatim>\<open>to_ascii_lowercase\<close> and \<^verbatim>\<open>String::from_utf8_lossy\<close> on octet lists,
  with the facts the example crates need.
\<close>

section \<open>Trimming\<close>

text \<open>\<^verbatim>\<open>str::trim\<close> on UTF-8: the encodings of the characters with the property White\_Space.\<close>

definition WHITE_SPACE :: "bytes list" where
  "WHITE_SPACE =
     [[CHR 0x09], [CHR 0x0A], [CHR 0x0B], [CHR 0x0C], [CHR 0x0D], [CHR 0x20], [CHR 0xC2, CHR 0x85],
      [CHR 0xC2, CHR 0xA0], [CHR 0xE1, CHR 0x9A, CHR 0x80], [CHR 0xE2, CHR 0x80, CHR 0x80],
      [CHR 0xE2, CHR 0x80, CHR 0x81], [CHR 0xE2, CHR 0x80, CHR 0x82], [CHR 0xE2, CHR 0x80, CHR 0x83],
      [CHR 0xE2, CHR 0x80, CHR 0x84], [CHR 0xE2, CHR 0x80, CHR 0x85], [CHR 0xE2, CHR 0x80, CHR 0x86],
      [CHR 0xE2, CHR 0x80, CHR 0x87], [CHR 0xE2, CHR 0x80, CHR 0x88], [CHR 0xE2, CHR 0x80, CHR 0x89],
      [CHR 0xE2, CHR 0x80, CHR 0x8A], [CHR 0xE2, CHR 0x80, CHR 0xA8], [CHR 0xE2, CHR 0x80, CHR 0xA9],
      [CHR 0xE2, CHR 0x80, CHR 0xAF], [CHR 0xE2, CHR 0x81, CHR 0x9F], [CHR 0xE3, CHR 0x80, CHR 0x80]]"

lemma white_space_encodes:
  "WHITE_SPACE = map encode_utf8
     [0x09, 0x0A, 0x0B, 0x0C, 0x0D, 0x20, 0x85, 0xA0, 0x1680, 0x2000, 0x2001, 0x2002, 0x2003, 0x2004, 0x2005,
      0x2006, 0x2007, 0x2008, 0x2009, 0x200A, 0x2028, 0x2029, 0x202F, 0x205F, 0x3000]"
  by (simp add: WHITE_SPACE_def encode_utf8_def, code_simp)

function trim_start_by :: "bytes list \<Rightarrow> bytes \<Rightarrow> bytes" where
  "trim_start_by ws s =
     (case List.find (\<lambda>w. w \<noteq> [] \<and> take (length w) s = w) ws of
        None \<Rightarrow> s
      | Some w \<Rightarrow> trim_start_by ws (List.drop (length w) s))"
  by pat_completeness auto
termination
proof (relation "measure (length \<circ> snd)")
  fix ws w and s :: bytes
  assume "List.find (\<lambda>w. w \<noteq> [] \<and> take (length w) s = w) ws = Some w"
  then have w: "w \<noteq> []" "take (length w) s = w" by (auto simp: find_Some_iff)
  then have "s \<noteq> []" by auto
  with w show "((ws, List.drop (length w) s), ws, s) \<in> measure (length \<circ> snd)" by simp
qed simp

declare trim_start_by.simps [simp del]

definition str_trim :: "bytes \<Rightarrow> bytes" where
  "str_trim s = rev (trim_start_by (map rev WHITE_SPACE) (rev (trim_start_by WHITE_SPACE s)))"

definition code_words :: "bytes list \<Rightarrow> bool" where
  "code_words ws \<longleftrightarrow> (\<forall>v\<in>set ws. v \<noteq> [] \<and> (\<forall>w\<in>set ws. v \<noteq> w \<longrightarrow> take (length v) w \<noteq> v))"

lemma code_words_prefix:
  assumes "code_words ws" "p \<in> set ws" "v \<in> set ws" "take (length v) (p @ s) = v"
  shows "v = p"
proof (rule ccontr)
  assume "v \<noteq> p"
  with assms have "take (length v) p \<noteq> v" "take (length p) v \<noteq> p" by (auto simp: code_words_def)
  with assms(4) show False
    by (cases "length v \<le> length p") (auto simp: min_def, metis nat_le_linear append_eq_conv_conj take_all_iff take_append)
qed

lemma trim_start_code:
  assumes "code_words ws" "p \<in> set ws"
  shows "trim_start_by ws (p @ s) = trim_start_by ws s"
proof -
  have "List.find (\<lambda>w. w \<noteq> [] \<and> take (length w) (p @ s) = w) ws \<noteq> None"
    using assms by (auto simp: find_None_iff code_words_def)
  then obtain v where v: "List.find (\<lambda>w. w \<noteq> [] \<and> take (length w) (p @ s) = w) ws = Some v" by blast
  then have "v \<in> set ws" "take (length v) (p @ s) = v" by (auto simp: find_Some_iff)
  then have "v = p" using code_words_prefix [OF assms] by blast
  with v show ?thesis by (subst trim_start_by.simps) simp
qed

lemma trim_start_codes:
  "code_words ws \<Longrightarrow> set ps \<subseteq> set ws \<Longrightarrow> trim_start_by ws (concat ps @ s) = trim_start_by ws s"
  by (induction ps) (auto simp: trim_start_code)

lemma trim_start_stop:
  assumes "list_all (\<lambda>w. w \<noteq> [] \<longrightarrow> hd w \<noteq> c) ws"
  shows "trim_start_by ws (c # s) = c # s"
proof -
  have "take (length w) (c # s) \<noteq> w" if "w \<in> set ws" "w \<noteq> []" for w
  proof
    assume e: "take (length w) (c # s) = w"
    from that(2) obtain k where "length w = Suc k" by (cases "length w") auto
    with e have "hd w = c" by (metis list.sel(1) take_Suc_Cons)
    with assms that show False by (auto simp: list_all_iff)
  qed
  then have "List.find (\<lambda>w. w \<noteq> [] \<and> take (length w) (c # s) = w) ws = None"
    by (auto simp: find_None_iff)
  then show ?thesis by (subst trim_start_by.simps) simp
qed

lemma white_space_codes: "code_words WHITE_SPACE" "code_words (map rev WHITE_SPACE)"
  unfolding code_words_def by code_simp+

definition printable :: "octet \<Rightarrow> bool" where
  "printable c \<longleftrightarrow> 0x20 < code c \<and> code c < 0x80"

lemma white_space_edges:
  "list_all (\<lambda>w. w \<noteq> [] \<longrightarrow> \<not> printable (hd w)) WHITE_SPACE"
  "list_all (\<lambda>w. w \<noteq> [] \<longrightarrow> \<not> printable (hd w)) (map rev WHITE_SPACE)"
  by code_simp+

lemma str_trim_padded:
  assumes "set ps \<subseteq> set WHITE_SPACE" "set qs \<subseteq> set WHITE_SPACE"
    and "s \<noteq> []" "printable (hd s)" "printable (last s)"
  shows "str_trim (concat ps @ s @ concat qs) = s"
proof -
  have stop: "trim_start_by WHITE_SPACE (s @ u) = s @ u" for u
    using assms(3,4) white_space_edges(1)
    by (cases s) (auto intro!: trim_start_stop simp: list_all_iff)
  have "rev (s @ concat qs) = concat (rev (map rev qs)) @ rev s"
    by (simp add: rev_concat rev_map)
  moreover have "set (rev (map rev qs)) \<subseteq> set (map rev WHITE_SPACE)" using assms(2) by auto
  ultimately have "trim_start_by (map rev WHITE_SPACE) (rev (s @ concat qs)) =
      trim_start_by (map rev WHITE_SPACE) (rev s)"
    by (simp only: trim_start_codes [OF white_space_codes(2)])
  also have "\<dots> = rev s"
    using assms(3,5) white_space_edges(2)
    by (cases s rule: rev_cases) (auto intro!: trim_start_stop simp: list_all_iff)
  finally show ?thesis
    unfolding str_trim_def trim_start_codes [OF white_space_codes(1) assms(1)] stop by simp
qed

lemma str_trim_printable: "s \<noteq> [] \<Longrightarrow> printable (hd s) \<Longrightarrow> printable (last s) \<Longrightarrow> str_trim s = s"
  using str_trim_padded [of "[]" "[]" s] by simp

section \<open>Case and lossy decoding\<close>

definition ascii_lower :: "octet \<Rightarrow> octet" where
  "ascii_lower c = (if 65 \<le> code c \<and> code c \<le> 90 then octet (code c + 32) else c)"

definition to_ascii_lowercase :: "bytes \<Rightarrow> bytes" where
  "to_ascii_lowercase s = map ascii_lower s"

definition REPLACEMENT :: bytes where
  "REPLACEMENT = [CHR 0xEF, CHR 0xBF, CHR 0xBD]"

text \<open>Each maximal malformed part (of one to three octets) becomes one U+FFFD; a truncated last character
  ends the text.\<close>

function from_utf8_lossy :: "bytes \<Rightarrow> bytes" where
  "from_utf8_lossy bs =
     (case from_utf8 bs of
        Inr s \<Rightarrow> s
      | Inl e \<Rightarrow>
          take (valid_up_to e) bs @ REPLACEMENT @
          (case error_len e of
             None \<Rightarrow> []
           | Some n \<Rightarrow> if n = 0 \<or> bs = [] then [] else from_utf8_lossy (List.drop (valid_up_to e + n) bs)))"
  by pat_completeness auto
termination
  by (relation "measure length") auto

declare from_utf8_lossy.simps [simp del]

lemma from_utf8_lossy_valid: "well_formed bs \<Longrightarrow> from_utf8_lossy bs = bs"
  by (subst from_utf8_lossy.simps) (simp add: from_utf8_Inr [THEN iffD2])

section \<open>Numbers and lines\<close>

text \<open>\<^verbatim>\<open>str::parse::<u64>\<close>, which takes a leading plus sign.\<close>

definition parse_u64 :: "bytes \<Rightarrow> u64 option" where
  "parse_u64 s =
     (let ds = (if s \<noteq> [] \<and> hd s = CHR ''+'' then tl s else s)
      in if ds = [] \<or> \<not> list_all is_digit ds \<or> 2 ^ 64 \<le> undec ds then None else Some (of_nat (undec ds)))"

text \<open>\<^verbatim>\<open>str::lines\<close>: a carriage return before the line feed belongs to the line ending, a last empty line does not count.\<close>

definition str_lines :: "bytes \<Rightarrow> bytes list" where
  "str_lines s =
     (let ls = split_on LF s; ls = (if last ls = [] then butlast ls else ls)
      in map (\<lambda>l. case strip_suffix1 CR l of Some l' \<Rightarrow> l' | None \<Rightarrow> l) ls)"

end
