(* ===== verification/Wordbag.thy ===== *)
theory Wordbag
  imports Shim_Exec Text
begin

text \<open>
  \<^verbatim>\<open>examples/wordbag/src/lib.rs\<close>: the crate the test suites drive through the generated shims.

  The crate's process state is the runtime's record extended by the crate's statics.  A function that
  may panic returns the payload on the left; a \<^verbatim>\<open>Result\<close> is inside.  \<open>checks\<close> is the build profile's
  overflow-checks setting, floating-point multiplication and the \<^verbatim>\<open>Debug\<close> escaping of strings (the
  standard library's Unicode tables) are parameters, and sleeping has no effect on the state.
\<close>

section \<open>State\<close>

record word_bag =
  words :: "bytes list"
  words_poisoned :: bool

datatype wb_object = BagObj word_bag | GrenadeObj bool

record wordbag = "wb_object runtime" +
  LIVE_WORD_BAGS :: i64
  CB_GUARD_DROPS :: i64
  NOTIFIER :: "stored_callback option"
  DUMP_PREPS :: i64
  DUMP_PREP_FAIL :: i64

definition init_wordbag :: wordbag where
  "init_wordbag = runtime.extend init_runtime
     \<lparr>LIVE_WORD_BAGS = 0, CB_GUARD_DROPS = 0, NOTIFIER = None, DUMP_PREPS = 0, DUMP_PREP_FAIL = 0\<rparr>"

section \<open>Parsing numbers\<close>

text \<open>\<^verbatim>\<open>str::parse::<i64>\<close>: an optional sign and at least one digit, within range.\<close>

definition parse_i64 :: "bytes \<Rightarrow> i64 option" where
  "parse_i64 s =
     (let neg = (s \<noteq> [] \<and> hd s = CHR ''-'');
          ds = (if s \<noteq> [] \<and> (hd s = CHR ''-'' \<or> hd s = CHR ''+'') then tl s else s)
      in if ds = [] \<or> \<not> list_all is_digit ds then None
         else if neg then (if undec ds \<le> 2 ^ 63 then Some (- of_nat (undec ds)) else None)
         else if undec ds < 2 ^ 63 then Some (of_nat (undec ds)) else None)"

section \<open>Plain functions\<close>

definition add :: "i64 \<Rightarrow> i64 \<Rightarrow> i64" where
  "add a b = a + b"

definition always_panic :: "(payload, unit) result" where
  "always_panic = Inl (StrPayload ''boom: intentional panic from wordbag'')"

datatype parse_error = Invalid bytes

fun parse_error_string :: "(bytes \<Rightarrow> bytes) \<Rightarrow> parse_error \<Rightarrow> bytes" where
  "parse_error_string debug (Invalid s) = ''invalid digit found in string: '' @ debug s"

definition parse_number :: "bytes \<Rightarrow> (parse_error, i64) result" where
  "parse_number s = (case parse_i64 (str_trim s) of Some n \<Rightarrow> Inr n | None \<Rightarrow> Inl (Invalid s))"

definition GREETING :: "bool \<Rightarrow> bytes" where
  "GREETING alt_greeting = (if alt_greeting then ''Hi'' else ''Hello'')"

definition greet :: "bool \<Rightarrow> bytes \<Rightarrow> bytes" where
  "greet alt_greeting name = GREETING alt_greeting @ '', '' @ name @ ''!''"

definition echo :: "bytes \<Rightarrow> bytes" where
  "echo s = s"

text \<open>Checked machine addition and subtraction: a panic when overflow checks are on, else wrapping.\<close>

definition add_u64 :: "bool \<Rightarrow> u64 \<Rightarrow> u64 \<Rightarrow> (payload, u64) result" where
  "add_u64 checks a b =
     (if checks \<and> 2 ^ 64 \<le> unat a + unat b then Inl (StrPayload ''attempt to add with overflow'')
      else Inr (a + b))"

definition i64_fits :: "int \<Rightarrow> bool" where
  "i64_fits z \<longleftrightarrow> - (2 ^ 63) \<le> z \<and> z < 2 ^ 63"

definition add_i64 :: "bool \<Rightarrow> i64 \<Rightarrow> i64 \<Rightarrow> (payload, i64) result" where
  "add_i64 checks a b =
     (if checks \<and> \<not> i64_fits (sint a + sint b) then Inl (StrPayload ''attempt to add with overflow'')
      else Inr (a + b))"

definition sub_i64 :: "bool \<Rightarrow> i64 \<Rightarrow> i64 \<Rightarrow> (payload, i64) result" where
  "sub_i64 checks a b =
     (if checks \<and> \<not> i64_fits (sint a - sint b) then Inl (StrPayload ''attempt to subtract with overflow'')
      else Inr (a - b))"

fun sum_u64 :: "bool \<Rightarrow> u64 \<Rightarrow> u64 list \<Rightarrow> (payload, u64) result" where
  "sum_u64 checks acc [] = Inr acc"
| "sum_u64 checks acc (x # xs) = bindR (add_u64 checks acc x) (\<lambda>acc'. sum_u64 checks acc' xs)"

fun sum_i64 :: "bool \<Rightarrow> i64 \<Rightarrow> i64 list \<Rightarrow> (payload, i64) result" where
  "sum_i64 checks acc [] = Inr acc"
| "sum_i64 checks acc (x # xs) = bindR (add_i64 checks acc x) (\<lambda>acc'. sum_i64 checks acc' xs)"

definition sum_bytes :: "bool \<Rightarrow> bytes \<Rightarrow> (payload, u64) result" where
  "sum_bytes checks data = sum_u64 checks 0 (map (\<lambda>b. of_nat (code b)) data)"

definition rev_bytes :: "bytes \<Rightarrow> bytes" where
  "rev_bytes data = rev data"

definition slow_sum :: "bool \<Rightarrow> bytes \<Rightarrow> u64 \<Rightarrow> (payload, u64) result" where
  "slow_sum checks data millis = sum_u64 checks 0 (map (\<lambda>b. of_nat (code b)) data)"

definition slow_dot :: "bool \<Rightarrow> i64 list \<Rightarrow> u64 \<Rightarrow> (payload, i64) result" where
  "slow_dot checks xs millis = sum_i64 checks 0 xs"

definition find_byte :: "bytes \<Rightarrow> octet \<Rightarrow> u64 option" where
  "find_byte data b = map_option of_nat (position (\<lambda>x. x = b) data)"

definition greet_opt :: "bytes option \<Rightarrow> bytes" where
  "greet_opt name = (case name of Some n \<Rightarrow> ''Hello, '' @ n @ ''!'' | None \<Rightarrow> ''Hello, anonymous!'')"

definition deltas :: "bool \<Rightarrow> i64 list \<Rightarrow> (payload, i64 list) result" where
  "deltas checks xs = mapR (\<lambda>(w0, w1). sub_i64 checks w1 w0) (zip xs (tl xs))"

definition scale :: "('f \<Rightarrow> 'f \<Rightarrow> 'f) \<Rightarrow> 'f list \<Rightarrow> 'f \<Rightarrow> 'f list" where
  "scale mul xs k = map (\<lambda>x. mul x k) xs"

definition opt_scale :: "'f \<Rightarrow> 'f option \<Rightarrow> 'f" where
  "opt_scale minus_one k = (case k of Some x \<Rightarrow> x | None \<Rightarrow> minus_one)"

section \<open>The stored notifier\<close>

text \<open>The notifier's mutex is only held for the assignments below, none of which can panic, so it is
  never poisoned.\<close>

definition set_notifier :: "stored_callback \<Rightarrow> wordbag \<Rightarrow> wordbag" where
  "set_notifier f s = s\<lparr>NOTIFIER := Some f\<rparr>"

definition clear_notifier :: "wordbag \<Rightarrow> wordbag" where
  "clear_notifier s = s\<lparr>NOTIFIER := None\<rparr>"

definition current_notifier :: "wordbag \<Rightarrow> (error, stored_callback) result" where
  "current_notifier s =
     (case NOTIFIER s of Some f \<Rightarrow> Inr f | None \<Rightarrow> Inl (error_msg ''no notifier registered''))"

type_synonym closure = "(wb_object, \<lparr>LIVE_WORD_BAGS :: i64, CB_GUARD_DROPS :: i64,
  NOTIFIER :: stored_callback option, DUMP_PREPS :: i64, DUMP_PREP_FAIL :: i64\<rparr>) trampoline"

text \<open>An \<^verbatim>\<open>i64\<close> on the wire: eight octets in memory order.\<close>

definition le64 :: "64 word \<Rightarrow> bytes" where
  "le64 w = map (\<lambda>i. octet (unat w div 256 ^ i mod 256)) [0..<8]"

definition notify :: "closure \<Rightarrow> i64 \<Rightarrow> wordbag \<Rightarrow> (error, unit) result \<times> wordbag" where
  "notify tramp x s =
     (case current_notifier s of
        Inl e \<Rightarrow> (Inl e, s)
      | Inr f \<Rightarrow>
          (case stored_call tramp f (ArgScalar '':i64'' (le64 x)) s of
             (Inr _, s') \<Rightarrow> (Inr (), s')
           | (Inl _, s') \<Rightarrow> (Inl (error_msg ''stored callback failed (see warnings)''), s')))"

text \<open>The same call from a thread that is joined at once; the spawned closure does not panic.\<close>

definition notify_from_thread :: "closure \<Rightarrow> i64 \<Rightarrow> wordbag \<Rightarrow> (error, unit) result \<times> wordbag" where
  "notify_from_thread tramp x s =
     (case current_notifier s of
        Inl e \<Rightarrow> (Inl e, s)
      | Inr cb \<Rightarrow>
          (case stored_call tramp cb (ArgScalar '':i64'' (le64 x)) s of
             (Inr _, s') \<Rightarrow> (Inr (), s')
           | (Inl _, s') \<Rightarrow> (Inl (error_msg ''stored callback failed (see warnings)''), s')))"

section \<open>Word bags\<close>

text \<open>\<^verbatim>\<open>lock().unwrap()\<close>: a poisoned mutex panics.\<close>

definition lock_words :: "word_bag \<Rightarrow> (payload, bytes list) result" where
  "lock_words b =
     (if words_poisoned b
      then Inl (StringPayload ''called `Result::unwrap()` on an `Err` value: PoisonError { .. }'')
      else Inr (words b))"

definition word_bag_new :: "wordbag \<Rightarrow> word_bag \<times> wordbag" where
  "word_bag_new s =
     (\<lparr>words = [], words_poisoned = False\<rparr>, s\<lparr>LIVE_WORD_BAGS := LIVE_WORD_BAGS s + 1\<rparr>)"

definition csv_words :: "bytes \<Rightarrow> bytes list" where
  "csv_words csv = filter (\<lambda>w. w \<noteq> []) (map str_trim (split_on (CHR '','') csv))"

definition word_bag_from_csv :: "bytes \<Rightarrow> wordbag \<Rightarrow> (payload, word_bag) result \<times> wordbag" where
  "word_bag_from_csv csv s =
     (case word_bag_new s of (bag, s') \<Rightarrow>
       (bindR (lock_words bag) (\<lambda>ws. Inr (bag\<lparr>words := ws @ csv_words csv\<rparr>)), s'))"

definition word_bag_add :: "bytes \<Rightarrow> word_bag \<Rightarrow> (payload, (error, word_bag) result) result" where
  "word_bag_add word b =
     (if word = [] then Inr (Inl (error_msg ''empty word not allowed''))
      else bindR (lock_words b) (\<lambda>ws. Inr (Inr (b\<lparr>words := ws @ [word]\<rparr>))))"

definition word_bag_len :: "word_bag \<Rightarrow> (payload, u64) result" where
  "word_bag_len b = bindR (lock_words b) (\<lambda>ws. Inr (of_nat (length ws)))"

definition word_bag_slow_len :: "word_bag \<Rightarrow> u64 \<Rightarrow> (payload, u64) result" where
  "word_bag_slow_len b millis = bindR (lock_words b) (\<lambda>ws. Inr (of_nat (length ws)))"

text \<open>Always panics; the guard is dropped while unwinding, which poisons the mutex.\<close>

definition word_bag_poison :: "word_bag \<Rightarrow> payload \<times> word_bag" where
  "word_bag_poison b =
     (case lock_words b of
        Inl p \<Rightarrow> (p, b)
      | Inr ws \<Rightarrow> (StrPayload ''wordbag: poisoning the words mutex'', b\<lparr>words_poisoned := True\<rparr>))"

text \<open>\<^verbatim>\<open>Drop\<close> of the two handle types.\<close>

fun wb_drop :: "wb_object \<Rightarrow> wordbag \<Rightarrow> payload option \<times> wordbag" where
  "wb_drop (BagObj b) s = (None, s\<lparr>LIVE_WORD_BAGS := LIVE_WORD_BAGS s - 1\<rparr>)"
| "wb_drop (GrenadeObj armed) s = ((if armed then Some (StrPayload ''grenade: boom in drop'') else None), s)"

definition grenade_new :: "bool \<Rightarrow> bool" where
  "grenade_new armed = armed"

section \<open>Functions that take a callback\<close>

text \<open>\<open>addr\<close> is where the string the callback borrows lies.\<close>

fun count_loop :: "tid \<Rightarrow> closure \<Rightarrow> (bytes \<Rightarrow> ptr) \<Rightarrow> callback \<Rightarrow> bytes list \<Rightarrow> u64 \<Rightarrow> wordbag \<Rightarrow> u64 \<times> wordbag" where
  "count_loop t tramp addr f [] ok s = (ok, s)"
| "count_loop t tramp addr f (w # ws) ok s =
     (case callback_call t tramp f (ArgStr (addr w) w) s of
        (Inr _, s') \<Rightarrow> count_loop t tramp addr f ws (ok + 1) s'
      | (Inl _, s') \<Rightarrow> count_loop t tramp addr f ws ok s')"

definition count_ok ::
  "tid \<Rightarrow> closure \<Rightarrow> (bytes \<Rightarrow> ptr) \<Rightarrow> word_bag \<Rightarrow> callback \<Rightarrow> wordbag \<Rightarrow> (payload, u64) result \<times> wordbag" where
  "count_ok t tramp addr bag f s =
     (case lock_words bag of
        Inl p \<Rightarrow> (Inl p, s)
      | Inr ws \<Rightarrow> (case count_loop t tramp addr f ws 0 s of (ok, s') \<Rightarrow> (Inr ok, s')))"

definition swallow_then_fail :: "tid \<Rightarrow> closure \<Rightarrow> callback \<Rightarrow> wordbag \<Rightarrow> (error, unit) result \<times> wordbag" where
  "swallow_then_fail t tramp f s =
     (Inl (error_msg ''own error after swallow''), snd (callback_call t tramp f (ArgScalar '':i64'' (le64 7)) s))"

fun each_loop ::
  "tid \<Rightarrow> closure \<Rightarrow> (bytes \<Rightarrow> ptr) \<Rightarrow> callback \<Rightarrow> bytes list \<Rightarrow> wordbag \<Rightarrow> (callback_error, unit) result \<times> wordbag" where
  "each_loop t tramp addr f [] s = (Inr (), s)"
| "each_loop t tramp addr f (w # ws) s =
     (case callback_call t tramp f (ArgStr (addr w) w) s of
        (Inr _, s') \<Rightarrow> each_loop t tramp addr f ws s'
      | (Inl e, s') \<Rightarrow> (Inl e, s'))"

text \<open>The guard is dropped however the body ends.\<close>

definition cb_guard_drop :: "wordbag \<Rightarrow> wordbag" where
  "cb_guard_drop s = s\<lparr>CB_GUARD_DROPS := CB_GUARD_DROPS s + 1\<rparr>"

definition for_each_word ::
  "tid \<Rightarrow> closure \<Rightarrow> (bytes \<Rightarrow> ptr) \<Rightarrow> word_bag \<Rightarrow> callback \<Rightarrow> wordbag \<Rightarrow>
   (payload, (error, u64) result) result \<times> wordbag" where
  "for_each_word t tramp addr bag f s =
     apsnd cb_guard_drop
       (case lock_words bag of
          Inl p \<Rightarrow> (Inl p, s)
        | Inr ws \<Rightarrow>
            (case each_loop t tramp addr f ws s of
               (Inl e, s') \<Rightarrow> (Inr (Inl (error_from_callback e)), s')
             | (Inr _, s') \<Rightarrow> (Inr (Inr (of_nat (length ws))), s')))"

section \<open>Introspection and the dump hook\<close>

definition test_live_allocations :: "wordbag \<Rightarrow> i64" where
  "test_live_allocations s = LIVE_ALLOCATIONS s"

definition test_live_word_bags :: "wordbag \<Rightarrow> i64" where
  "test_live_word_bags s = LIVE_WORD_BAGS s"

definition test_cb_guard_drops :: "wordbag \<Rightarrow> i64" where
  "test_cb_guard_drops s = CB_GUARD_DROPS s"

definition dump_prep :: "wordbag \<Rightarrow> (error, unit) result \<times> wordbag" where
  "dump_prep s =
     (let s' = s\<lparr>DUMP_PREPS := DUMP_PREPS s + 1\<rparr>
      in if DUMP_PREP_FAIL s' \<noteq> 0 then (Inl (error_msg ''dump_prep armed to fail''), s') else (Inr (), s'))"

definition set_dump_prep_fail :: "bool \<Rightarrow> wordbag \<Rightarrow> wordbag" where
  "set_dump_prep_fail fail s = s\<lparr>DUMP_PREP_FAIL := (if fail then 1 else 0)\<rparr>"

definition test_dump_preps :: "wordbag \<Rightarrow> i64" where
  "test_dump_preps s = DUMP_PREPS s"

section \<open>Numbers\<close>

text \<open>\<^verbatim>\<open>to_string\<close> on an \<^verbatim>\<open>i64\<close>.\<close>

definition show_i64 :: "i64 \<Rightarrow> bytes" where
  "show_i64 v = (if sint v < 0 then CHR ''-'' # dec (nat (- sint v)) else dec (nat (sint v)))"

lemma sint_i64_range: "- (2 ^ 63) \<le> sint v \<and> sint v < 2 ^ 63" for v :: i64
  using sint_ge [of v] sint_lt [of v] by simp

lemma dec_digit_list: "list_all is_digit (dec n)" "dec n \<noteq> []"
  by (auto simp: list_all_iff dec_not_Nil dest: dec_digits)

lemma digit_hd: "is_digit (hd (dec n))" "is_digit (last (dec n))"
  using dec_digit_list [of n] by (auto simp: list_all_iff)

lemma parse_show_i64: "parse_i64 (show_i64 v) = Some v"
proof (cases "sint v < 0")
  case True
  have "- of_int (- sint v) = v" by simp
  with True sint_i64_range [of v] show ?thesis
    by (simp add: parse_i64_def show_i64_def dec_digit_list Let_def nat_le_iff)
next
  case False
  have sign: "hd (dec n) \<noteq> CHR ''-''" "hd (dec n) \<noteq> CHR ''+''" for n
    using digit_hd(1) [of n] by (auto simp: is_digit_def)
  from False sint_i64_range [of v] sign show ?thesis
    by (simp add: parse_i64_def show_i64_def dec_digit_list Let_def nat_less_iff)
qed

lemma show_i64_edges: "show_i64 v \<noteq> []" "printable (hd (show_i64 v))" "printable (last (show_i64 v))"
proof -
  have digit: "printable (hd (dec n))" "printable (last (dec n))" for n
    using digit_hd [of n] by (auto simp: printable_def is_digit_def)
  have "printable (CHR ''-'')" by (simp add: printable_def)
  with digit dec_digit_list(2) show "show_i64 v \<noteq> []" "printable (hd (show_i64 v))" "printable (last (show_i64 v))"
    by (auto simp: show_i64_def)
qed

text \<open>The integer a numeral denotes: an optional sign and digits.\<close>

definition denotes :: "bytes \<Rightarrow> int \<Rightarrow> bool" where
  "denotes s z \<longleftrightarrow> (\<exists>ds. ds \<noteq> [] \<and> list_all is_digit ds \<and>
     (s = ds \<and> z = int (undec ds) \<or> s = CHR ''+'' # ds \<and> z = int (undec ds) \<or> s = CHR ''-'' # ds \<and> z = - int (undec ds)))"

lemma numeral_sign: "ds \<noteq> [] \<Longrightarrow> list_all is_digit ds \<Longrightarrow> hd ds \<noteq> CHR ''-'' \<and> hd ds \<noteq> CHR ''+''"
  by (cases ds) (auto simp: is_digit_def)

lemma sint_of_int_fits: "i64_fits z \<Longrightarrow> sint (of_int z :: i64) = z"
  by (simp add: i64_fits_def signed_of_int signed_take_bit_int_eq_self_iff)

lemma of_int_eq_iff_fits: "i64_fits z \<Longrightarrow> of_int z = v \<longleftrightarrow> z = sint v" for v :: i64
  using sint_of_int_fits by auto

lemma denotes_simps:
  "denotes [] z \<longleftrightarrow> False"
  "denotes (CHR ''-'' # ds) z \<longleftrightarrow> ds \<noteq> [] \<and> list_all is_digit ds \<and> z = - int (undec ds)"
  "denotes (CHR ''+'' # ds) z \<longleftrightarrow> ds \<noteq> [] \<and> list_all is_digit ds \<and> z = int (undec ds)"
  "c \<noteq> CHR ''-'' \<Longrightarrow> c \<noteq> CHR ''+'' \<Longrightarrow>
     denotes (c # cs) z \<longleftrightarrow> list_all is_digit (c # cs) \<and> z = int (undec (c # cs))"
  by (auto simp: denotes_def is_digit_def)

lemma parse_i64_iff: "parse_i64 s = Some v \<longleftrightarrow> denotes s (sint v)"
proof -
  have pos: "n < 9223372036854775808 \<Longrightarrow> of_nat n = v \<longleftrightarrow> sint v = int n"
      "\<not> n < 9223372036854775808 \<Longrightarrow> sint v \<noteq> int n" for n
    using sint_i64_range [of v] of_int_eq_iff_fits [of "int n" v] by (auto simp: i64_fits_def)
  have neg: "n \<le> 9223372036854775808 \<Longrightarrow> - of_nat n = v \<longleftrightarrow> sint v = - int n"
      "\<not> n \<le> 9223372036854775808 \<Longrightarrow> sint v \<noteq> - int n" for n
    using sint_i64_range [of v] of_int_eq_iff_fits [of "- int n" v] by (auto simp: i64_fits_def)
  consider "s = []" | ds where "s = CHR ''-'' # ds" | ds where "s = CHR ''+'' # ds"
    | c cs where "s = c # cs" "c \<noteq> CHR ''-''" "c \<noteq> CHR ''+''"
    by (cases s) auto
  then show ?thesis
    by cases (auto simp: parse_i64_def denotes_simps Let_def pos neg)
qed

section \<open>Differences\<close>

fun rebuild :: "i64 \<Rightarrow> i64 list \<Rightarrow> i64 list" where
  "rebuild x [] = [x]"
| "rebuild x (d # ds) = x # rebuild (x + d) ds"

lemma deltas_Cons2:
  "deltas c (x # y # ys) = bindR (sub_i64 c y x) (\<lambda>d. bindR (deltas c (y # ys)) (\<lambda>ds. Inr (d # ds)))"
  by (simp add: deltas_def)

lemma deltas_short: "deltas c [] = Inr []" "deltas c [x] = Inr []"
  by (simp_all add: deltas_def)

lemma rebuild_deltas: "deltas c (x # xs) = Inr ds \<Longrightarrow> rebuild x ds = x # xs"
proof (induction xs arbitrary: x ds)
  case (Cons y ys)
  then obtain ds' where "deltas c (y # ys) = Inr ds'" "ds = (y - x) # ds'"
    by (auto simp: deltas_Cons2 bindR_eq_Inr sub_i64_def split: if_splits)
  with Cons.IH [of y ds'] show ?case by simp
qed (simp add: deltas_short)

lemma deltas_defined:
  "(\<exists>ds. deltas c xs = Inr ds) \<longleftrightarrow> (c \<longrightarrow> (\<forall>i. Suc i < length xs \<longrightarrow> i64_fits (sint (xs ! Suc i) - sint (xs ! i))))"
proof (induction xs rule: induct_list012)
  case (3 x y ys)
  have "(\<forall>i. Suc i < length (x # y # ys) \<longrightarrow> P i) \<longleftrightarrow> P 0 \<and> (\<forall>i. Suc i < length (y # ys) \<longrightarrow> P (Suc i))" for P
    by (auto simp: less_Suc_eq_0_disj)
  with 3(2) show ?case
    by (auto simp: deltas_Cons2 bindR_eq_Inr sub_i64_def)
qed (simp_all add: deltas_short)

section \<open>Visiting the words\<close>

lemma each_loop_visits:
  assumes "\<And>w s. callback_call t tramp f (ArgStr (addr w) w) s =
      (if ok w then (Inr (), eff w s) else (Inl CallbackError, set_callback_tunnel t (eff w s)))"
  shows "each_loop t tramp addr f ws s =
    (let seen = takeWhile ok ws; s' = foldl (\<lambda>s w. eff w s) s seen
     in if seen = ws then (Inr (), s')
        else (Inl CallbackError, set_callback_tunnel t (eff (ws ! length seen) s')))"
  by (induction ws arbitrary: s) (auto simp: assms Let_def simp del: takeWhile_eq_all_conv)

lemma count_loop_visits:
  assumes "\<And>w s. callback_call t tramp f (ArgStr (addr w) w) s =
      (if ok w then (Inr (), eff w s) else (Inl CallbackError, set_callback_tunnel t (eff w s)))"
  shows "count_loop t tramp addr f ws n s =
    (n + of_nat (length (filter ok ws)),
     foldl (\<lambda>s w. if ok w then eff w s else set_callback_tunnel t (eff w s)) s ws)"
  by (induction ws arbitrary: n s) (auto simp: assms)

section \<open>Properties\<close>

text \<open>
  \<^verbatim>\<open>parse_number\<close> accepts exactly the decimal numerals of the 64-bit integers: it answers \<open>v\<close> if and
  only if the trimmed text is an optional sign and digits denoting \<open>v\<close>, it reports the untrimmed text as
  invalid if and only if there is no such \<open>v\<close> (an empty text, a lone sign and an overflow included), and it
  reads back every printed number, whatever white space surrounds it.
\<close>

theorem parse_number_exact:
  assumes "set ps \<subseteq> set WHITE_SPACE" "set qs \<subseteq> set WHITE_SPACE"
  shows "(parse_number s = Inr v \<longleftrightarrow> denotes (str_trim s) (sint v)) \<and>
    (parse_number s = Inl (Invalid s) \<longleftrightarrow> \<not> (\<exists>z. denotes (str_trim s) z \<and> i64_fits z)) \<and>
    parse_number (concat ps @ show_i64 v @ concat qs) = Inr v"
proof (intro conjI)
  have fits: "i64_fits (sint v)" for v :: i64 using sint_i64_range [of v] by (simp add: i64_fits_def)
  show "parse_number s = Inr v \<longleftrightarrow> denotes (str_trim s) (sint v)"
    unfolding parse_i64_iff [symmetric] by (simp add: parse_number_def split: option.split)
  have "parse_number s = Inl (Invalid s) \<longleftrightarrow> parse_i64 (str_trim s) = None"
    by (simp add: parse_number_def split: option.split)
  also have "\<dots> \<longleftrightarrow> (\<forall>v :: i64. \<not> denotes (str_trim s) (sint v))"
    using parse_i64_iff [of "str_trim s"] by (cases "parse_i64 (str_trim s)") auto
  also have "\<dots> \<longleftrightarrow> \<not> (\<exists>z. denotes (str_trim s) z \<and> i64_fits z)"
    using fits sint_of_int_fits by metis
  finally show "parse_number s = Inl (Invalid s) \<longleftrightarrow> \<not> (\<exists>z. denotes (str_trim s) z \<and> i64_fits z)" .
  show "parse_number (concat ps @ show_i64 v @ concat qs) = Inr v"
    by (simp add: parse_number_def str_trim_padded [OF assms show_i64_edges] parse_show_i64)
qed

theorem parse_number_exact_witness:
  "parse_number ([CHR 0x20, CHR 0xC2, CHR 0xA0] @ ''-12'' @ [LF]) = Inr (- 12)"
proof -
  have "set [[CHR 0x20], [CHR 0xC2, CHR 0xA0]] \<subseteq> set WHITE_SPACE" "set [[LF]] \<subseteq> set WHITE_SPACE"
    by (simp_all add: WHITE_SPACE_def)
  note parse_number_exact [OF this, THEN conjunct2, THEN conjunct2, of "- 12"]
  moreover have "show_i64 (- 12) = ''-12''"
    by (simp add: show_i64_def dec.simps char_of_def bit_numeral_rec bit_0)
  ultimately show ?thesis by simp
qed

text \<open>
  \<^verbatim>\<open>deltas\<close> loses nothing: whenever it returns, adding the differences up from the first element gives
  the whole slice back (modulo two to the 64, so also when a difference wraps).  It panics exactly when
  overflow checks are compiled in and some neighbouring difference does not fit an \<^verbatim>\<open>i64\<close>.
\<close>

theorem deltas_rebuild:
  "(deltas checks (x # xs) = Inr ds \<longrightarrow> rebuild x ds = x # xs) \<and>
   ((\<exists>ys. deltas checks xs = Inr ys) \<longleftrightarrow>
      (checks \<longrightarrow> (\<forall>i. Suc i < length xs \<longrightarrow> i64_fits (sint (xs ! Suc i) - sint (xs ! i)))))"
  using rebuild_deltas deltas_defined by blast

theorem deltas_rebuild_witness:
  "deltas False [3, - (2 ^ 63), 2 ^ 63 - 1] = Inr [2 ^ 63 - 3, - 1] \<and> rebuild 3 [2 ^ 63 - 3, - 1] = [3, - (2 ^ 63), 2 ^ 63 - 1]"
proof -
  have "deltas False [3, - (2 ^ 63), 2 ^ 63 - 1] = Inr [2 ^ 63 - 3, - 1]"
    by (simp add: deltas_def sub_i64_def)
  with deltas_rebuild [of False 3 "[- (2 ^ 63), 2 ^ 63 - 1]" "[2 ^ 63 - 3, - 1]"] show ?thesis by blast
qed

text \<open>
  A callback sees the words in order.  Let the Lisp closure's status depend on the word and its effect
  be arbitrary.  \<^verbatim>\<open>for_each_word\<close> calls it on each word up to and including the first failure and then stops
  with the tunnel flag up; without a failure it returns the number of words.  \<^verbatim>\<open>count_ok\<close> calls it on every
  word and returns how many calls succeeded.  On a poisoned bag both panic before any call.  However
  \<^verbatim>\<open>for_each_word\<close> ends, its guard is dropped exactly once.
\<close>

theorem words_visited:
  assumes "\<And>w s. tramp (cb_fnptr f) (cb_userdata f) (cb_encode (ArgStr (addr w) w)) s = (st w, eff w s)"
  shows "(if words_poisoned b
     then fst (for_each_word t tramp addr b f s) =
            Inl (StringPayload ''called `Result::unwrap()` on an `Err` value: PoisonError { .. }'') \<and>
          snd (for_each_word t tramp addr b f s) = cb_guard_drop s \<and> snd (count_ok t tramp addr b f s) = s
     else for_each_word t tramp addr b f s =
            (let seen = takeWhile (\<lambda>w. st w = 0) (words b); s' = foldl (\<lambda>s w. eff w s) s seen
             in if seen = words b then (Inr (Inr (of_nat (length (words b)))), cb_guard_drop s')
                else (Inr (Inl (error_from_callback CallbackError)),
                      cb_guard_drop (set_callback_tunnel t (eff (words b ! length seen) s')))) \<and>
          count_ok t tramp addr b f s =
            (Inr (of_nat (length (filter (\<lambda>w. st w = 0) (words b)))),
             foldl (\<lambda>s w. if st w = 0 then eff w s else set_callback_tunnel t (eff w s)) s (words b)))"
proof -
  have call: "callback_call t tramp f (ArgStr (addr w) w) s =
      (if st w = 0 then (Inr (), eff w s) else (Inl CallbackError, set_callback_tunnel t (eff w s)))" for w s
    by (simp add: callback_call_def invoke_def assms del: cb_encode.simps)
  note loops = each_loop_visits [of t tramp f addr "\<lambda>w. st w = 0" eff, OF call]
    count_loop_visits [of t tramp f addr "\<lambda>w. st w = 0" eff, OF call]
  show ?thesis
    by (auto simp: for_each_word_def count_ok_def lock_words_def loops Let_def simp del: takeWhile_eq_all_conv)
qed

theorem words_visited_witness:
  "for_each_word 0 (\<lambda>_ _ ws s. (if ws = [WPtr 1, WSize 2] then 1 else 0, s)) (\<lambda>w. of_nat (length w) - 1)
     \<lparr>words = [''a'', ''bc'', ''d''], words_poisoned = False\<rparr> \<lparr>cb_fnptr = 0, cb_userdata = 0\<rparr> init_wordbag =
   (Inr (Inl (error_from_callback CallbackError)), cb_guard_drop (set_callback_tunnel 0 init_wordbag))"
proof -
  let ?tramp = "\<lambda>_ _ ws s. (if ws = [WPtr 1, WSize 2] then 1 else 0, s)"
  let ?f = "\<lparr>cb_fnptr = 0, cb_userdata = 0\<rparr> :: callback"
  let ?addr = "\<lambda>w :: bytes. of_nat (length w) - 1 :: ptr"
  let ?st = "\<lambda>w :: bytes. if ?addr w = 1 \<and> length w = 2 then 1 else 0 :: i32"
  have "?tramp (cb_fnptr ?f) (cb_userdata ?f) (cb_encode (ArgStr (?addr w) w)) s = (?st w, s)"
    for w and s :: wordbag
    by simp
  from words_visited [where tramp = ?tramp and f = ?f and addr = ?addr and st = ?st and eff = "\<lambda>w s. s" and
      b = "\<lparr>words = [''a'', ''bc'', ''d''], words_poisoned = False\<rparr>" and t = 0 and s = init_wordbag, OF this]
  show ?thesis by (simp add: Let_def)
qed

end
