(* ===== verification/Wordbag_Module.thy ===== *)
theory Wordbag_Module
  imports Wordbag
begin

text \<open>
  The \<^verbatim>\<open>wordbag\<close> crate as a whole: its exported items and \<^verbatim>\<open>module!\<close> declaration as the macros read them,
  and the golden manifest of the test suite.
\<close>

section \<open>The crate's items\<close>

text \<open>The exported items of the crate as the macros see them, in source order.\<close>

definition ty_name :: "bytes \<Rightarrow> ty" where
  "ty_name n = TPath False [Segment n NoArgs]"

definition ty_app :: "bytes \<Rightarrow> ty list \<Rightarrow> ty" where
  "ty_app n ts = TPath False [Segment n (AngleBracketed (map GType ts))]"

definition fn_item :: "attribute list \<Rightarrow> bytes \<Rightarrow> fn_arg list \<Rightarrow> ty option \<Rightarrow> item_fn" where
  "fn_item attrs name inputs output =
     \<lparr>if_attrs = attrs, if_ident = name, if_inputs = inputs, if_output = output\<rparr>"

definition item_add :: item_fn where
  "item_add = fn_item [] ''add''
       [TypedArg (Some ''a'') (ty_name ''i64''), TypedArg (Some ''b'') (ty_name ''i64'')] (Some (ty_name ''i64''))"

definition item_always_panic :: item_fn where
  "item_always_panic = fn_item [] ''always_panic''
       [] (None)"

definition item_parse_number :: item_fn where
  "item_parse_number = fn_item [] ''parse_number''
       [TypedArg (Some ''s'') (TReference None False (ty_name ''str''))] (Some (ty_app ''Result'' [ty_name ''i64'', ty_name ''ParseError'']))"

definition item_greet :: item_fn where
  "item_greet = fn_item [] ''greet''
       [TypedArg (Some ''name'') (TReference None False (ty_name ''str''))] (Some (ty_name ''String''))"

definition item_echo :: item_fn where
  "item_echo = fn_item [] ''echo''
       [TypedArg (Some ''s'') (TReference None False (ty_name ''str''))] (Some (ty_name ''String''))"

definition item_sum :: item_fn where
  "item_sum = fn_item [] ''sum''
       [TypedArg (Some ''data'') (TReference None False (TSlice (ty_name ''u8'')))] (Some (ty_name ''u64''))"

definition item_rev :: item_fn where
  "item_rev = fn_item [] ''rev''
       [TypedArg (Some ''data'') (TReference None False (TSlice (ty_name ''u8'')))] (Some (ty_app ''Vec'' [ty_name ''u8'']))"

definition item_slow_sum :: item_fn where
  "item_slow_sum = fn_item [DocAttr ('' Holds a borrowed byte buffer for MILLIS: the fixture behind''), DocAttr ('' v05.pin-does-not-stop-the-world '' @ [CHR 0xE2, CHR 0x80, CHR 0x94] @ '' on a host whose '' @ [QUOTE] @ ''pin'' @ [QUOTE] @ '' inhibits GC,''), DocAttr ('' every other Lisp thread stalls for the whole call.'')] ''slow_sum''
       [TypedArg (Some ''data'') (TReference None False (TSlice (ty_name ''u8''))), TypedArg (Some ''millis'') (ty_name ''u64'')] (Some (ty_name ''u64''))"

definition item_slow_dot :: item_fn where
  "item_slow_dot = fn_item [DocAttr ('' The (:vec ...) twin of slow_sum.'')] ''slow_dot''
       [TypedArg (Some ''xs'') (TReference None False (TSlice (ty_name ''i64''))), TypedArg (Some ''millis'') (ty_name ''u64'')] (Some (ty_name ''i64''))"

definition item_find :: item_fn where
  "item_find = fn_item [] ''find''
       [TypedArg (Some ''data'') (TReference None False (TSlice (ty_name ''u8''))), TypedArg (Some ''b'') (ty_name ''u8'')] (Some (ty_app ''Option'' [ty_name ''u64'']))"

definition item_greet_opt :: item_fn where
  "item_greet_opt = fn_item [] ''greet_opt''
       [TypedArg (Some ''name'') (ty_app ''Option'' [TReference None False (ty_name ''str'')])] (Some (ty_name ''String''))"

definition item_deltas :: item_fn where
  "item_deltas = fn_item [] ''deltas''
       [TypedArg (Some ''xs'') (TReference None False (TSlice (ty_name ''i64'')))] (Some (ty_app ''Vec'' [ty_name ''i64'']))"

definition item_scale :: item_fn where
  "item_scale = fn_item [] ''scale''
       [TypedArg (Some ''xs'') (TReference None False (TSlice (ty_name ''f64''))), TypedArg (Some ''k'') (ty_name ''f64'')] (Some (ty_app ''Vec'' [ty_name ''f64'']))"

definition item_opt_scale :: item_fn where
  "item_opt_scale = fn_item [DocAttr ('' An optional float parameter: NIL must cross as None (v0.6 '' @ [CHR 0xE2, CHR 0x80, CHR 0x94] @ '' the value''), DocAttr ('' slot carried a fixnum 0 that SBCL and CCL refuse for :double).'')] ''opt_scale''
       [TypedArg (Some ''k'') (ty_app ''Option'' [ty_name ''f64''])] (Some (ty_name ''f64''))"

definition item_opt_scale32 :: item_fn where
  "item_opt_scale32 = fn_item [DocAttr ('' The f32 twin of opt_scale.'')] ''opt_scale32''
       [TypedArg (Some ''k'') (ty_app ''Option'' [ty_name ''f32''])] (Some (ty_name ''f32''))"

definition item_set_notifier :: item_fn where
  "item_set_notifier = fn_item [] ''set_notifier''
       [TypedArg (Some ''f'') (ty_app ''StoredCallback'' [TTuple [ty_name ''i64'']])] (None)"

definition item_clear_notifier :: item_fn where
  "item_clear_notifier = fn_item [] ''clear_notifier''
       [] (None)"

definition item_notify :: item_fn where
  "item_notify = fn_item [] ''notify''
       [TypedArg (Some ''x'') (ty_name ''i64'')] (Some (ty_app ''Result'' [TTuple [], ty_name ''Error'']))"

definition item_notify_from_thread :: item_fn where
  "item_notify_from_thread = fn_item [] ''notify_from_thread''
       [TypedArg (Some ''x'') (ty_name ''i64'')] (Some (ty_app ''Result'' [TTuple [], ty_name ''Error'']))"

definition item_count_ok :: item_fn where
  "item_count_ok = fn_item [DocAttr ('' Swallows callback failures and keeps counting: BOUNDARY '' @ [CHR 0xC2, CHR 0xA7] @ ''6.3(3), first''), DocAttr ('' sentence '' @ [CHR 0xE2, CHR 0x80, CHR 0x94] @ '' a swallowed CallbackError'' @ [CHR 0x27] @ ''s stash is discarded when the shim''), DocAttr ('' returns OK, so the caller sees a normal return, not a re-signal.'')] ''count_ok''
       [TypedArg (Some ''bag'') (TReference None False (ty_name ''WordBag'')), TypedArg (Some ''f'') (ty_app ''Callback'' [TTuple [TReference None False (ty_name ''str'')], TTuple []])] (Some (ty_name ''u64''))"

definition item_swallow_then_fail :: item_fn where
  "item_swallow_then_fail = fn_item [DocAttr ('' Swallows a callback failure, then fails with its OWN error: BOUNDARY''), DocAttr ('' '' @ [CHR 0xC2, CHR 0xA7] @ ''6.3(3), second sentence '' @ [CHR 0xE2, CHR 0x80, CHR 0x94] @ '' the call is conservatively status 4, so the''), DocAttr ('' stashed Lisp condition re-signals instead of this error.'')] ''swallow_then_fail''
       [TypedArg (Some ''f'') (ty_app ''Callback'' [TTuple [ty_name ''i64''], TTuple []])] (Some (ty_app ''Result'' [TTuple [], ty_name ''Error'']))"

definition item_for_each_word :: item_fn where
  "item_for_each_word = fn_item [] ''for_each_word''
       [TypedArg (Some ''bag'') (TReference None False (ty_name ''WordBag'')), TypedArg (Some ''f'') (ty_app ''Callback'' [TTuple [TReference None False (ty_name ''str'')], TTuple []])] (Some (ty_app ''Result'' [ty_name ''u64'', ty_name ''Error'']))"

definition item_test_live_allocations :: item_fn where
  "item_test_live_allocations = fn_item [] ''test_live_allocations''
       [] (Some (ty_name ''i64''))"

definition item_test_live_word_bags :: item_fn where
  "item_test_live_word_bags = fn_item [] ''test_live_word_bags''
       [] (Some (ty_name ''i64''))"

definition item_test_cb_guard_drops :: item_fn where
  "item_test_cb_guard_drops = fn_item [] ''test_cb_guard_drops''
       [] (Some (ty_name ''i64''))"

definition item_dump_prep :: item_fn where
  "item_dump_prep = fn_item [DocAttr ('' The crate'' @ [CHR 0x27] @ ''s declared dump hook (BOUNDARY '' @ [CHR 0xC2, CHR 0xA7] @ ''10 :on-dump). Counts its''), DocAttr ('' invocations so tests can observe the loader-driven call, and fails on''), DocAttr ('' demand so the warn-and-proceed contract is testable.'')] ''dump_prep''
       [] (Some (ty_app ''Result'' [TTuple [], ty_name ''Error'']))"

definition item_set_dump_prep_fail :: item_fn where
  "item_set_dump_prep_fail = fn_item [] ''set_dump_prep_fail''
       [TypedArg (Some ''fail'') (ty_name ''bool'')] (None)"

definition item_test_dump_preps :: item_fn where
  "item_test_dump_preps = fn_item [] ''test_dump_preps''
       [] (Some (ty_name ''i64''))"

definition item_word_bag_new :: item_fn where
  "item_word_bag_new = fn_item [RulispAttr [MetaConstructor]] ''new''
       [] (Some (ty_name ''WordBag''))"

definition item_word_bag_from_csv :: item_fn where
  "item_word_bag_from_csv = fn_item [DocAttr ('' A second constructor. Without '' @ [CHR 0x60] @ ''name = '' @ [CHR 0xE2, CHR 0x80, CHR 0xA6, CHR 0x60] @ '' this would also be''), DocAttr ('' '' @ [CHR 0x60] @ ''make-word-bag'' @ [CHR 0x60] @ '', which the loader rejects as a duplicate.''), RulispAttr [MetaConstructor, MetaName ''make-word-bag-from'']] ''from_csv''
       [TypedArg (Some ''csv'') (TReference None False (ty_name ''str''))] (Some (ty_name ''WordBag''))"

definition item_word_bag_add :: item_fn where
  "item_word_bag_add = fn_item [] ''add''
       [Receiver (Some None) False False, TypedArg (Some ''word'') (TReference None False (ty_name ''str''))] (Some (ty_app ''Result'' [TTuple [], ty_name ''Error'']))"

definition item_word_bag_len :: item_fn where
  "item_word_bag_len = fn_item [] ''len''
       [Receiver (Some None) False False] (Some (ty_name ''u64''))"

definition item_word_bag_slow_len :: item_fn where
  "item_word_bag_slow_len = fn_item [DocAttr ('' Parks the caller inside a foreign call so tests can race rulisp:free''), DocAttr ('' against an in-flight method.'')] ''slow_len''
       [Receiver (Some None) False False, TypedArg (Some ''millis'') (ty_name ''u64'')] (Some (ty_name ''u64''))"

definition item_word_bag_poison :: item_fn where
  "item_word_bag_poison = fn_item [DocAttr ('' Panics while holding the words mutex, poisoning it: BOUNDARY '' @ [CHR 0xC2, CHR 0xA7] @ ''8 '' @ [CHR 0xE2, CHR 0x80, CHR 0x94]), DocAttr ('' the NEXT lock'' @ [CHR 0x27] @ ''s unwrap panics too and surfaces as status 2.'')] ''poison''
       [Receiver (Some None) False False] (None)"

definition item_grenade_new :: item_fn where
  "item_grenade_new = fn_item [RulispAttr [MetaConstructor]] ''new''
       [TypedArg (Some ''armed'') (ty_name ''bool'')] (Some (ty_name ''Grenade''))"

definition wordbag_fns :: "item_fn list" where
  "wordbag_fns =
     [item_add, item_always_panic, item_parse_number, item_greet, item_echo, item_sum, item_rev,
      item_slow_sum, item_slow_dot, item_find, item_greet_opt, item_deltas, item_scale,
      item_opt_scale, item_opt_scale32, item_set_notifier, item_clear_notifier, item_notify,
      item_notify_from_thread, item_count_ok, item_swallow_then_fail, item_for_each_word,
      item_test_live_allocations, item_test_live_word_bags, item_test_cb_guard_drops, item_dump_prep,
      item_set_dump_prep_fail, item_test_dump_preps]"

definition wordbag_methods :: "item_fn list" where
  "wordbag_methods =
     [item_word_bag_new, item_word_bag_from_csv, item_word_bag_add, item_word_bag_len,
      item_word_bag_slow_len, item_word_bag_poison]"

definition grenade_methods :: "item_fn list" where
  "grenade_methods =
     [item_grenade_new]"

definition fn_path :: "bytes \<Rightarrow> path" where
  "fn_path f = (False, [Segment f NoArgs])"

definition method_path :: "bytes \<Rightarrow> bytes \<Rightarrow> path" where
  "method_path t m = (False, [Segment t NoArgs, Segment m NoArgs])"

definition wordbag_module :: module_input where
  "wordbag_module = \<lparr>mi_name = ''wordbag'', mi_handles = [fn_path ''WordBag'', fn_path ''Grenade''],
     mi_fns = [fn_path ''add'', fn_path ''always_panic'', fn_path ''parse_number'', fn_path ''greet'',
       fn_path ''echo'', fn_path ''sum'', fn_path ''rev'', fn_path ''find'', fn_path ''greet_opt'',
       fn_path ''deltas'', fn_path ''scale'', fn_path ''set_notifier'', fn_path ''clear_notifier'',
       fn_path ''notify'', fn_path ''notify_from_thread'', method_path ''WordBag'' ''new'',
       method_path ''WordBag'' ''add'', method_path ''WordBag'' ''len'', method_path ''WordBag''
       ''slow_len'', fn_path ''for_each_word'', fn_path ''count_ok'', fn_path
       ''swallow_then_fail'', method_path ''WordBag'' ''poison'', method_path ''Grenade'' ''new'',
       fn_path ''test_live_allocations'', fn_path ''test_live_word_bags'', fn_path
       ''test_cb_guard_drops'', fn_path ''dump_prep'', fn_path ''set_dump_prep_fail'', fn_path
       ''test_dump_preps'', method_path ''WordBag'' ''from_csv'', fn_path ''slow_sum'', fn_path
       ''slow_dot'', fn_path ''opt_scale'', fn_path ''opt_scale32''],
     mi_on_dump = Some ''dump_prep''\<rparr>"

definition wordbag_handle_docs :: "(bytes \<times> attribute list) list" where
  "wordbag_handle_docs =
     [(''WordBag'', []),
      (''Grenade'', [DocAttr ('' Drop panics when armed: BOUNDARY '' @ [CHR 0xC2, CHR 0xA7] @ ''2'' @ [CHR 0x27] @ ''s exception '' @ [CHR 0xE2, CHR 0x80, CHR 0x94] @ '' a panic inside a''), DocAttr ('' '' @ [CHR 0x60] @ ''*_free'' @ [CHR 0x60] @ '' shim is caught, logged to stderr and swallowed, never crossing''), DocAttr ('' the boundary.'')])]"

text \<open>\<^verbatim>\<open>tests/golden/wordbag.manifest.sexp\<close>, line by line.\<close>

definition GOLDEN :: "bytes list" where
  "GOLDEN =
     [''(:rulisp-manifest'',
      '' :schema 1'',
      '' :abi 1'',
      '' :crate '' @ [QUOTE] @ ''wordbag'' @ [QUOTE],
      '' :crate-version '' @ [QUOTE] @ ''0.1.0'' @ [QUOTE],
      '' :rulisp-version '' @ [QUOTE] @ ''0.4.0'' @ [QUOTE],
      '' :target '' @ [QUOTE] @ ''x86_64-unknown-linux-gnu'' @ [QUOTE],
      '' :prefix '' @ [QUOTE] @ ''wordbag_rulisp_'' @ [QUOTE],
      '' :on-dump '' @ [QUOTE] @ ''dump_prep'' @ [QUOTE],
      '' :errors ('' @ [QUOTE] @ ''ParseError'' @ [QUOTE] @ '')'',
      '' :handles'',
      '' ((:handle :rust-name '' @ [QUOTE] @ ''WordBag'' @ [QUOTE] @ '' :lisp-name '' @ [QUOTE] @ ''word-bag'' @ [QUOTE] @ '' :free '' @ [QUOTE] @ ''word_bag_free'' @ [QUOTE] @ '')'',
      ''  (:handle :rust-name '' @ [QUOTE] @ ''Grenade'' @ [QUOTE] @ '' :lisp-name '' @ [QUOTE] @ ''grenade'' @ [QUOTE] @ '' :free '' @ [QUOTE] @ ''grenade_free'' @ [QUOTE],
      ''   :doc '' @ [QUOTE] @ ''Drop panics when armed: BOUNDARY '' @ [CHR 0xC2, CHR 0xA7] @ ''2'' @ [CHR 0x27] @ ''s exception '' @ [CHR 0xE2, CHR 0x80, CHR 0x94] @ '' a panic inside a'',
      [CHR 0x60] @ ''*_free'' @ [CHR 0x60] @ '' shim is caught, logged to stderr and swallowed, never crossing'',
      ''the boundary.'' @ [QUOTE] @ ''))'',
      '' :functions'',
      '' ((:fn :rust-name '' @ [QUOTE] @ ''add'' @ [QUOTE] @ '' :lisp-name '' @ [QUOTE] @ ''add'' @ [QUOTE] @ '' :symbol '' @ [QUOTE] @ ''add'' @ [QUOTE],
      ''   :params ((:name '' @ [QUOTE] @ ''a'' @ [QUOTE] @ '' :type :i64) (:name '' @ [QUOTE] @ ''b'' @ [QUOTE] @ '' :type :i64)) :result :i64 :error nil)'',
      ''  (:fn :rust-name '' @ [QUOTE] @ ''always_panic'' @ [QUOTE] @ '' :lisp-name '' @ [QUOTE] @ ''always-panic'' @ [QUOTE] @ '' :symbol '' @ [QUOTE] @ ''always_panic'' @ [QUOTE],
      ''   :params () :result :unit :error nil)'',
      ''  (:fn :rust-name '' @ [QUOTE] @ ''parse_number'' @ [QUOTE] @ '' :lisp-name '' @ [QUOTE] @ ''parse-number'' @ [QUOTE] @ '' :symbol '' @ [QUOTE] @ ''parse_number'' @ [QUOTE],
      ''   :params ((:name '' @ [QUOTE] @ ''s'' @ [QUOTE] @ '' :type :string)) :result :i64 :error '' @ [QUOTE] @ ''ParseError'' @ [QUOTE] @ '')'',
      ''  (:fn :rust-name '' @ [QUOTE] @ ''greet'' @ [QUOTE] @ '' :lisp-name '' @ [QUOTE] @ ''greet'' @ [QUOTE] @ '' :symbol '' @ [QUOTE] @ ''greet'' @ [QUOTE],
      ''   :params ((:name '' @ [QUOTE] @ ''name'' @ [QUOTE] @ '' :type :string)) :result :string :error nil)'',
      ''  (:fn :rust-name '' @ [QUOTE] @ ''echo'' @ [QUOTE] @ '' :lisp-name '' @ [QUOTE] @ ''echo'' @ [QUOTE] @ '' :symbol '' @ [QUOTE] @ ''echo'' @ [QUOTE],
      ''   :params ((:name '' @ [QUOTE] @ ''s'' @ [QUOTE] @ '' :type :string)) :result :string :error nil)'',
      ''  (:fn :rust-name '' @ [QUOTE] @ ''sum'' @ [QUOTE] @ '' :lisp-name '' @ [QUOTE] @ ''sum'' @ [QUOTE] @ '' :symbol '' @ [QUOTE] @ ''sum'' @ [QUOTE],
      ''   :params ((:name '' @ [QUOTE] @ ''data'' @ [QUOTE] @ '' :type :bytes)) :result :u64 :error nil)'',
      ''  (:fn :rust-name '' @ [QUOTE] @ ''rev'' @ [QUOTE] @ '' :lisp-name '' @ [QUOTE] @ ''rev'' @ [QUOTE] @ '' :symbol '' @ [QUOTE] @ ''rev'' @ [QUOTE],
      ''   :params ((:name '' @ [QUOTE] @ ''data'' @ [QUOTE] @ '' :type :bytes)) :result :bytes :error nil)'',
      ''  (:fn :rust-name '' @ [QUOTE] @ ''find'' @ [QUOTE] @ '' :lisp-name '' @ [QUOTE] @ ''find'' @ [QUOTE] @ '' :symbol '' @ [QUOTE] @ ''find'' @ [QUOTE],
      ''   :params ((:name '' @ [QUOTE] @ ''data'' @ [QUOTE] @ '' :type :bytes) (:name '' @ [QUOTE] @ ''b'' @ [QUOTE] @ '' :type :u8)) :result (:option :u64) :error nil)'',
      ''  (:fn :rust-name '' @ [QUOTE] @ ''greet_opt'' @ [QUOTE] @ '' :lisp-name '' @ [QUOTE] @ ''greet-opt'' @ [QUOTE] @ '' :symbol '' @ [QUOTE] @ ''greet_opt'' @ [QUOTE],
      ''   :params ((:name '' @ [QUOTE] @ ''name'' @ [QUOTE] @ '' :type (:option :string))) :result :string :error nil)'',
      ''  (:fn :rust-name '' @ [QUOTE] @ ''deltas'' @ [QUOTE] @ '' :lisp-name '' @ [QUOTE] @ ''deltas'' @ [QUOTE] @ '' :symbol '' @ [QUOTE] @ ''deltas'' @ [QUOTE],
      ''   :params ((:name '' @ [QUOTE] @ ''xs'' @ [QUOTE] @ '' :type (:vec :i64))) :result (:vec :i64) :error nil)'',
      ''  (:fn :rust-name '' @ [QUOTE] @ ''scale'' @ [QUOTE] @ '' :lisp-name '' @ [QUOTE] @ ''scale'' @ [QUOTE] @ '' :symbol '' @ [QUOTE] @ ''scale'' @ [QUOTE],
      ''   :params ((:name '' @ [QUOTE] @ ''xs'' @ [QUOTE] @ '' :type (:vec :f64)) (:name '' @ [QUOTE] @ ''k'' @ [QUOTE] @ '' :type :f64)) :result (:vec :f64) :error nil)'',
      ''  (:fn :rust-name '' @ [QUOTE] @ ''set_notifier'' @ [QUOTE] @ '' :lisp-name '' @ [QUOTE] @ ''set-notifier'' @ [QUOTE] @ '' :symbol '' @ [QUOTE] @ ''set_notifier'' @ [QUOTE],
      ''   :params ((:name '' @ [QUOTE] @ ''f'' @ [QUOTE] @ '' :type (:stored-callback :params (:i64) :result :unit)))'',
      ''   :result :unit :error nil)'',
      ''  (:fn :rust-name '' @ [QUOTE] @ ''clear_notifier'' @ [QUOTE] @ '' :lisp-name '' @ [QUOTE] @ ''clear-notifier'' @ [QUOTE] @ '' :symbol '' @ [QUOTE] @ ''clear_notifier'' @ [QUOTE],
      ''   :params () :result :unit :error nil)'',
      ''  (:fn :rust-name '' @ [QUOTE] @ ''notify'' @ [QUOTE] @ '' :lisp-name '' @ [QUOTE] @ ''notify'' @ [QUOTE] @ '' :symbol '' @ [QUOTE] @ ''notify'' @ [QUOTE],
      ''   :params ((:name '' @ [QUOTE] @ ''x'' @ [QUOTE] @ '' :type :i64)) :result :unit :error '' @ [QUOTE] @ ''Error'' @ [QUOTE] @ '')'',
      ''  (:fn :rust-name '' @ [QUOTE] @ ''notify_from_thread'' @ [QUOTE] @ '' :lisp-name '' @ [QUOTE] @ ''notify-from-thread'' @ [QUOTE] @ '' :symbol '' @ [QUOTE] @ ''notify_from_thread'' @ [QUOTE],
      ''   :params ((:name '' @ [QUOTE] @ ''x'' @ [QUOTE] @ '' :type :i64)) :result :unit :error '' @ [QUOTE] @ ''Error'' @ [QUOTE] @ '')'',
      ''  (:fn :rust-name '' @ [QUOTE] @ ''WordBag::new'' @ [QUOTE] @ '' :lisp-name '' @ [QUOTE] @ ''make-word-bag'' @ [QUOTE] @ '' :symbol '' @ [QUOTE] @ ''word_bag_new'' @ [QUOTE],
      ''   :params () :result (:handle '' @ [QUOTE] @ ''WordBag'' @ [QUOTE] @ '') :error nil)'',
      ''  (:fn :rust-name '' @ [QUOTE] @ ''WordBag::add'' @ [QUOTE] @ '' :lisp-name '' @ [QUOTE] @ ''word-bag-add'' @ [QUOTE] @ '' :symbol '' @ [QUOTE] @ ''word_bag_add'' @ [QUOTE],
      ''   :params ((:name '' @ [QUOTE] @ ''self'' @ [QUOTE] @ '' :type (:handle '' @ [QUOTE] @ ''WordBag'' @ [QUOTE] @ '')) (:name '' @ [QUOTE] @ ''word'' @ [QUOTE] @ '' :type :string))'',
      ''   :result :unit :error '' @ [QUOTE] @ ''Error'' @ [QUOTE] @ '')'',
      ''  (:fn :rust-name '' @ [QUOTE] @ ''WordBag::len'' @ [QUOTE] @ '' :lisp-name '' @ [QUOTE] @ ''word-bag-len'' @ [QUOTE] @ '' :symbol '' @ [QUOTE] @ ''word_bag_len'' @ [QUOTE],
      ''   :params ((:name '' @ [QUOTE] @ ''self'' @ [QUOTE] @ '' :type (:handle '' @ [QUOTE] @ ''WordBag'' @ [QUOTE] @ ''))) :result :u64 :error nil)'',
      ''  (:fn :rust-name '' @ [QUOTE] @ ''WordBag::slow_len'' @ [QUOTE] @ '' :lisp-name '' @ [QUOTE] @ ''word-bag-slow-len'' @ [QUOTE] @ '' :symbol '' @ [QUOTE] @ ''word_bag_slow_len'' @ [QUOTE],
      ''   :params ((:name '' @ [QUOTE] @ ''self'' @ [QUOTE] @ '' :type (:handle '' @ [QUOTE] @ ''WordBag'' @ [QUOTE] @ '')) (:name '' @ [QUOTE] @ ''millis'' @ [QUOTE] @ '' :type :u64))'',
      ''   :result :u64 :error nil'',
      ''   :doc '' @ [QUOTE] @ ''Parks the caller inside a foreign call so tests can race rulisp:free'',
      ''against an in-flight method.'' @ [QUOTE] @ '')'',
      ''  (:fn :rust-name '' @ [QUOTE] @ ''for_each_word'' @ [QUOTE] @ '' :lisp-name '' @ [QUOTE] @ ''for-each-word'' @ [QUOTE] @ '' :symbol '' @ [QUOTE] @ ''for_each_word'' @ [QUOTE],
      ''   :params ((:name '' @ [QUOTE] @ ''bag'' @ [QUOTE] @ '' :type (:handle '' @ [QUOTE] @ ''WordBag'' @ [QUOTE] @ ''))'',
      ''            (:name '' @ [QUOTE] @ ''f'' @ [QUOTE] @ '' :type (:callback :params (:string) :result :unit)))'',
      ''   :result :u64 :error '' @ [QUOTE] @ ''Error'' @ [QUOTE] @ '')'',
      ''  (:fn :rust-name '' @ [QUOTE] @ ''count_ok'' @ [QUOTE] @ '' :lisp-name '' @ [QUOTE] @ ''count-ok'' @ [QUOTE] @ '' :symbol '' @ [QUOTE] @ ''count_ok'' @ [QUOTE],
      ''   :params ((:name '' @ [QUOTE] @ ''bag'' @ [QUOTE] @ '' :type (:handle '' @ [QUOTE] @ ''WordBag'' @ [QUOTE] @ ''))'',
      ''            (:name '' @ [QUOTE] @ ''f'' @ [QUOTE] @ '' :type (:callback :params (:string) :result :unit)))'',
      ''   :result :u64 :error nil'',
      ''   :doc '' @ [QUOTE] @ ''Swallows callback failures and keeps counting: BOUNDARY '' @ [CHR 0xC2, CHR 0xA7] @ ''6.3(3), first'',
      ''sentence '' @ [CHR 0xE2, CHR 0x80, CHR 0x94] @ '' a swallowed CallbackError'' @ [CHR 0x27] @ ''s stash is discarded when the shim'',
      ''returns OK, so the caller sees a normal return, not a re-signal.'' @ [QUOTE] @ '')'',
      ''  (:fn :rust-name '' @ [QUOTE] @ ''swallow_then_fail'' @ [QUOTE] @ '' :lisp-name '' @ [QUOTE] @ ''swallow-then-fail'' @ [QUOTE] @ '' :symbol '' @ [QUOTE] @ ''swallow_then_fail'' @ [QUOTE],
      ''   :params ((:name '' @ [QUOTE] @ ''f'' @ [QUOTE] @ '' :type (:callback :params (:i64) :result :unit)))'',
      ''   :result :unit :error '' @ [QUOTE] @ ''Error'' @ [QUOTE],
      ''   :doc '' @ [QUOTE] @ ''Swallows a callback failure, then fails with its OWN error: BOUNDARY'',
      [CHR 0xC2, CHR 0xA7] @ ''6.3(3), second sentence '' @ [CHR 0xE2, CHR 0x80, CHR 0x94] @ '' the call is conservatively status 4, so the'',
      ''stashed Lisp condition re-signals instead of this error.'' @ [QUOTE] @ '')'',
      ''  (:fn :rust-name '' @ [QUOTE] @ ''WordBag::poison'' @ [QUOTE] @ '' :lisp-name '' @ [QUOTE] @ ''word-bag-poison'' @ [QUOTE] @ '' :symbol '' @ [QUOTE] @ ''word_bag_poison'' @ [QUOTE],
      ''   :params ((:name '' @ [QUOTE] @ ''self'' @ [QUOTE] @ '' :type (:handle '' @ [QUOTE] @ ''WordBag'' @ [QUOTE] @ '')))'',
      ''   :result :unit :error nil'',
      ''   :doc '' @ [QUOTE] @ ''Panics while holding the words mutex, poisoning it: BOUNDARY '' @ [CHR 0xC2, CHR 0xA7] @ ''8 '' @ [CHR 0xE2, CHR 0x80, CHR 0x94],
      ''the NEXT lock'' @ [CHR 0x27] @ ''s unwrap panics too and surfaces as status 2.'' @ [QUOTE] @ '')'',
      ''  (:fn :rust-name '' @ [QUOTE] @ ''Grenade::new'' @ [QUOTE] @ '' :lisp-name '' @ [QUOTE] @ ''make-grenade'' @ [QUOTE] @ '' :symbol '' @ [QUOTE] @ ''grenade_new'' @ [QUOTE],
      ''   :params ((:name '' @ [QUOTE] @ ''armed'' @ [QUOTE] @ '' :type :bool)) :result (:handle '' @ [QUOTE] @ ''Grenade'' @ [QUOTE] @ '') :error nil)'',
      ''  (:fn :rust-name '' @ [QUOTE] @ ''test_live_allocations'' @ [QUOTE] @ '' :lisp-name '' @ [QUOTE] @ ''test-live-allocations'' @ [QUOTE] @ '' :symbol '' @ [QUOTE] @ ''test_live_allocations'' @ [QUOTE],
      ''   :params () :result :i64 :error nil)'',
      ''  (:fn :rust-name '' @ [QUOTE] @ ''test_live_word_bags'' @ [QUOTE] @ '' :lisp-name '' @ [QUOTE] @ ''test-live-word-bags'' @ [QUOTE] @ '' :symbol '' @ [QUOTE] @ ''test_live_word_bags'' @ [QUOTE],
      ''   :params () :result :i64 :error nil)'',
      ''  (:fn :rust-name '' @ [QUOTE] @ ''test_cb_guard_drops'' @ [QUOTE] @ '' :lisp-name '' @ [QUOTE] @ ''test-cb-guard-drops'' @ [QUOTE] @ '' :symbol '' @ [QUOTE] @ ''test_cb_guard_drops'' @ [QUOTE],
      ''   :params () :result :i64 :error nil)'',
      ''  (:fn :rust-name '' @ [QUOTE] @ ''dump_prep'' @ [QUOTE] @ '' :lisp-name '' @ [QUOTE] @ ''dump-prep'' @ [QUOTE] @ '' :symbol '' @ [QUOTE] @ ''dump_prep'' @ [QUOTE],
      ''   :params ()'',
      ''   :result :unit :error '' @ [QUOTE] @ ''Error'' @ [QUOTE],
      ''   :doc '' @ [QUOTE] @ ''The crate'' @ [CHR 0x27] @ ''s declared dump hook (BOUNDARY '' @ [CHR 0xC2, CHR 0xA7] @ ''10 :on-dump). Counts its'',
      ''invocations so tests can observe the loader-driven call, and fails on'',
      ''demand so the warn-and-proceed contract is testable.'' @ [QUOTE] @ '')'',
      ''  (:fn :rust-name '' @ [QUOTE] @ ''set_dump_prep_fail'' @ [QUOTE] @ '' :lisp-name '' @ [QUOTE] @ ''set-dump-prep-fail'' @ [QUOTE] @ '' :symbol '' @ [QUOTE] @ ''set_dump_prep_fail'' @ [QUOTE],
      ''   :params ((:name '' @ [QUOTE] @ ''fail'' @ [QUOTE] @ '' :type :bool)) :result :unit :error nil)'',
      ''  (:fn :rust-name '' @ [QUOTE] @ ''test_dump_preps'' @ [QUOTE] @ '' :lisp-name '' @ [QUOTE] @ ''test-dump-preps'' @ [QUOTE] @ '' :symbol '' @ [QUOTE] @ ''test_dump_preps'' @ [QUOTE],
      ''   :params () :result :i64 :error nil)'',
      ''  (:fn :rust-name '' @ [QUOTE] @ ''WordBag::from_csv'' @ [QUOTE] @ '' :lisp-name '' @ [QUOTE] @ ''make-word-bag-from'' @ [QUOTE] @ '' :symbol '' @ [QUOTE] @ ''word_bag_from_csv'' @ [QUOTE],
      ''   :params ((:name '' @ [QUOTE] @ ''csv'' @ [QUOTE] @ '' :type :string))'',
      ''   :result (:handle '' @ [QUOTE] @ ''WordBag'' @ [QUOTE] @ '') :error nil'',
      ''   :doc '' @ [QUOTE] @ ''A second constructor. Without '' @ [CHR 0x60] @ ''name = '' @ [CHR 0xE2, CHR 0x80, CHR 0xA6, CHR 0x60] @ '' this would also be'',
      [CHR 0x60] @ ''make-word-bag'' @ [CHR 0x60] @ '', which the loader rejects as a duplicate.'' @ [QUOTE] @ '')'',
      ''  (:fn :rust-name '' @ [QUOTE] @ ''slow_sum'' @ [QUOTE] @ '' :lisp-name '' @ [QUOTE] @ ''slow-sum'' @ [QUOTE] @ '' :symbol '' @ [QUOTE] @ ''slow_sum'' @ [QUOTE],
      ''   :params ((:name '' @ [QUOTE] @ ''data'' @ [QUOTE] @ '' :type :bytes) (:name '' @ [QUOTE] @ ''millis'' @ [QUOTE] @ '' :type :u64))'',
      ''   :result :u64 :error nil'',
      ''   :doc '' @ [QUOTE] @ ''Holds a borrowed byte buffer for MILLIS: the fixture behind'',
      ''v05.pin-does-not-stop-the-world '' @ [CHR 0xE2, CHR 0x80, CHR 0x94] @ '' on a host whose '' @ [BACKSLASH, QUOTE] @ ''pin'' @ [BACKSLASH, QUOTE] @ '' inhibits GC,'',
      ''every other Lisp thread stalls for the whole call.'' @ [QUOTE] @ '')'',
      ''  (:fn :rust-name '' @ [QUOTE] @ ''slow_dot'' @ [QUOTE] @ '' :lisp-name '' @ [QUOTE] @ ''slow-dot'' @ [QUOTE] @ '' :symbol '' @ [QUOTE] @ ''slow_dot'' @ [QUOTE],
      ''   :params ((:name '' @ [QUOTE] @ ''xs'' @ [QUOTE] @ '' :type (:vec :i64)) (:name '' @ [QUOTE] @ ''millis'' @ [QUOTE] @ '' :type :u64))'',
      ''   :result :i64 :error nil'',
      ''   :doc '' @ [QUOTE] @ ''The (:vec ...) twin of slow_sum.'' @ [QUOTE] @ '')'',
      ''  (:fn :rust-name '' @ [QUOTE] @ ''opt_scale'' @ [QUOTE] @ '' :lisp-name '' @ [QUOTE] @ ''opt-scale'' @ [QUOTE] @ '' :symbol '' @ [QUOTE] @ ''opt_scale'' @ [QUOTE],
      ''   :params ((:name '' @ [QUOTE] @ ''k'' @ [QUOTE] @ '' :type (:option :f64)))'',
      ''   :result :f64 :error nil'',
      ''   :doc '' @ [QUOTE] @ ''An optional float parameter: NIL must cross as None (v0.6 '' @ [CHR 0xE2, CHR 0x80, CHR 0x94] @ '' the value'',
      ''slot carried a fixnum 0 that SBCL and CCL refuse for :double).'' @ [QUOTE] @ '')'',
      ''  (:fn :rust-name '' @ [QUOTE] @ ''opt_scale32'' @ [QUOTE] @ '' :lisp-name '' @ [QUOTE] @ ''opt-scale32'' @ [QUOTE] @ '' :symbol '' @ [QUOTE] @ ''opt_scale32'' @ [QUOTE],
      ''   :params ((:name '' @ [QUOTE] @ ''k'' @ [QUOTE] @ '' :type (:option :f32)))'',
      ''   :result :f32 :error nil'',
      ''   :doc '' @ [QUOTE] @ ''The f32 twin of opt_scale.'' @ [QUOTE] @ '')))'']"

section \<open>Expansion\<close>

text \<open>What the compiler resolves a metadata path to, once the macros have expanded every item.\<close>

definition wordbag_exports :: "(macro_error, (bytes list \<times> exported_fn) list) result" where
  "wordbag_exports =
     bindR (mapR export_free_fn wordbag_fns) (\<lambda>fs.
     bindR (export_impl (ty_name ''WordBag'') (map Some wordbag_methods)) (\<lambda>ms.
     bindR (export_impl (ty_name ''Grenade'') (map Some grenade_methods)) (\<lambda>gs.
     Inr (zip (map (\<lambda>i. [meta_const_ident (if_ident i)]) wordbag_fns) fs @
          zip (map (\<lambda>i. [''WordBag'', meta_const_ident (if_ident i)]) wordbag_methods) ms @
          zip (map (\<lambda>i. [''Grenade'', meta_const_ident (if_ident i)]) grenade_methods) gs))))"

definition path_name :: "path \<Rightarrow> bytes" where
  "path_name p = (case last_segment (snd p) of Some (Segment n args) \<Rightarrow> n | None \<Rightarrow> [])"

definition no_meta :: fn_meta where
  "no_meta = \<lparr>fm_doc = None, fm_rust_name = [], fm_lisp_name = [], fm_symbol = [], fm_params = [],
     fm_result = RUnit, fm_error = None\<rparr>"

definition meta_of :: "(macro_error, exported_fn) result \<Rightarrow> fn_meta" where
  "meta_of r = (case r of Inr f \<Rightarrow> gen_meta_const path_name f | Inl e \<Rightarrow> no_meta)"

definition meta_of_fn :: "item_fn \<Rightarrow> fn_meta" where
  "meta_of_fn i = meta_of (export_free_fn i)"

definition meta_of_method :: "bytes \<Rightarrow> item_fn \<Rightarrow> fn_meta" where
  "meta_of_method t i = meta_of (export_method (fn_path t) t i)"

text \<open>The constants the expanded items declare: a free function's in the crate, a method's in its type.\<close>

definition wordbag_const :: "bytes list \<Rightarrow> fn_meta" where
  "wordbag_const c =
     (if c = [meta_const_ident ''add''] then meta_of_fn item_add
      else if c = [meta_const_ident ''always_panic''] then meta_of_fn item_always_panic
      else if c = [meta_const_ident ''parse_number''] then meta_of_fn item_parse_number
      else if c = [meta_const_ident ''greet''] then meta_of_fn item_greet
      else if c = [meta_const_ident ''echo''] then meta_of_fn item_echo
      else if c = [meta_const_ident ''sum''] then meta_of_fn item_sum
      else if c = [meta_const_ident ''rev''] then meta_of_fn item_rev
      else if c = [meta_const_ident ''find''] then meta_of_fn item_find
      else if c = [meta_const_ident ''greet_opt''] then meta_of_fn item_greet_opt
      else if c = [meta_const_ident ''deltas''] then meta_of_fn item_deltas
      else if c = [meta_const_ident ''scale''] then meta_of_fn item_scale
      else if c = [meta_const_ident ''set_notifier''] then meta_of_fn item_set_notifier
      else if c = [meta_const_ident ''clear_notifier''] then meta_of_fn item_clear_notifier
      else if c = [meta_const_ident ''notify''] then meta_of_fn item_notify
      else if c = [meta_const_ident ''notify_from_thread''] then meta_of_fn item_notify_from_thread
      else if c = [''WordBag'', meta_const_ident ''new''] then meta_of_method ''WordBag'' item_word_bag_new
      else if c = [''WordBag'', meta_const_ident ''add''] then meta_of_method ''WordBag'' item_word_bag_add
      else if c = [''WordBag'', meta_const_ident ''len''] then meta_of_method ''WordBag'' item_word_bag_len
      else if c = [''WordBag'', meta_const_ident ''slow_len''] then meta_of_method ''WordBag'' item_word_bag_slow_len
      else if c = [meta_const_ident ''for_each_word''] then meta_of_fn item_for_each_word
      else if c = [meta_const_ident ''count_ok''] then meta_of_fn item_count_ok
      else if c = [meta_const_ident ''swallow_then_fail''] then meta_of_fn item_swallow_then_fail
      else if c = [''WordBag'', meta_const_ident ''poison''] then meta_of_method ''WordBag'' item_word_bag_poison
      else if c = [''Grenade'', meta_const_ident ''new''] then meta_of_method ''Grenade'' item_grenade_new
      else if c = [meta_const_ident ''test_live_allocations''] then meta_of_fn item_test_live_allocations
      else if c = [meta_const_ident ''test_live_word_bags''] then meta_of_fn item_test_live_word_bags
      else if c = [meta_const_ident ''test_cb_guard_drops''] then meta_of_fn item_test_cb_guard_drops
      else if c = [meta_const_ident ''dump_prep''] then meta_of_fn item_dump_prep
      else if c = [meta_const_ident ''set_dump_prep_fail''] then meta_of_fn item_set_dump_prep_fail
      else if c = [meta_const_ident ''test_dump_preps''] then meta_of_fn item_test_dump_preps
      else if c = [''WordBag'', meta_const_ident ''from_csv''] then meta_of_method ''WordBag'' item_word_bag_from_csv
      else if c = [meta_const_ident ''slow_sum''] then meta_of_fn item_slow_sum
      else if c = [meta_const_ident ''slow_dot''] then meta_of_fn item_slow_dot
      else if c = [meta_const_ident ''opt_scale''] then meta_of_fn item_opt_scale
      else if c = [meta_const_ident ''opt_scale32''] then meta_of_fn item_opt_scale32
      else no_meta)"

definition wordbag_handle_const :: "path \<Rightarrow> handle_meta" where
  "wordbag_handle_const p =
     handle_meta_of (case map_of wordbag_handle_docs (path_name p) of Some attrs \<Rightarrow> attrs | None \<Rightarrow> []) (path_name p)"

definition wordbag_manifest :: "bytes \<Rightarrow> bytes \<Rightarrow> bytes \<Rightarrow> (macro_error, bytes) result" where
  "wordbag_manifest rulisp_version target version =
     module_manifest rulisp_version target ''wordbag'' version wordbag_const wordbag_handle_const wordbag_module"

lemma path_const [simp]:
  "meta_path (fn_path f) = Inr [meta_const_ident f]"
  "meta_path (method_path t m) = Inr [t, meta_const_ident m]"
  by (simp_all add: meta_path_def fn_path_def method_path_def)

definition wordbag_metas :: "fn_meta list" where
  "wordbag_metas =
     [meta_of_fn item_add, meta_of_fn item_always_panic, meta_of_fn item_parse_number,
      meta_of_fn item_greet, meta_of_fn item_echo, meta_of_fn item_sum, meta_of_fn item_rev,
      meta_of_fn item_find, meta_of_fn item_greet_opt, meta_of_fn item_deltas, meta_of_fn item_scale,
      meta_of_fn item_set_notifier, meta_of_fn item_clear_notifier, meta_of_fn item_notify,
      meta_of_fn item_notify_from_thread, meta_of_method ''WordBag'' item_word_bag_new,
      meta_of_method ''WordBag'' item_word_bag_add, meta_of_method ''WordBag'' item_word_bag_len,
      meta_of_method ''WordBag'' item_word_bag_slow_len, meta_of_fn item_for_each_word,
      meta_of_fn item_count_ok, meta_of_fn item_swallow_then_fail,
      meta_of_method ''WordBag'' item_word_bag_poison, meta_of_method ''Grenade'' item_grenade_new,
      meta_of_fn item_test_live_allocations, meta_of_fn item_test_live_word_bags,
      meta_of_fn item_test_cb_guard_drops, meta_of_fn item_dump_prep,
      meta_of_fn item_set_dump_prep_fail, meta_of_fn item_test_dump_preps,
      meta_of_method ''WordBag'' item_word_bag_from_csv, meta_of_fn item_slow_sum,
      meta_of_fn item_slow_dot, meta_of_fn item_opt_scale, meta_of_fn item_opt_scale32]"

lemma wordbag_resolved:
  "\<exists>cs. mapR meta_path (mi_fns wordbag_module) = Inr cs \<and> map wordbag_const cs = wordbag_metas"
  by (simp add: wordbag_module_def wordbag_metas_def wordbag_const_def meta_const_ident_def upcase_def)

lemma wordbag_rendered:
  "render_manifest ''0.4.0'' ''x86_64-unknown-linux-gnu'' ''wordbag'' ''0.1.0'' (crate_prefix ''wordbag'')
     (mi_on_dump wordbag_module) (map wordbag_handle_const (mi_handles wordbag_module)) wordbag_metas =
   join [LF] GOLDEN @ [LF]"
  by code_simp

lemma wordbag_guards:
  "mi_name wordbag_module = ''wordbag''" "mi_on_dump wordbag_module = Some ''dump_prep''"
  "list_ex (\<lambda>p. is_ident (fst p) (snd p) ''dump_prep'') (mi_fns wordbag_module)"
  by code_simp+

lemma wordbag_hook: "fm_params (wordbag_const [meta_const_ident ''dump_prep'']) = []"
proof -
  have "wordbag_const [meta_const_ident ''dump_prep''] = meta_of_fn item_dump_prep"
    by (simp add: wordbag_const_def meta_const_ident_def upcase_def)
  moreover have "fm_params (meta_of_fn item_dump_prep) = []" by code_simp
  ultimately show ?thesis by simp
qed

text \<open>
  (C17) The whole pipeline reproduces the golden file: expanding every item of the crate through the export
  macros and the \<^verbatim>\<open>module!\<close> declaration through the renderer yields, octet for octet, the manifest that
  \<^verbatim>\<open>tests/golden/wordbag.manifest.sexp\<close> pins.
\<close>

theorem wordbag_manifest_golden:
  "wordbag_manifest ''0.4.0'' ''x86_64-unknown-linux-gnu'' ''0.1.0'' = Inr (join [LF] GOLDEN @ [LF])"
proof -
  obtain cs where cs: "mapR meta_path (mi_fns wordbag_module) = Inr cs" "map wordbag_const cs = wordbag_metas"
    using wordbag_resolved by blast
  show ?thesis
    using wordbag_rendered wordbag_guards wordbag_hook
    by (simp add: wordbag_manifest_def module_manifest_def cs)
qed

end
