(* ===== verification/Wordbag_Calls.thy ===== *)
theory Wordbag_Calls
  imports Wordbag_Module
begin

text \<open>
  Calls into the \<^verbatim>\<open>wordbag\<close> library: each export's Rust function behind the shim the macros generate for
  it, the free shims, and the states that any sequence of them can reach.
\<close>

section \<open>The functions behind the shims\<close>

definition un64 :: "bytes \<Rightarrow> 64 word" where
  "un64 bs = of_nat (foldr (\<lambda>c n. code c + 256 * n) bs 0)"

lemma un64_le64 [simp]: "un64 (le64 w) = w"
proof -
  have "unat w < 256 ^ 8" using unsigned_less [of w] by simp
  then have top: "unat w div 256 ^ 8 = 0" by (rule div_less)
  have "foldr (\<lambda>c n. code c + 256 * n) (map (\<lambda>i. octet (x div 256 ^ i mod 256)) [0..<k]) 0 + x div 256 ^ k * 256 ^ k = x"
    for x k :: nat
  proof (induction k arbitrary: x)
    case (Suc k)
    let ?F = "\<lambda>y k. foldr (\<lambda>c n. code c + 256 * n) (map (\<lambda>i. octet (y div 256 ^ i mod 256)) [0..<k]) (0::nat)"
    have "?F x (Suc k) = x mod 256 + 256 * ?F (x div 256) k"
      by (simp add: upt_conv_Cons map_Suc_upt [symmetric] o_def div_mult2_eq del: upt_Suc)
    moreover have "x div 256 ^ Suc k = x div 256 div 256 ^ k" by (simp add: div_mult2_eq)
    ultimately have "?F x (Suc k) + x div 256 ^ Suc k * 256 ^ Suc k =
        x mod 256 + 256 * (?F (x div 256) k + x div 256 div 256 ^ k * 256 ^ k)"
      by (simp add: algebra_simps)
    also have "\<dots> = x mod 256 + 256 * (x div 256)" by (simp only: Suc.IH)
    finally show ?case by simp
  qed simp
  from this [of "unat w" 8] top show ?thesis by (simp add: un64_def le64_def)
qed

record wb_env =
  overflow_checks :: bool
  alt_greeting :: bool
  debug_str :: "bytes \<Rightarrow> bytes"
  mul_f64 :: "bytes \<Rightarrow> bytes \<Rightarrow> bytes"
  lisp :: closure
  str_addr :: "bytes \<Rightarrow> ptr"

type_synonym wb_result = "(payload, (bytes, wb_object rval) result) result \<times> wordbag"

definition num :: "64 word \<Rightarrow> wb_object rval" where
  "num w = VScalar (le64 w)"

definition ret :: "wb_object rval \<Rightarrow> wordbag \<Rightarrow> wb_result" where
  "ret v s = (Inr (Inr v), s)"

definition ret_or_panic :: "('a \<Rightarrow> wb_object rval) \<Rightarrow> (payload, 'a) result \<Rightarrow> wordbag \<Rightarrow> wb_result" where
  "ret_or_panic k r s = (case r of Inl p \<Rightarrow> (Inl p, s) | Inr x \<Rightarrow> ret (k x) s)"

definition ret_or_err :: "('e \<Rightarrow> bytes) \<Rightarrow> ('a \<Rightarrow> wb_object rval) \<Rightarrow> ('e, 'a) result \<Rightarrow> wordbag \<Rightarrow> wb_result" where
  "ret_or_err str k r s = (case r of Inl e \<Rightarrow> (Inr (Inl (str e)), s) | Inr x \<Rightarrow> ret (k x) s)"

text \<open>Arguments of other types or a handle of the other class never arrive: the shim decodes them by the
  signature and the Lisp wrapper checks the class.\<close>

definition ill_typed :: "wordbag \<Rightarrow> wb_result" where
  "ill_typed s = (Inl OtherPayload, s)"

definition with_bag :: "ptr \<Rightarrow> wordbag \<Rightarrow> (word_bag \<Rightarrow> wb_result) \<Rightarrow> wb_result" where
  "with_bag p s k = (case handle_ref p s of Some (BagObj b) \<Rightarrow> k b | _ \<Rightarrow> ill_typed s)"

definition put_bag :: "ptr \<Rightarrow> word_bag \<Rightarrow> wordbag \<Rightarrow> wordbag" where
  "put_bag p b s = s\<lparr>handles := (handles s)(p \<mapsto> BagObj b)\<rparr>"

definition wordbag_table ::
  "wb_env \<Rightarrow> tid \<Rightarrow> (bytes \<times> (wb_object rval list \<Rightarrow> wordbag \<Rightarrow> wb_result)) list" where
  "wordbag_table env t =
    [(''add'', \<lambda>vs s. case vs of [VScalar a, VScalar b] \<Rightarrow> ret (num (add (un64 a) (un64 b))) s | _ \<Rightarrow> ill_typed s),
     (''always_panic'', \<lambda>vs s. ret_or_panic (\<lambda>_. VUnit) always_panic s),
     (''parse_number'', \<lambda>vs s. case vs of [VStr x] \<Rightarrow>
        ret_or_err (parse_error_string (debug_str env)) num (parse_number x) s | _ \<Rightarrow> ill_typed s),
     (''greet'', \<lambda>vs s. case vs of [VStr x] \<Rightarrow> ret (VStr (greet (alt_greeting env) x)) s | _ \<Rightarrow> ill_typed s),
     (''echo'', \<lambda>vs s. case vs of [VStr x] \<Rightarrow> ret (VStr (echo x)) s | _ \<Rightarrow> ill_typed s),
     (''sum'', \<lambda>vs s. case vs of [VBytes x] \<Rightarrow> ret_or_panic num (sum_bytes (overflow_checks env) x) s | _ \<Rightarrow> ill_typed s),
     (''rev'', \<lambda>vs s. case vs of [VBytes x] \<Rightarrow> ret (VBytes (rev_bytes x)) s | _ \<Rightarrow> ill_typed s),
     (''find'', \<lambda>vs s. case vs of [VBytes x, VScalar [b]] \<Rightarrow> ret (VOpt (map_option num (find_byte x b))) s | _ \<Rightarrow> ill_typed s),
     (''greet_opt'', \<lambda>vs s. case vs of
        [VOpt None] \<Rightarrow> ret (VStr (greet_opt None)) s
      | [VOpt (Some (VStr n))] \<Rightarrow> ret (VStr (greet_opt (Some n))) s
      | _ \<Rightarrow> ill_typed s),
     (''deltas'', \<lambda>vs s. case vs of [VVec xs] \<Rightarrow>
        ret_or_panic (\<lambda>ys. VVec (map le64 ys)) (deltas (overflow_checks env) (map un64 xs)) s | _ \<Rightarrow> ill_typed s),
     (''scale'', \<lambda>vs s. case vs of [VVec xs, VScalar k] \<Rightarrow> ret (VVec (scale (mul_f64 env) xs k)) s | _ \<Rightarrow> ill_typed s),
     (''set_notifier'', \<lambda>vs s. case vs of [VStored f] \<Rightarrow> ret VUnit (set_notifier f s) | _ \<Rightarrow> ill_typed s),
     (''clear_notifier'', \<lambda>vs s. ret VUnit (clear_notifier s)),
     (''notify'', \<lambda>vs s. case vs of [VScalar x] \<Rightarrow>
        (case notify (lisp env) (un64 x) s of (r, s') \<Rightarrow> ret_or_err error_string (\<lambda>_. VUnit) r s') | _ \<Rightarrow> ill_typed s),
     (''notify_from_thread'', \<lambda>vs s. case vs of [VScalar x] \<Rightarrow>
        (case notify_from_thread (lisp env) (un64 x) s of (r, s') \<Rightarrow> ret_or_err error_string (\<lambda>_. VUnit) r s') | _ \<Rightarrow> ill_typed s),
     (''word_bag_new'', \<lambda>vs s. case word_bag_new s of (b, s') \<Rightarrow> ret (VObject (BagObj b)) s'),
     (''word_bag_add'', \<lambda>vs s. case vs of [VHandleRef p, VStr w] \<Rightarrow>
        with_bag p s (\<lambda>b. case word_bag_add w b of
           Inl pl \<Rightarrow> (Inl pl, s)
         | Inr (Inl e) \<Rightarrow> (Inr (Inl (error_string e)), s)
         | Inr (Inr b') \<Rightarrow> ret VUnit (put_bag p b' s)) | _ \<Rightarrow> ill_typed s),
     (''word_bag_len'', \<lambda>vs s. case vs of [VHandleRef p] \<Rightarrow>
        with_bag p s (\<lambda>b. ret_or_panic num (word_bag_len b) s) | _ \<Rightarrow> ill_typed s),
     (''word_bag_slow_len'', \<lambda>vs s. case vs of [VHandleRef p, VScalar ms] \<Rightarrow>
        with_bag p s (\<lambda>b. ret_or_panic num (word_bag_slow_len b (un64 ms)) s) | _ \<Rightarrow> ill_typed s),
     (''for_each_word'', \<lambda>vs s. case vs of [VHandleRef p, VCallback f] \<Rightarrow>
        with_bag p s (\<lambda>b. case for_each_word t (lisp env) (str_addr env) b f s of
           (Inl pl, s') \<Rightarrow> (Inl pl, s')
         | (Inr r, s') \<Rightarrow> ret_or_err error_string num r s') | _ \<Rightarrow> ill_typed s),
     (''count_ok'', \<lambda>vs s. case vs of [VHandleRef p, VCallback f] \<Rightarrow>
        with_bag p s (\<lambda>b. case count_ok t (lisp env) (str_addr env) b f s of
           (r, s') \<Rightarrow> ret_or_panic num r s') | _ \<Rightarrow> ill_typed s),
     (''swallow_then_fail'', \<lambda>vs s. case vs of [VCallback f] \<Rightarrow>
        (case swallow_then_fail t (lisp env) f s of (r, s') \<Rightarrow> ret_or_err error_string (\<lambda>_. VUnit) r s') | _ \<Rightarrow> ill_typed s),
     (''word_bag_poison'', \<lambda>vs s. case vs of [VHandleRef p] \<Rightarrow>
        with_bag p s (\<lambda>b. case word_bag_poison b of (pl, b') \<Rightarrow> (Inl pl, put_bag p b' s)) | _ \<Rightarrow> ill_typed s),
     (''grenade_new'', \<lambda>vs s. case vs of [VBool armed] \<Rightarrow> ret (VObject (GrenadeObj (grenade_new armed))) s | _ \<Rightarrow> ill_typed s),
     (''test_live_allocations'', \<lambda>vs s. ret (num (test_live_allocations s)) s),
     (''test_live_word_bags'', \<lambda>vs s. ret (num (test_live_word_bags s)) s),
     (''test_cb_guard_drops'', \<lambda>vs s. ret (num (test_cb_guard_drops s)) s),
     (''dump_prep'', \<lambda>vs s. case dump_prep s of (r, s') \<Rightarrow> ret_or_err error_string (\<lambda>_. VUnit) r s'),
     (''set_dump_prep_fail'', \<lambda>vs s. case vs of [VBool fail] \<Rightarrow> ret VUnit (set_dump_prep_fail fail s) | _ \<Rightarrow> ill_typed s),
     (''test_dump_preps'', \<lambda>vs s. ret (num (test_dump_preps s)) s),
     (''word_bag_from_csv'', \<lambda>vs s. case vs of [VStr csv] \<Rightarrow>
        (case word_bag_from_csv csv s of (r, s') \<Rightarrow> ret_or_panic (\<lambda>b. VObject (BagObj b)) r s') | _ \<Rightarrow> ill_typed s),
     (''slow_sum'', \<lambda>vs s. case vs of [VBytes x, VScalar ms] \<Rightarrow>
        ret_or_panic num (slow_sum (overflow_checks env) x (un64 ms)) s | _ \<Rightarrow> ill_typed s),
     (''slow_dot'', \<lambda>vs s. case vs of [VVec xs, VScalar ms] \<Rightarrow>
        ret_or_panic num (slow_dot (overflow_checks env) (map un64 xs) (un64 ms)) s | _ \<Rightarrow> ill_typed s),
     (''opt_scale'', \<lambda>vs s. case vs of
        [VOpt None] \<Rightarrow> ret (VScalar (opt_scale (le64 0xBFF0000000000000) None)) s
      | [VOpt (Some (VScalar k))] \<Rightarrow> ret (VScalar (opt_scale (le64 0xBFF0000000000000) (Some k))) s
      | _ \<Rightarrow> ill_typed s),
     (''opt_scale32'', \<lambda>vs s. case vs of
        [VOpt None] \<Rightarrow> ret (VScalar (opt_scale (take 4 (le64 0xBF800000)) None)) s
      | [VOpt (Some (VScalar k))] \<Rightarrow> ret (VScalar (opt_scale (take 4 (le64 0xBF800000)) (Some k))) s
      | _ \<Rightarrow> ill_typed s)]"

section \<open>Reachable states\<close>

text \<open>
  A call: the export's shim runs on the words Lisp passed.  \<open>fresh\<close> is where the allocator places the
  next object: an address not in use, as long as there is one (otherwise the process is aborted).
\<close>

definition fresh_ok :: "(wordbag \<Rightarrow> ptr) \<Rightarrow> bool" where
  "fresh_ok fresh \<longleftrightarrow> (\<forall>s. dom (handles s) \<noteq> UNIV \<longrightarrow> handles s (fresh s) = None)"

inductive wb_step :: "wb_env \<Rightarrow> wordbag \<Rightarrow> wordbag \<Rightarrow> bool" for env where
  call:
    "wordbag_exports = Inr fs \<Longrightarrow> (c, f) \<in> set fs \<Longrightarrow> gen_fn ''wordbag'' f = Inr d \<Longrightarrow>
     map_of (wordbag_table env t) (ef_symbol f) = Some user \<Longrightarrow> fresh_ok fresh \<Longrightarrow>
     run_shim t fresh m d user ws s = Some (status, outs, s') \<Longrightarrow> dom (handles s') \<noteq> UNIV \<Longrightarrow>
     wb_step env s s'"
| free:
    "free_shim wb_drop p s = Some (panicked, s') \<Longrightarrow> wb_step env s s'"
| release:
    "dealloc p n al s = Some s' \<Longrightarrow> wb_step env s s'"

inductive wb_reach :: "wb_env \<Rightarrow> wordbag \<Rightarrow> bool" for env where
  start: "wb_reach env init_wordbag"
| step: "wb_reach env s \<Longrightarrow> wb_step env s s' \<Longrightarrow> wb_reach env s'"

section \<open>Counting the live bags\<close>

definition bags :: "wordbag \<Rightarrow> ptr set" where
  "bags s = {p. \<exists>b. handles s p = Some (BagObj b)}"

definition bag_result :: "(payload, (bytes, wb_object rval) result) result \<Rightarrow> bool" where
  "bag_result r \<longleftrightarrow> (\<exists>b. r = Inr (Inr (VObject (BagObj b))))"

definition object_result :: "(payload, (bytes, wb_object rval) result) result \<Rightarrow> bool" where
  "object_result r \<longleftrightarrow> (\<exists>h. r = Inr (Inr (VObject h)))"

definition counted :: "nat \<Rightarrow> wordbag \<Rightarrow> bool" where
  "counted k s \<longleftrightarrow> finite (dom (handles s)) \<and> LIVE_WORD_BAGS s = of_nat (card (bags s) + k)"

definition CTORS :: "bytes list" where
  "CTORS = [''word_bag_new'', ''grenade_new'', ''word_bag_from_csv'']"

lemma bags_cong: "handles s' = handles s \<Longrightarrow> bags s' = bags s"
  by (simp add: bags_def)

lemma counted_cong:
  "handles s' = handles s \<Longrightarrow> LIVE_WORD_BAGS s' = LIVE_WORD_BAGS s \<Longrightarrow> counted k s' = counted k s"
  by (simp add: counted_def bags_def)

lemma bags_live [simp]: "bags (s\<lparr>LIVE_WORD_BAGS := x\<rparr>) = bags s"
  by (simp add: bags_def)

lemma finite_bags: "finite (dom (handles s)) \<Longrightarrow> finite (bags s)"
  by (rule finite_subset [of _ "dom (handles s)"]) (auto simp: bags_def)

lemma counted_put_bag:
  assumes "handle_ref p s = Some (BagObj b)"
  shows "counted k (put_bag p b' s) = counted k s"
proof -
  have "bags (put_bag p b' s) = bags s" "dom (handles (put_bag p b' s)) = dom (handles s)"
    using assms by (auto simp: bags_def put_bag_def handle_ref_def)
  then show ?thesis by (simp add: counted_def put_bag_def)
qed

definition closure_ok :: "closure \<Rightarrow> bool" where
  "closure_ok tramp \<longleftrightarrow> (\<forall>f u ws s. counted 0 s \<longrightarrow> counted 0 (snd (tramp f u ws s)))"

lemma counted_tunnel [simp]:
  "counted k (set_callback_tunnel t s) = counted k s"
  "counted k (clear_callback_tunnel t s) = counted k s"
  by (simp_all add: counted_def bags_def set_callback_tunnel_def clear_callback_tunnel_def)

lemma counted_callback:
  assumes "closure_ok tramp" "counted 0 s"
  shows "callback_call t tramp f a s = (r, s') \<Longrightarrow> counted 0 s'"
    and "stored_call tramp g a s = (q, s') \<Longrightarrow> counted 0 s'"
proof -
  have 1: "counted 0 (snd (tramp x u ws s))" for x u ws
    using assms by (simp add: closure_ok_def)
  show "counted 0 s'" if "callback_call t tramp f a s = (r, s')"
    using 1 [of "cb_fnptr f" "cb_userdata f" "cb_encode a"] that
    by (auto simp: callback_call_def invoke_def split: prod.splits if_splits)
  show "counted 0 s'" if "stored_call tramp g a s = (q, s')"
    using 1 [of "sc_fnptr g" "sc_id g" "cb_encode a"] that
    by (auto simp: stored_call_def invoke_def split: prod.splits if_splits)
qed

lemma counted_count_loop:
  "closure_ok tramp \<Longrightarrow> counted 0 s \<Longrightarrow> count_loop t tramp addr f ws ok s = (n, s') \<Longrightarrow> counted 0 s'"
  by (induction ws arbitrary: ok s)
     (auto split: prod.splits sum.splits dest: counted_callback)

lemma counted_each_loop:
  "closure_ok tramp \<Longrightarrow> counted 0 s \<Longrightarrow> each_loop t tramp addr f ws s = (r, s') \<Longrightarrow> counted 0 s'"
  by (induction ws arbitrary: s)
     (auto split: prod.splits sum.splits dest: counted_callback)

text \<open>A function keeps the count: the bag it returns, if any, is counted but not yet in the table.\<close>

definition good :: "bool \<Rightarrow> wb_result \<Rightarrow> bool" where
  "good ctor res \<longleftrightarrow>
     counted (if bag_result (fst res) then 1 else 0) (snd res) \<and> (object_result (fst res) \<longrightarrow> ctor)"

definition keeps :: "bool \<Rightarrow> (wb_object rval list \<Rightarrow> wordbag \<Rightarrow> wb_result) \<Rightarrow> bool" where
  "keeps ctor f \<longleftrightarrow> (\<forall>vs s. counted 0 s \<longrightarrow> good ctor (f vs s))"

lemma result_simps_num [simp]:
  "\<not> bag_result (Inl p)" "\<not> bag_result (Inr (Inl e))" "bag_result (Inr (Inr v)) \<longleftrightarrow> (\<exists>b. v = VObject (BagObj b))"
  "\<not> object_result (Inl p)" "\<not> object_result (Inr (Inl e))" "object_result (Inr (Inr v)) \<longleftrightarrow> (\<exists>h. v = VObject h)"
  "num w \<noteq> VObject h"
  by (auto simp: bag_result_def object_result_def num_def)

lemma counted_statics [simp]:
  "counted k (s\<lparr>NOTIFIER := x\<rparr>) = counted k s" "counted k (s\<lparr>DUMP_PREPS := y\<rparr>) = counted k s"
  "counted k (s\<lparr>DUMP_PREP_FAIL := y\<rparr>) = counted k s" "counted k (s\<lparr>CB_GUARD_DROPS := y\<rparr>) = counted k s"
  "counted (Suc k) (s\<lparr>LIVE_WORD_BAGS := LIVE_WORD_BAGS s + 1\<rparr>) = counted k s"
  by (simp_all add: counted_def bags_def)

lemma counted_callers:
  assumes "closure_ok tramp" "counted 0 s"
  shows "notify tramp x s = (q, s') \<Longrightarrow> counted 0 s'"
    and "notify_from_thread tramp x s = (q, s') \<Longrightarrow> counted 0 s'"
    and "swallow_then_fail t tramp f s = (q, s') \<Longrightarrow> counted 0 s'"
    and "count_ok t tramp addr b f s = (n, s') \<Longrightarrow> counted 0 s'"
    and "for_each_word t tramp addr b f s = (w, s') \<Longrightarrow> counted 0 s'"
proof -
  note cb = counted_callback [OF assms]
  show "notify tramp x s = (q, s') \<Longrightarrow> counted 0 s'"
    using assms(2) by (auto simp: notify_def split: sum.splits prod.splits dest: cb(2))
  show "notify_from_thread tramp x s = (q, s') \<Longrightarrow> counted 0 s'"
    using assms(2) by (auto simp: notify_from_thread_def split: sum.splits prod.splits dest: cb(2))
  show "swallow_then_fail t tramp f s = (q, s') \<Longrightarrow> counted 0 s'"
    using cb(1) [OF surjective_pairing] by (auto simp: swallow_then_fail_def)
  show "count_ok t tramp addr b f s = (n, s') \<Longrightarrow> counted 0 s'"
    using assms(2) counted_count_loop [OF assms]
    by (auto simp: count_ok_def split: sum.splits prod.splits)
  show "for_each_word t tramp addr b f s = (w, s') \<Longrightarrow> counted 0 s'"
    using assms(2) counted_each_loop [OF assms]
    by (auto simp: for_each_word_def cb_guard_drop_def split: sum.splits prod.splits)
qed

lemma good_simps [simp]:
  "good c (ret v s) \<longleftrightarrow>
     (case v of VObject (BagObj b) \<Rightarrow> c \<and> counted 1 s | VObject _ \<Rightarrow> c \<and> counted 0 s | _ \<Rightarrow> counted 0 s)"
  "good c (ill_typed s) \<longleftrightarrow> counted 0 s"
  "good c (Inl p, s) \<longleftrightarrow> counted 0 s"
  "good c (Inr (Inl e), s) \<longleftrightarrow> counted 0 s"
  "good c (ret_or_panic k q s) \<longleftrightarrow> (case q of Inl p \<Rightarrow> counted 0 s | Inr x \<Rightarrow> good c (ret (k x) s))"
  "good c (ret_or_err str k e0 s) \<longleftrightarrow> (case e0 of Inl x \<Rightarrow> counted 0 s | Inr x \<Rightarrow> good c (ret (k x) s))"
  by (auto simp: good_def ret_def ill_typed_def ret_or_panic_def ret_or_err_def
      split: rval.split wb_object.split sum.split)

lemma good_num [simp]: "good c (ret (num w) s) \<longleftrightarrow> counted 0 s"
  by (simp add: num_def)

lemma good_pair [simp]:
  "(case r of Inl p \<Rightarrow> counted 0 s | Inr x \<Rightarrow> counted 0 s) \<longleftrightarrow> counted 0 s"
  by (simp split: sum.split)

lemma good_with_bag:
  assumes "counted 0 s" "\<And>b. handle_ref p s = Some (BagObj b) \<Longrightarrow> good c (k b)"
  shows "good c (with_bag p s k)"
  using assms by (simp add: with_bag_def split: option.split wb_object.split)

lemma bag_fns_good:
  assumes "closure_ok (lisp env)" "counted 0 s"
  shows "good c (with_bag p s (\<lambda>b. case word_bag_add w b of
           Inl pl \<Rightarrow> (Inl pl, s)
         | Inr (Inl e) \<Rightarrow> (Inr (Inl (error_string e)), s)
         | Inr (Inr b') \<Rightarrow> ret VUnit (put_bag p b' s)))"
    and "good c (with_bag p s (\<lambda>b. ret_or_panic num (g b) s))"
    and "good c (with_bag p s (\<lambda>b. case for_each_word t (lisp env) (str_addr env) b f s of
           (Inl pl, s') \<Rightarrow> (Inl pl, s')
         | (Inr r, s') \<Rightarrow> ret_or_err error_string num r s'))"
    and "good c (with_bag p s (\<lambda>b. case count_ok t (lisp env) (str_addr env) b f s of
           (r, s') \<Rightarrow> ret_or_panic num r s'))"
    and "good c (with_bag p s (\<lambda>b. case word_bag_poison b of (pl, b') \<Rightarrow> (Inl pl, put_bag p b' s)))"
proof -
  note callers = counted_callers [OF assms]
  show "good c (with_bag p s (\<lambda>b. case word_bag_add w b of
           Inl pl \<Rightarrow> (Inl pl, s)
         | Inr (Inl e) \<Rightarrow> (Inr (Inl (error_string e)), s)
         | Inr (Inr b') \<Rightarrow> ret VUnit (put_bag p b' s)))"
    using assms(2) by (auto intro!: good_with_bag simp: counted_put_bag split: sum.split)
  show "good c (with_bag p s (\<lambda>b. ret_or_panic num (g b) s))"
    using assms(2) by (auto intro!: good_with_bag simp: num_def split: sum.split)
  show "good c (with_bag p s (\<lambda>b. case for_each_word t (lisp env) (str_addr env) b f s of
           (Inl pl, s') \<Rightarrow> (Inl pl, s')
         | (Inr r, s') \<Rightarrow> ret_or_err error_string num r s'))"
    using assms(2) callers(5) by (auto intro!: good_with_bag simp: num_def split: sum.split prod.split)
  show "good c (with_bag p s (\<lambda>b. case count_ok t (lisp env) (str_addr env) b f s of
           (r, s') \<Rightarrow> ret_or_panic num r s'))"
    using assms(2) callers(4) by (auto intro!: good_with_bag simp: num_def split: sum.split prod.split)
  show "good c (with_bag p s (\<lambda>b. case word_bag_poison b of (pl, b') \<Rightarrow> (Inl pl, put_bag p b' s)))"
    using assms(2) by (auto intro!: good_with_bag simp: counted_put_bag split: prod.split)
qed

lemma caller_fns_good:
  assumes "closure_ok (lisp env)" "counted 0 s"
  shows "good c (case notify (lisp env) x s of (r, s') \<Rightarrow> ret_or_err error_string (\<lambda>_. VUnit) r s')"
    and "good c (case notify_from_thread (lisp env) x s of (r, s') \<Rightarrow> ret_or_err error_string (\<lambda>_. VUnit) r s')"
    and "good c (case swallow_then_fail t (lisp env) f s of (r, s') \<Rightarrow> ret_or_err error_string (\<lambda>_. VUnit) r s')"
  using counted_callers(1-3) [OF assms] by (auto split: prod.split sum.split)

lemma static_fns_good:
  assumes "counted 0 s"
  shows "good c (case dump_prep s of (r, s') \<Rightarrow> ret_or_err error_string (\<lambda>_. VUnit) r s')"
    and "good True (case word_bag_new s of (b, s') \<Rightarrow> ret (VObject (BagObj b)) s')"
    and "good True (case word_bag_from_csv csv s of (r, s') \<Rightarrow> ret_or_panic (\<lambda>b. VObject (BagObj b)) r s')"
    and "counted 0 (set_notifier n s)" "counted 0 (clear_notifier s)" "counted 0 (set_dump_prep_fail d s)"
  using assms
  by (simp_all add: dump_prep_def word_bag_new_def word_bag_from_csv_def lock_words_def Let_def
      set_notifier_def clear_notifier_def set_dump_prep_fail_def)

lemma wordbag_table_keeps:
  assumes "closure_ok (lisp env)"
  shows "list_all (\<lambda>(n, f). keeps (n \<in> set CTORS) f) (wordbag_table env t)"
  unfolding wordbag_table_def list.pred_inject prod.case keeps_def
  by (intro conjI TrueI allI impI;
      simp add: CTORS_def bag_fns_good [OF assms] caller_fns_good [OF assms] static_fns_good num_def
        split: list.split rval.split option.split sum.split)

lemma wordbag_user_keeps:
  "closure_ok (lisp env) \<Longrightarrow> map_of (wordbag_table env t) n = Some f \<Longrightarrow> keeps (n \<in> set CTORS) f"
  using wordbag_table_keeps [of env t] by (fastforce simp: list_all_iff dest: map_of_SomeD)

fun is_handle_result :: "rty \<Rightarrow> bool" where
  "is_handle_result (RTHandle p) = True"
| "is_handle_result _ = False"

lemma wordbag_ctors_return_handles:
  assumes "wordbag_exports = Inr fs" "(c, f) \<in> set fs" "ef_symbol f \<in> set CTORS"
  shows "is_handle_result (ef_result f)"
proof -
  have "case wordbag_exports of Inl e \<Rightarrow> True
    | Inr fs \<Rightarrow> list_all (\<lambda>(c, f). ef_symbol f \<in> set CTORS \<longrightarrow> is_handle_result (ef_result f)) fs"
    by code_simp
  then have "list_all (\<lambda>(c, f). ef_symbol f \<in> set CTORS \<longrightarrow> is_handle_result (ef_result f)) fs"
    unfolding assms(1) sum.case .
  then have "\<forall>(c, f)\<in>set fs. ef_symbol f \<in> set CTORS \<longrightarrow> is_handle_result (ef_result f)"
    unfolding list_all_iff .
  with assms(2,3) show ?thesis by blast
qed

section \<open>The shim around a function\<close>

lemma counted_last_error [simp]: "counted k (set_last_error t e m s) = counted k s"
  by (simp add: counted_def bags_def set_last_error_def)

lemma counted_prelude: "prelude t m p ws s = Some (r, s') \<Longrightarrow> counted k s' = counted k s"
  by (auto simp: prelude_def str_value_def str_arg_def
      split: pty.splits list.splits wire.splits option.splits sum.splits if_splits)

lemma counted_preludes: "preludes t m ps ws s = Some (r, s') \<Longrightarrow> counted k s' = counted k s"
proof (induction ps arbitrary: ws s r s')
  case (Cons a ps)
  obtain name p where a: "a = (name, p)" by (cases a)
  from Cons.prems obtain q s1 where q: "prelude t m p (take (length (extern_params name p)) ws) s = Some (q, s1)"
    by (auto simp: a Let_def split: option.splits)
  from q have s1: "counted k s1 = counted k s" by (rule counted_prelude)
  show ?case
  proof (cases q)
    case (Inl e)
    with Cons.prems q s1 show ?thesis by (simp add: a Let_def)
  next
    case (Inr v)
    with Cons.prems q obtain r' where "preludes t m ps (List.drop (length (extern_params name p)) ws) s1 = Some (r', s')"
      by (auto simp: a Let_def split: option.splits)
    then show ?thesis using Cons.IH s1 by blast
  qed
qed (auto split: if_splits)

lemma counted_buffers:
  "string_into_raw q x s = (r, s') \<Longrightarrow> counted k s' = counted k s"
  "bytes_into_raw q x s = (r, s') \<Longrightarrow> counted k s' = counted k s"
  "vec_into_raw sz al q es s = (r, s') \<Longrightarrow> counted k s' = counted k s"
  by (auto simp: string_into_raw_def bytes_into_raw_def vec_into_raw_def counted_def bags_def Let_def split: if_splits)

lemma counted_handle_new:
  assumes "handles s p = None"
  shows "counted 0 (s\<lparr>handles := (handles s)(p \<mapsto> h)\<rparr>) =
    counted (case h of BagObj b \<Rightarrow> 1 | GrenadeObj a \<Rightarrow> 0) s"
proof (cases h)
  case (BagObj b)
  have "bags (s\<lparr>handles := (handles s)(p \<mapsto> BagObj b)\<rparr>) = insert p (bags s)" "p \<notin> bags s"
    using assms by (auto simp: bags_def)
  with BagObj show ?thesis
    by (auto simp: counted_def finite_bags)
next
  case (GrenadeObj a)
  have "bags (s\<lparr>handles := (handles s)(p \<mapsto> GrenadeObj a)\<rparr>) = bags s"
    using assms by (auto simp: bags_def)
  with GrenadeObj show ?thesis by (simp add: counted_def)
qed

lemma counted_write_ok:
  assumes "write_ok fresh r v s = Some (outs, s')" "fresh_ok fresh"
    and "counted (if bag_result (Inr (Inr v)) then 1 else 0) s"
    and "object_result (Inr (Inr v)) \<longrightarrow> is_handle_result r" "dom (handles s') \<noteq> UNIV"
  shows "counted 0 s'"
proof (cases r)
  case (RTHandle path)
  with assms(1) obtain h where v: "v = VObject h" and s': "s' = s\<lparr>handles := (handles s)(fresh s \<mapsto> h)\<rparr>"
    by (auto simp: write_ok_def handle_new_def split: rval.splits)
  from assms(5) s' have "dom (handles s) \<noteq> UNIV" by auto
  with assms(2) have "handles s (fresh s) = None" by (simp add: fresh_ok_def)
  from assms(3) show ?thesis
    by (cases h) (simp_all add: s' v counted_handle_new [OF \<open>handles s (fresh s) = None\<close>])
next
  case RTUnit
  with assms show ?thesis by (auto simp: write_ok_def split: if_splits)
qed (use assms in \<open>auto simp: write_ok_def out_buffer_def out_some_def
      split: rval.splits option.splits prod.splits if_splits dest: counted_buffers\<close>)

lemma counted_run_shim:
  assumes run: "run_shim t fresh m d user ws s = Some (status, outs, s')"
    and "keeps ctor user" "ctor \<longrightarrow> is_handle_result (sd_result d)" "fresh_ok fresh" "counted 0 s"
    and exhausted: "dom (handles s') \<noteq> UNIV"
  shows "counted 0 s'"
proof -
  let ?s0 = "if sd_has_callback d then clear_callback_tunnel t s else s"
  from run obtain r s2 where body: "shim_body t fresh m d user ws s = Some (r, outs, s2)"
    and s': "counted 0 s2 \<Longrightarrow> counted 0 s'" "handles s' = handles s2"
    by (auto simp: run_shim_def shim_def set_last_error_def [THEN arg_cong [of _ _ handles]]
        split: option.splits prod.splits sum.splits)
  from body obtain q s1 where pre: "preludes t m (sd_params d) ws ?s0 = Some (q, s1)"
    by (auto simp: shim_body_def Let_def split: option.splits)
  with assms(5) have s1: "counted 0 s1" using counted_preludes [OF pre, of 0] by (simp split: if_splits)
  have "counted 0 s2"
  proof (cases q)
    case (Inl e)
    with body pre s1 show ?thesis by (simp add: shim_body_def Let_def)
  next
    case (Inr vs)
    obtain res s3 where u: "user vs s1 = (res, s3)" by (cases "user vs s1")
    with assms(2) s1 have g: "good ctor (res, s3)" by (metis keeps_def)
    from body pre Inr u have fin: "finish_body t fresh d (res, s3) = Some (r, outs, s2)"
      by (simp add: shim_body_def Let_def)
    show ?thesis
    proof (cases res)
      case (Inl p)
      with fin g show ?thesis by (simp add: finish_body_def)
    next
      case res: (Inr x)
      show ?thesis
      proof (cases x)
        case (Inl msg)
        with fin g res show ?thesis by (auto simp: finish_body_def split: option.splits if_splits)
      next
        case (Inr v)
        with fin res obtain w where w: "write_ok fresh (sd_result d) v s3 = Some w" "s2 = snd w"
          by (auto simp: finish_body_def)
        from g res Inr assms(3) have
          "counted (if bag_result (Inr (Inr v)) then 1 else 0) s3"
          "object_result (Inr (Inr v)) \<longrightarrow> is_handle_result (sd_result d)"
          by (auto simp: good_def)
        with counted_write_ok [of fresh "sd_result d" v s3 "fst w" "snd w"] w assms(4) exhausted s'(2) show ?thesis by simp
      qed
    qed
  qed
  then show ?thesis by (rule s'(1))
qed

lemma counted_free:
  assumes "free_shim wb_drop p s = Some (b, s')" "counted 0 s"
  shows "counted 0 s'"
proof (cases "p = 0")
  case False
  with assms(1) obtain h where h: "handles s p = Some h"
    and s': "s' = snd (wb_drop h (s\<lparr>handles := (handles s)(p := None)\<rparr>))"
    by (auto simp: free_shim_def handle_free_def split: option.splits)
  have fin: "finite (bags s)" using assms(2) by (simp add: counted_def finite_bags)
  show ?thesis
  proof (cases h)
    case (BagObj bag)
    let ?s = "s\<lparr>handles := (handles s)(p := None)\<rparr>"
    from BagObj h have b: "bags ?s = bags s - {p}" "p \<in> bags s"
      by (auto simp: bags_def)
    have "card (bags s) = Suc (card (bags ?s))" unfolding b(1) card_Suc_Diff1 [OF fin b(2)] ..
    with assms(2) show ?thesis unfolding s' BagObj by (simp add: counted_def)
  next
    case (GrenadeObj a)
    then have "bags (s\<lparr>handles := (handles s)(p := None)\<rparr>) = bags s"
      using h by (auto simp: bags_def)
    with assms(2) GrenadeObj show ?thesis by (simp add: s' counted_def)
  qed
qed (use assms in \<open>simp add: free_shim_def handle_free_def\<close>)

lemma counted_dealloc: "dealloc p n al s = Some s' \<Longrightarrow> counted k s' = counted k s"
  by (auto simp: dealloc_def counted_def bags_def split: if_splits option.splits)

lemma gen_fn_result: "gen_fn cn f = Inr d \<Longrightarrow> sd_result d = ef_result f"
  by (auto simp: gen_fn_def Let_def split: if_splits call_kind.splits)

lemma wb_reach_counted:
  assumes "wb_reach env s" "closure_ok (lisp env)"
  shows "counted 0 s"
  using assms(1)
proof (induction rule: wb_reach.induct)
  case start
  show ?case by (simp add: init_wordbag_def init_runtime_def counted_def bags_def runtime.extend_def)
next
  case (step s s')
  from step.hyps(2) show ?case
  proof (cases rule: wb_step.cases)
    case (call fs c f d t user fresh m ws status outs)
    have "ef_symbol f \<in> set CTORS \<longrightarrow> is_handle_result (sd_result d)"
      using wordbag_ctors_return_handles [OF call(1,2)] gen_fn_result [OF call(3)] by simp
    then show ?thesis
      by (rule counted_run_shim [OF call(6) wordbag_user_keeps [OF assms(2) call(4)] _ call(5) step.IH call(7)])
  next
    case (free p panicked)
    then show ?thesis using counted_free step.IH by blast
  next
    case (release p n al)
    then show ?thesis using counted_dealloc step.IH by blast
  qed
qed

section \<open>Properties\<close>

text \<open>
  (C20) \<^verbatim>\<open>test_live_word_bags\<close> tells the truth: after any sequence of calls of any export (in any thread, with
  any arguments, successful, failing or panicking), of free shims and of buffer releases, the counter is
  the number of \<^verbatim>\<open>WordBag\<close> objects Lisp still holds a pointer to.  The closures that callbacks run are only
  assumed to keep that count themselves, which any sequence of such calls does.
\<close>

theorem live_word_bags_counted:
  assumes "wb_reach env s" "closure_ok (lisp env)"
  shows "test_live_word_bags s = of_nat (card {p. \<exists>b. handles s p = Some (BagObj b)})"
  using wb_reach_counted [OF assms] by (simp add: test_live_word_bags_def counted_def bags_def)

definition plain_env :: wb_env where
  "plain_env = \<lparr>overflow_checks = True, alt_greeting = False, debug_str = (\<lambda>s. s), mul_f64 = (\<lambda>x k. x),
     lisp = (\<lambda>_ _ _ s. (0, s)), str_addr = (\<lambda>_. 1)\<rparr>"

text \<open>An allocator: the first address from 64 on that is not in use.\<close>

definition ADDRESSES :: "nat list" where
  "ADDRESSES = [64..<2 ^ 64 + 64]"

lemma addresses_member: "n < 2 ^ 64 \<Longrightarrow> n + 64 \<in> set ADDRESSES"
  unfolding ADDRESSES_def set_upt atLeastLessThan_iff by linarith

lemma addresses_first: "\<exists>ns. ADDRESSES = 64 # ns"
  unfolding ADDRESSES_def by (rule exI, rule upt_conv_Cons, simp)

definition alloc_scan :: "wordbag \<Rightarrow> ptr" where
  "alloc_scan s =
     (case List.find (\<lambda>n. handles s (of_nat n) = None) ADDRESSES of Some n \<Rightarrow> of_nat n | None \<Rightarrow> 0)"

lemma alloc_scan_ok: "fresh_ok alloc_scan"
  unfolding fresh_ok_def
proof (intro allI impI)
  fix s :: wordbag
  assume "dom (handles s) \<noteq> UNIV"
  then obtain p where p: "handles s p = None" by auto
  let ?n = "unat (p - 64) + 64"
  have "?n \<in> set ADDRESSES" by (rule addresses_member) (use unsigned_less [of "p - 64"] in simp)
  moreover have "handles s (of_nat ?n) = None" using p by simp
  ultimately have "List.find (\<lambda>n. handles s (of_nat n) = None) ADDRESSES \<noteq> None"
    by (auto simp: find_None_iff)
  then obtain n where n: "List.find (\<lambda>n. handles s (of_nat n) = None) ADDRESSES = Some n" by blast
  then have "handles s (of_nat n) = None" by (auto simp: find_Some_iff)
  then show "handles s (alloc_scan s) = None" unfolding alloc_scan_def n by simp
qed

lemma result_exE: "case r of Inl e \<Rightarrow> False | Inr x \<Rightarrow> P x \<Longrightarrow> (\<And>x. r = Inr x \<Longrightarrow> P x \<Longrightarrow> thesis) \<Longrightarrow> thesis"
  by (cases r) auto

lemma word_bag_new_exported:
  obtains fs c f where "wordbag_exports = Inr fs" "(c, f) \<in> set fs"
    "ef_symbol f = ''word_bag_new''" "ef_params f = []" "is_handle_result (ef_result f)"
    "\<exists>p. ef_call f = CtorCall p ''new''"
proof -
  have "case wordbag_exports of Inl e \<Rightarrow> False
    | Inr fs \<Rightarrow> list_ex (\<lambda>(c, f). ef_symbol f = ''word_bag_new'' \<and> ef_params f = [] \<and>
        is_handle_result (ef_result f) \<and> (case ef_call f of CtorCall p m \<Rightarrow> m = ''new'' | _ \<Rightarrow> False)) fs"
    by code_simp
  then obtain fs where fs: "wordbag_exports = Inr fs" and
    ex: "list_ex (\<lambda>(c, f). ef_symbol f = ''word_bag_new'' \<and> ef_params f = [] \<and>
        is_handle_result (ef_result f) \<and> (case ef_call f of CtorCall p m \<Rightarrow> m = ''new'' | _ \<Rightarrow> False)) fs"
    by (rule result_exE)
  from ex obtain c f where f: "(c, f) \<in> set fs" "ef_symbol f = ''word_bag_new''" "ef_params f = []"
      "is_handle_result (ef_result f)" "case ef_call f of CtorCall p m \<Rightarrow> m = ''new'' | _ \<Rightarrow> False"
    unfolding list_ex_iff by blast
  from f(5) have "\<exists>p. ef_call f = CtorCall p ''new''" by (cases "ef_call f") auto
  with f(1-4) show thesis by (rule that [OF fs])
qed

lemma one_bag_reachable:
  "\<exists>s. wb_reach plain_env s \<and> handles s = [64 \<mapsto> BagObj \<lparr>words = [], words_poisoned = False\<rparr>]"
proof -
  obtain fs c f where f: "wordbag_exports = Inr fs" "(c, f) \<in> set fs" "ef_symbol f = ''word_bag_new''"
      "ef_params f = []" "is_handle_result (ef_result f)" "\<exists>p. ef_call f = CtorCall p ''new''"
    by (rule word_bag_new_exported)
  from f(6) obtain d where d: "gen_fn ''wordbag'' f = Inr d" by (auto simp: gen_fn_def Let_def)
  from f(5) obtain path where path: "ef_result f = RTHandle path" by (cases "ef_result f") auto
  have sd: "sd_params d = []" "sd_has_callback d = False" "sd_result d = RTHandle path"
    using d f(4) path by (auto simp: gen_fn_def Let_def split: if_splits call_kind.splits)
  let ?user = "\<lambda>vs s. case word_bag_new s of (b, s') \<Rightarrow> ret (VObject (BagObj b)) s'"
  have user: "map_of (wordbag_table plain_env 0) (ef_symbol f) = Some ?user"
    unfolding f(3) by (simp add: wordbag_table_def)
  let ?b = "BagObj \<lparr>words = [], words_poisoned = False\<rparr>"
  let ?s = "init_wordbag\<lparr>LIVE_WORD_BAGS := 1, handles := [64 \<mapsto> ?b]\<rparr>"
  obtain ns where ns: "ADDRESSES = 64 # ns" using addresses_first by blast
  have "alloc_scan (init_wordbag\<lparr>LIVE_WORD_BAGS := 1\<rparr>) = 64"
    unfolding alloc_scan_def ns by (simp add: init_wordbag_def runtime.extend_def init_runtime_def)
  then have run: "run_shim 0 alloc_scan Map.empty d ?user [] init_wordbag = Some (STATUS_OK, [Some (WPtr 64)], ?s)"
    by (simp add: run_shim_def shim_body_def sd finish_body_def word_bag_new_def ret_def write_ok_def
        handle_new_def shim_def init_wordbag_def runtime.extend_def init_runtime_def)
  have "dom (handles ?s) \<noteq> UNIV" by (auto simp: set_eq_iff intro!: exI [of _ 0])
  then have "wb_step plain_env init_wordbag ?s"
    by (rule wb_step.call [OF f(1,2) d user alloc_scan_ok run])
  then show ?thesis using wb_reach.step [OF wb_reach.start] by force
qed

theorem live_word_bags_counted_witness: "\<exists>s. wb_reach plain_env s \<and> test_live_word_bags s = 1"
proof -
  from one_bag_reachable obtain s where s: "wb_reach plain_env s"
      "handles s = [64 \<mapsto> BagObj \<lparr>words = [], words_poisoned = False\<rparr>]" by blast
  have "closure_ok (lisp plain_env)" by (simp add: plain_env_def closure_ok_def)
  from live_word_bags_counted [OF s(1) this] s show ?thesis by auto
qed

end
