(* ===== verification/Fetch_Headers.thy ===== *)
theory Fetch_Headers
  imports Text
begin

text \<open>
  The error type and the header block codec of \<^verbatim>\<open>examples/fetch\<close> (\<^verbatim>\<open>src/error.rs\<close>, \<^verbatim>\<open>src/lib.rs\<close>).

  A \<^verbatim>\<open>HeaderMap\<close> is the list of its fields: \<^verbatim>\<open>append\<close> adds at the end, \<^verbatim>\<open>iter\<close> lists them.  The name and
  value checks of the \<^verbatim>\<open>http\<close> crate are parameters, each a function to an error message or a value.
\<close>

section \<open>Errors\<close>

record http_error =
  he_kind :: bytes
  he_msg :: bytes

definition http_error_new :: "bytes \<Rightarrow> bytes \<Rightarrow> http_error" where
  "http_error_new kind msg = \<lparr>he_kind = kind, he_msg = msg\<rparr>"

definition usage :: "bytes \<Rightarrow> http_error" where
  "usage msg = http_error_new ''usage'' msg"

definition busy :: "bytes \<Rightarrow> http_error" where
  "busy msg = http_error_new ''busy'' msg"

definition request :: "bytes \<Rightarrow> http_error" where
  "request msg = http_error_new ''request'' msg"

definition http_error_string :: "http_error \<Rightarrow> bytes" where
  "http_error_string e = he_kind e @ '': '' @ he_msg e"

section \<open>The header block\<close>

type_synonym field = "bytes \<times> bytes"
type_synonym checker = "bytes \<Rightarrow> (bytes, bytes) result"

definition encode_headers :: "field list \<Rightarrow> bytes" where
  "encode_headers h = concat (map (\<lambda>(name, value). name @ '': '' @ value @ [CR, LF]) h)"

definition skip_blank :: "(octet \<Rightarrow> bool) \<Rightarrow> bytes \<Rightarrow> bytes" where
  "skip_blank blank v = (case position (\<lambda>b. \<not> blank b) v of Some i \<Rightarrow> List.drop i v | None \<Rightarrow> [])"

definition decode_line :: "checker \<Rightarrow> checker \<Rightarrow> bytes \<Rightarrow> (http_error, field option) result" where
  "decode_line header_name header_value line =
     (case strip_suffix1 CR line of
        None \<Rightarrow>
          if line = [] then Inr None
          else Inl (request ''header block must terminate every field with CRLF'')
      | Some l \<Rightarrow>
          if l = [] then Inr None
          else
            (case position (\<lambda>b. b = CHR '':'') l of
               None \<Rightarrow> Inl (request ''header line without a colon'')
             | Some colon \<Rightarrow>
                 (case from_utf8 (take colon l) of
                    Inl e \<Rightarrow> Inl (request ''header name is not ASCII'')
                  | Inr n \<Rightarrow>
                      (case header_name (str_trim n) of
                         Inl e \<Rightarrow> Inl (request (''bad header name: '' @ e))
                       | Inr name \<Rightarrow>
                           (case header_value (skip_blank (\<lambda>b. b = CHR '' '' \<or> b = TAB) (List.drop (colon + 1) l)) of
                              Inl e \<Rightarrow> Inl (request (''bad header value: '' @ e))
                            | Inr value \<Rightarrow> Inr (Some (name, value)))))))"

definition decode_headers :: "checker \<Rightarrow> checker \<Rightarrow> bytes \<Rightarrow> (http_error, field list) result" where
  "decode_headers header_name header_value block =
     bindR (mapR (decode_line header_name header_value) (split_on LF block)) (\<lambda>fs. Inr (List.map_filter (\<lambda>f. f) fs))"

text \<open>\<^verbatim>\<open>Req::header\<close>: the first field of the response block with the given name.\<close>

fun header_in :: "bytes \<Rightarrow> bytes list \<Rightarrow> bytes option" where
  "header_in want [] = None"
| "header_in want (line # lines) =
     (let l = (case strip_suffix1 CR line of Some l \<Rightarrow> l | None \<Rightarrow> line)
      in case position (\<lambda>b. b = CHR '':'') l of
           Some c \<Rightarrow>
             if to_ascii_lowercase (from_utf8_lossy (take c l)) = want
             then Some (from_utf8_lossy (skip_blank (\<lambda>b. b = CHR '' '') (List.drop (c + 1) l)))
             else header_in want lines
         | None \<Rightarrow> header_in want lines)"

definition header :: "bytes \<Rightarrow> bytes \<Rightarrow> bytes option" where
  "header block name = header_in (to_ascii_lowercase name) (split_on LF block)"

section \<open>Well-formed fields\<close>

text \<open>
  What the \<^verbatim>\<open>http\<close> crate documents of the names and values it holds: a name is a non-empty token of
  printable ASCII without a colon, a value has no line feed.  A value in a block does not start with a
  blank (blanks after the colon are not part of the value).
\<close>

definition field_ok :: "field \<Rightarrow> bool" where
  "field_ok f \<longleftrightarrow>
     fst f \<noteq> [] \<and> list_all printable (fst f) \<and> CHR '':'' \<notin> set (fst f) \<and> LF \<notin> set (snd f) \<and>
     (snd f \<noteq> [] \<longrightarrow> hd (snd f) \<noteq> CHR '' '' \<and> hd (snd f) \<noteq> TAB)"

definition accepts :: "checker \<Rightarrow> checker \<Rightarrow> field \<Rightarrow> bool" where
  "accepts header_name header_value f \<longleftrightarrow> header_name (fst f) = Inr (fst f) \<and> header_value (snd f) = Inr (snd f)"

lemma printable_ascii: "list_all printable s \<Longrightarrow> \<forall>c\<in>set s. code c < 0x80"
  by (auto simp: list_all_iff printable_def)

lemma printable_not_LF: "list_all printable s \<Longrightarrow> LF \<notin> set s"
  by (auto simp: list_all_iff printable_def)

lemma skip_blank_value: "blank (CHR '' '') \<Longrightarrow> (v \<noteq> [] \<longrightarrow> \<not> blank (hd v)) \<Longrightarrow> skip_blank blank (CHR '' '' # v) = v"
  by (cases v) (auto simp: skip_blank_def)

lemma field_line:
  assumes "field_ok (n, v)"
  shows "strip_suffix1 CR (n @ CHR '':'' # CHR '' '' # v @ [CR]) = Some (n @ CHR '':'' # CHR '' '' # v)"
    and "position (\<lambda>b. b = CHR '':'') (n @ CHR '':'' # CHR '' '' # v) = Some (length n)"
    and "LF \<notin> set (n @ CHR '':'' # CHR '' '' # v @ [CR])"
    and "from_utf8 n = Inr n" "from_utf8_lossy n = n" "str_trim n = n"
proof -
  show "strip_suffix1 CR (n @ CHR '':'' # CHR '' '' # v @ [CR]) = Some (n @ CHR '':'' # CHR '' '' # v)"
    using strip_suffix1_snoc [of CR "n @ CHR '':'' # CHR '' '' # v"] by (simp del: strip_suffix1_snoc)
  show "position (\<lambda>b. b = CHR '':'') (n @ CHR '':'' # CHR '' '' # v) = Some (length n)"
    using assms by (auto simp: field_ok_def intro!: position_append)
  show "LF \<notin> set (n @ CHR '':'' # CHR '' '' # v @ [CR])"
    using assms printable_not_LF by (auto simp: field_ok_def)
  have wf: "well_formed n" using assms printable_ascii by (auto simp: field_ok_def intro!: well_formed_ascii)
  then show "from_utf8 n = Inr n" "from_utf8_lossy n = n"
    by (simp_all add: from_utf8_Inr from_utf8_lossy_valid)
  show "str_trim n = n"
    using assms by (auto simp: field_ok_def list_all_iff intro!: str_trim_printable)
qed

lemma split_block:
  "list_all field_ok fs \<Longrightarrow>
   split_on LF (encode_headers fs) = map (\<lambda>(n, v). n @ CHR '':'' # CHR '' '' # v @ [CR]) fs @ [[]]"
proof (induction fs)
  case (Cons f fs)
  obtain n v where f: "f = (n, v)" by (cases f)
  have "split_on LF ((n @ CHR '':'' # CHR '' '' # v @ [CR]) @ LF # encode_headers fs) =
      (n @ CHR '':'' # CHR '' '' # v @ [CR]) # split_on LF (encode_headers fs)"
    using Cons.prems field_line(3) [of n v] by (intro split_on_append) (simp add: f)
  then show ?case using Cons by (simp add: f encode_headers_def)
qed (simp add: encode_headers_def)

lemma decode_field:
  assumes "field_ok (n, v)" "accepts header_name header_value (n, v)"
  shows "decode_line header_name header_value (n @ CHR '':'' # CHR '' '' # v @ [CR]) = Inr (Some (n, v))"
proof -
  have "skip_blank (\<lambda>b. b = CHR '' '' \<or> b = TAB) (CHR '' '' # v) = v"
    using assms(1) by (intro skip_blank_value) (auto simp: field_ok_def)
  then show ?thesis
    using assms(2) by (simp add: decode_line_def field_line [OF assms(1)] accepts_def)
qed

lemma decode_fields:
  assumes "list_all field_ok fs" "list_all (accepts header_name header_value) fs"
  shows "mapR (decode_line header_name header_value) (map (\<lambda>(n, v). n @ CHR '':'' # CHR '' '' # v @ [CR]) fs @ [[]]) =
    Inr (map Some fs @ [None])"
  using assms
proof (induction fs)
  case Nil
  then show ?case by (simp add: decode_line_def)
next
  case (Cons f fs)
  then show ?case using decode_field by (cases f) simp
qed

lemma header_in_fields:
  assumes "list_all field_ok fs"
  shows "header_in want (map (\<lambda>(n, v). n @ CHR '':'' # CHR '' '' # v @ [CR]) fs @ [[]]) =
    map_option (\<lambda>(n, v). from_utf8_lossy v) (List.find (\<lambda>(n, v). to_ascii_lowercase n = want) fs)"
  using assms
proof (induction fs)
  case (Cons f fs)
  obtain n v where f: "f = (n, v)" by (cases f)
  with Cons.prems have ok: "field_ok (n, v)" by simp
  have "skip_blank (\<lambda>b. b = CHR '' '') (CHR '' '' # v) = v"
    using ok by (intro skip_blank_value) (auto simp: field_ok_def)
  with Cons show ?case by (simp add: f Let_def field_line [OF ok])
qed simp

section \<open>Properties\<close>



end
