(* ===== verification/Tokio.thy ===== *)
theory Tokio
  imports Rulisp_Prelude
begin

text \<open>
  What the example crates use of tokio, as parameters: a counting semaphore (\<^verbatim>\<open>tokio::sync::Semaphore\<close>) and a
  one-shot channel (\<^verbatim>\<open>tokio::sync::oneshot\<close>).  The laws are what their documentation promises, each stated
  through an observation: the free permits of a semaphore, and of a channel the value sent and which of its two
  ends are still held.
\<close>

record 'sem semaphore =
  sem_new :: "nat \<Rightarrow> 'sem"
  sem_try :: "'sem \<Rightarrow> 'sem option"
  sem_add :: "nat \<Rightarrow> 'sem \<Rightarrow> 'sem"
  sem_available :: "'sem \<Rightarrow> nat"

definition sem_ok :: "('sem, 'z) semaphore_scheme \<Rightarrow> bool" where
  "sem_ok L \<longleftrightarrow>
     (\<forall>n. sem_available L (sem_new L n) = n) \<and>
     (\<forall>s. sem_try L s = None \<longleftrightarrow> sem_available L s = 0) \<and>
     (\<forall>s s'. sem_try L s = Some s' \<longrightarrow> sem_available L s = Suc (sem_available L s')) \<and>
     (\<forall>n s. sem_available L (sem_add L n s) = sem_available L s + n)"

lemma sem_okD:
  assumes "sem_ok L"
  shows "sem_available L (sem_new L n) = n"
    and "sem_try L s = None \<longleftrightarrow> sem_available L s = 0"
    and "sem_try L s = Some s' \<Longrightarrow> sem_available L s = Suc (sem_available L s')"
    and "sem_available L (sem_add L n s) = sem_available L s + n"
  using assms by (auto simp: sem_ok_def)

record 'r chan_view =
  cv_sent :: "'r option"
  cv_tx :: bool
  cv_rx :: bool

text \<open>\<open>ch_recv\<close> is \<open>None\<close> while the receiver has to wait, then the value or the error that the sender is gone.\<close>

record ('sem, 'r, 'ch) tokio = "'sem semaphore" +
  ch_new :: 'ch
  ch_view :: "'ch \<Rightarrow> 'r chan_view"
  ch_closed :: "'ch \<Rightarrow> bool"
  ch_send :: "'r \<Rightarrow> 'ch \<Rightarrow> bool \<times> 'ch"
  ch_drop_tx :: "'ch \<Rightarrow> 'ch"
  ch_drop_rx :: "'ch \<Rightarrow> 'ch"
  ch_recv :: "'ch \<Rightarrow> 'r option option"

definition tokio_ok :: "('sem, 'r, 'ch) tokio \<Rightarrow> bool" where
  "tokio_ok L \<longleftrightarrow>
     sem_ok L \<and>
     ch_view L (ch_new L) = \<lparr>cv_sent = None, cv_tx = True, cv_rx = True\<rparr> \<and>
     (\<forall>c. ch_closed L c \<longleftrightarrow> \<not> cv_rx (ch_view L c)) \<and>
     (\<forall>r c. ch_view L (snd (ch_send L r c)) =
        (if cv_tx (ch_view L c) \<and> cv_rx (ch_view L c) then (ch_view L c)\<lparr>cv_sent := Some r, cv_tx := False\<rparr>
         else (ch_view L c)\<lparr>cv_tx := False\<rparr>)) \<and>
     (\<forall>r c. fst (ch_send L r c) \<longleftrightarrow> cv_tx (ch_view L c) \<and> cv_rx (ch_view L c)) \<and>
     (\<forall>c. ch_view L (ch_drop_tx L c) = (ch_view L c)\<lparr>cv_tx := False\<rparr>) \<and>
     (\<forall>c. ch_view L (ch_drop_rx L c) = (ch_view L c)\<lparr>cv_rx := False\<rparr>) \<and>
     (\<forall>c. ch_recv L c =
        (case cv_sent (ch_view L c) of
           Some r \<Rightarrow> Some (Some r)
         | None \<Rightarrow> if cv_tx (ch_view L c) then None else Some None))"

lemma tokio_okD:
  assumes "tokio_ok L"
  shows "sem_ok L"
    and "ch_view L (ch_new L) = \<lparr>cv_sent = None, cv_tx = True, cv_rx = True\<rparr>"
    and "ch_closed L c \<longleftrightarrow> \<not> cv_rx (ch_view L c)"
    and "ch_view L (snd (ch_send L r c)) =
        (if cv_tx (ch_view L c) \<and> cv_rx (ch_view L c) then (ch_view L c)\<lparr>cv_sent := Some r, cv_tx := False\<rparr>
         else (ch_view L c)\<lparr>cv_tx := False\<rparr>)"
    and "fst (ch_send L r c) \<longleftrightarrow> cv_tx (ch_view L c) \<and> cv_rx (ch_view L c)"
    and "ch_view L (ch_drop_tx L c) = (ch_view L c)\<lparr>cv_tx := False\<rparr>"
    and "ch_view L (ch_drop_rx L c) = (ch_view L c)\<lparr>cv_rx := False\<rparr>"
    and "ch_recv L c =
        (case cv_sent (ch_view L c) of
           Some r \<Rightarrow> Some (Some r)
         | None \<Rightarrow> if cv_tx (ch_view L c) then None else Some None)"
  using assms by (simp_all add: tokio_ok_def)

text \<open>An instance: permits counted by a natural number, a channel that is what can be observed of it.\<close>

definition plain_tokio :: "(nat, 'r, 'r chan_view) tokio" where
  "plain_tokio =
     \<lparr>sem_new = (\<lambda>n. n), sem_try = (\<lambda>n. if n = 0 then None else Some (n - 1)), sem_add = (+), sem_available = (\<lambda>n. n),
      ch_new = \<lparr>cv_sent = None, cv_tx = True, cv_rx = True\<rparr>, ch_view = (\<lambda>c. c), ch_closed = (\<lambda>c. \<not> cv_rx c),
      ch_send = (\<lambda>r c. (cv_tx c \<and> cv_rx c,
        if cv_tx c \<and> cv_rx c then c\<lparr>cv_sent := Some r, cv_tx := False\<rparr> else c\<lparr>cv_tx := False\<rparr>)),
      ch_drop_tx = (\<lambda>c. c\<lparr>cv_tx := False\<rparr>), ch_drop_rx = (\<lambda>c. c\<lparr>cv_rx := False\<rparr>),
      ch_recv = (\<lambda>c. case cv_sent c of Some r \<Rightarrow> Some (Some r) | None \<Rightarrow> if cv_tx c then None else Some None)\<rparr>"

lemma plain_tokio_ok: "tokio_ok plain_tokio"
  by (auto simp: tokio_ok_def sem_ok_def plain_tokio_def split: if_splits)

end
