(* ===== verification/Fetch.thy ===== *)
theory Fetch
  imports Fetch_Headers Tokio
begin

text \<open>
  \<^verbatim>\<open>examples/fetch/src/lib.rs\<close>: the HTTP client handle, its requests and their tasks.

  What the tokio, tokio-util and reqwest crates do is a parameter.  The semaphore operations, the
  cancellation query of a child token and the parsers are fields of \<open>lib\<close>; \<open>lib_ok\<close> states what their
  documentation promises.  The network, the file system and the timers speak through events that resume a
  task at its await points.  Everything a mutex protects is one step; a \<^verbatim>\<open>read\<close> returns its chunk slot, and
  a finished task's guard runs its four statements, in separate steps, so that every interleaving other
  threads can observe is one of the model's.
\<close>

section \<open>The libraries\<close>

record 'sem lib = "'sem semaphore" +
  tok_cancelled :: "bool \<Rightarrow> bool \<Rightarrow> bool"
  parse_method :: checker
  parse_url :: checker
  header_name :: checker
  header_value :: checker

definition lib_ok :: "'sem lib \<Rightarrow> bool" where
  "lib_ok L \<longleftrightarrow> sem_ok L \<and> (\<forall>parent own. tok_cancelled L parent own \<longleftrightarrow> parent \<or> own)"

lemma lib_okD:
  assumes "lib_ok L"
  shows "sem_available L (sem_new L n) = n"
    and "sem_try L s = None \<longleftrightarrow> sem_available L s = 0"
    and "sem_try L s = Some s' \<Longrightarrow> sem_available L s = Suc (sem_available L s')"
    and "sem_available L (sem_add L n s) = sem_available L s + n"
    and "tok_cancelled L parent own \<longleftrightarrow> parent \<or> own"
  using assms sem_okD [of L] by (auto simp: lib_ok_def)

section \<open>Request state\<close>

definition FETCH_WAIT_CAP_MS :: u64 where
  "FETCH_WAIT_CAP_MS = 100"

definition capped :: "u64 \<Rightarrow> u64" where
  "capped ms = min ms FETCH_WAIT_CAP_MS"

text \<open>\<open>in_runtime\<close>: whether the calling thread is one of a tokio runtime.\<close>

definition refuse_reentry :: "bool \<Rightarrow> (http_error, unit) result" where
  "refuse_reentry in_runtime =
     (if in_runtime then Inl (usage ''blocking export called from inside the runtime'') else Inr ())"

record req_state =
  st_settled :: bool
  st_err :: "http_error option"
  st_status :: u16
  st_headers :: bytes
  st_head_done :: bool
  st_chunks :: "bytes list"
  st_buffered :: u64
  st_eof :: bool

record 'sem shared =
  sh_id :: u64
  sh_st :: req_state
  sh_received :: u64
  sh_total :: i64
  sh_cancel :: bool
  sh_chunk_permits :: 'sem

definition settle :: "http_error option \<Rightarrow> req_state \<Rightarrow> req_state" where
  "settle err st =
     (if st_settled st then st
      else if st_err st = None then st\<lparr>st_settled := True, st_err := err\<rparr>
      else st\<lparr>st_settled := True\<rparr>)"

section \<open>Ready queue\<close>

definition READY_CAP :: nat where
  "READY_CAP = 4096"

definition ready_push :: "u64 \<Rightarrow> u64 list \<Rightarrow> u64 list" where
  "ready_push i q = (if READY_CAP \<le> length q then tl q else q) @ [i]"

definition ready_pop :: "u64 list \<Rightarrow> u64 option \<times> u64 list" where
  "ready_pop q = (case q of [] \<Rightarrow> (None, []) | i # q' \<Rightarrow> (Some i, q'))"

section \<open>Client\<close>

record 'sem client =
  cl_rt :: bool
  cl_admission :: 'sem
  cl_in_flight :: u64
  cl_down :: bool
  cl_next_id :: u64
  cl_ready :: "u64 list"
  cl_cancel_all :: bool
  cl_queue_chunks :: nat
  cl_stall :: u64

definition check_up :: "'sem client \<Rightarrow> (http_error, unit) result" where
  "check_up c = (if cl_down c then Inl (usage ''client is shut down'') else Inr ())"

text \<open>\<open>built\<close>: the result of building the runtime and the HTTP client for that many worker threads.\<close>

definition client_new ::
  "'sem lib \<Rightarrow> (nat \<Rightarrow> (bytes, unit) result) \<Rightarrow> u64 \<Rightarrow> u64 \<Rightarrow> u64 \<Rightarrow> u64 \<Rightarrow> (http_error, 'sem client) result" where
  "client_new L built worker_threads max_in_flight queue_chunks stall_ms =
     (case built (unat (clamp 1 64 worker_threads)) of
        Inl e \<Rightarrow> Inl (http_error_new ''runtime'' e)
      | Inr _ \<Rightarrow>
          Inr \<lparr>cl_rt = True, cl_admission = sem_new L (unat (clamp 1 4096 max_in_flight)), cl_in_flight = 0,
               cl_down = False, cl_next_id = 1, cl_ready = [], cl_cancel_all = False,
               cl_queue_chunks = unat (clamp 1 4096 queue_chunks),
               cl_stall = (if stall_ms = 0 then 30000 else stall_ms)\<rparr>)"

definition next_ready :: "bool \<Rightarrow> 'sem client \<Rightarrow> (http_error, u64 option) result \<times> 'sem client" where
  "next_ready in_runtime c =
     (case refuse_reentry in_runtime of
        Inl e \<Rightarrow> (Inl e, c)
      | Inr _ \<Rightarrow> (case ready_pop (cl_ready c) of (r, q) \<Rightarrow> (Inr r, c\<lparr>cl_ready := q\<rparr>)))"

definition in_flight :: "'sem client \<Rightarrow> u64" where
  "in_flight c = cl_in_flight c"

definition is_down :: "'sem client \<Rightarrow> bool" where
  "is_down c = cl_down c"

text \<open>\<^verbatim>\<open>shutdown\<close>, \<^verbatim>\<open>shutdown_all\<close> and the handle's \<^verbatim>\<open>Drop\<close> each run these three statements in this order.\<close>

definition store_down :: "'sem client \<Rightarrow> 'sem client" where
  "store_down c = c\<lparr>cl_down := True\<rparr>"

definition cancel_everything :: "'sem client \<Rightarrow> 'sem client" where
  "cancel_everything c = c\<lparr>cl_cancel_all := True\<rparr>"

definition take_rt :: "'sem client \<Rightarrow> 'sem client" where
  "take_rt c = c\<lparr>cl_rt := False\<rparr>"

definition wind_down :: "'sem client \<Rightarrow> 'sem client" where
  "wind_down c = take_rt (cancel_everything (store_down c))"

definition shutdown :: "bool \<Rightarrow> 'sem client \<Rightarrow> (http_error, unit) result \<times> 'sem client" where
  "shutdown in_runtime c =
     (case refuse_reentry in_runtime of
        Inl e \<Rightarrow> (Inl e, c)
      | Inr _ \<Rightarrow> (Inr (), wind_down c))"

text \<open>\<open>bound\<close>: the address the loopback listener was bound to, or what the socket calls failed with.\<close>

definition start_test_server :: "(bytes, bytes) result \<Rightarrow> 'sem client \<Rightarrow> (http_error, bytes) result" where
  "start_test_server bound c =
     (case check_up c of Inl e \<Rightarrow> Inl e | Inr _ \<Rightarrow>
     (case bound of Inl e \<Rightarrow> Inl (http_error_new ''runtime'' e) | Inr addr \<Rightarrow>
       if cl_rt c then Inr (''http://'' @ addr) else Inl (usage ''client is shut down'')))"

text \<open>The registry of weak references; \<open>None\<close> is one whose client is gone.\<close>

definition retain_live :: "'sem client option list \<Rightarrow> 'sem client option list" where
  "retain_live reg = filter (\<lambda>w. w \<noteq> None) reg"

definition register :: "'sem client \<Rightarrow> 'sem client option list \<Rightarrow> 'sem client option list" where
  "register c reg = retain_live reg @ [Some c]"

definition shutdown_all :: "'sem client option list \<Rightarrow> 'sem client option list" where
  "shutdown_all reg = map (map_option wind_down) (retain_live reg)"

section \<open>Starting a request\<close>

text \<open>
  \<^verbatim>\<open>Req::start\<close> up to the forgotten permit; the spawning part under the runtime's lock follows, in a later
  step of its own.
\<close>

record start_args =
  sa_method :: bytes
  sa_url :: bytes
  sa_headers :: "bytes option"
  sa_sink :: "bytes option"
  sa_max_body :: u64

definition admit :: "'sem lib \<Rightarrow> start_args \<Rightarrow> 'sem client \<Rightarrow> (http_error, u64) result \<times> 'sem client" where
  "admit L a c =
     (case check_up c of Inl e \<Rightarrow> (Inl e, c) | Inr _ \<Rightarrow>
     (case parse_method L (sa_method a) of Inl e \<Rightarrow> (Inl (request (''bad method: '' @ e)), c) | Inr _ \<Rightarrow>
     (case parse_url L (sa_url a) of Inl e \<Rightarrow> (Inl (request (''bad url: '' @ e)), c) | Inr _ \<Rightarrow>
     (case (case sa_headers a of Some block \<Rightarrow> decode_headers (header_name L) (header_value L) block | None \<Rightarrow> Inr []) of
        Inl e \<Rightarrow> (Inl e, c) | Inr _ \<Rightarrow>
     (case sem_try L (cl_admission c) of
        None \<Rightarrow> (Inl (busy ''too many requests in flight''), c)
      | Some s \<Rightarrow>
          (Inr (cl_next_id c), c\<lparr>cl_admission := s, cl_next_id := cl_next_id c + 1\<rparr>))))))"

text \<open>Where a task is: at an await point, about to leave the \<^verbatim>\<open>select!\<close>, or in a statement of its guard.
  The guard carries whether it found the request cancelled.\<close>

datatype task_pc =
    Sending
  | Creating
  | Next
  | Writing
  | Acquiring bytes
  | Flushing
  | Failed http_error
  | Returned
  | GuardPermit bool
  | GuardFlight bool
  | GuardReady bool
  | GuardSettle bool
  | Finished

record 'sem task =
  tk_pc :: task_pc
  tk_sink :: bool
  tk_max_body :: u64
  tk_sh :: "'sem shared"

definition new_shared :: "'sem lib \<Rightarrow> u64 \<Rightarrow> 'sem client \<Rightarrow> 'sem shared" where
  "new_shared L i c =
     \<lparr>sh_id = i,
      sh_st = \<lparr>st_settled = False, st_err = None, st_status = 0, st_headers = [], st_head_done = False,
               st_chunks = [], st_buffered = 0, st_eof = False\<rparr>,
      sh_received = 0, sh_total = - 1, sh_cancel = False, sh_chunk_permits = sem_new L (cl_queue_chunks c)\<rparr>"

definition spawn ::
  "'sem lib \<Rightarrow> start_args \<Rightarrow> u64 \<Rightarrow> 'sem client \<Rightarrow> (http_error, 'sem task) result \<times> 'sem client" where
  "spawn L a i c =
     (if cl_rt c then
        (Inr \<lparr>tk_pc = Sending, tk_sink = (sa_sink a \<noteq> None), tk_max_body = sa_max_body a, tk_sh = new_shared L i c\<rparr>,
         c\<lparr>cl_in_flight := cl_in_flight c + 1\<rparr>)
      else (Inl (usage ''client is shut down''), c))"

section \<open>The task\<close>

text \<open>What the network, the file system and the timers answer at an await point.\<close>

datatype io_event =
    SendOk u16 "field list" "u64 option" | SendErr bool bytes
  | FileOk | FileErr bytes
  | Item bytes | ItemErr bool bytes | StreamEnd
  | WroteOk | WroteErr bytes
  | SlotFree | Stalled
  | FlushOk | FlushErr bytes

definition io_error :: "bool \<Rightarrow> bytes \<Rightarrow> http_error" where
  "io_error timeout msg = http_error_new (if timeout then ''timeout'' else ''transport'') msg"

definition map_st :: "(req_state \<Rightarrow> req_state) \<Rightarrow> 'sem shared \<Rightarrow> 'sem shared" where
  "map_st f sh = sh\<lparr>sh_st := f (sh_st sh)\<rparr>"

definition on_head :: "u16 \<Rightarrow> field list \<Rightarrow> u64 option \<Rightarrow> 'sem task \<Rightarrow> 'sem task" where
  "on_head status fs len t =
     t\<lparr>tk_sh := (map_st (\<lambda>st. st\<lparr>st_status := status, st_headers := encode_headers fs, st_head_done := True\<rparr>) (tk_sh t))
          \<lparr>sh_total := (case len of Some n \<Rightarrow> n | None \<Rightarrow> sh_total (tk_sh t))\<rparr>,
       tk_pc := (if tk_sink t then Creating else Next)\<rparr>"

definition on_item :: "bytes \<Rightarrow> 'sem task \<Rightarrow> 'sem task" where
  "on_item bs t =
     (let total = sh_received (tk_sh t) + of_nat (length bs);
          t' = t\<lparr>tk_sh := (tk_sh t)\<lparr>sh_received := total\<rparr>\<rparr>
      in if 0 < tk_max_body t \<and> tk_max_body t < total then
           t'\<lparr>tk_pc := Failed (http_error_new ''too-large''
                 (''body exceeded '' @ dec (unat (tk_max_body t)) @ '' bytes''))\<rparr>
         else t'\<lparr>tk_pc := (if tk_sink t then Writing else Acquiring bs)\<rparr>)"

definition push_chunk :: "'sem \<Rightarrow> bytes \<Rightarrow> 'sem task \<Rightarrow> 'sem task" where
  "push_chunk permits bs t =
     t\<lparr>tk_sh := (map_st (\<lambda>st. st\<lparr>st_buffered := st_buffered st + of_nat (length bs), st_chunks := st_chunks st @ [bs]\<rparr>)
            (tk_sh t))\<lparr>sh_chunk_permits := permits\<rparr>,
       tk_pc := Next\<rparr>"

definition at_eof :: "'sem task \<Rightarrow> 'sem task" where
  "at_eof t = t\<lparr>tk_sh := map_st (\<lambda>st. st\<lparr>st_eof := True\<rparr>) (tk_sh t), tk_pc := Returned\<rparr>"

definition goto :: "task_pc \<Rightarrow> 'sem task \<Rightarrow> 'sem task" where
  "goto pc t = t\<lparr>tk_pc := pc\<rparr>"

definition run_request :: "'sem lib \<Rightarrow> io_event \<Rightarrow> 'sem task \<Rightarrow> 'sem task option" where
  "run_request L e t =
     (case (tk_pc t, e) of
        (Sending, SendOk status fs len) \<Rightarrow> Some (on_head status fs len t)
      | (Sending, SendErr timeout msg) \<Rightarrow> Some (goto (Failed (io_error timeout msg)) t)
      | (Creating, FileOk) \<Rightarrow> Some (goto Next t)
      | (Creating, FileErr msg) \<Rightarrow> Some (goto (Failed (http_error_new ''io'' msg)) t)
      | (Next, Item bs) \<Rightarrow> Some (on_item bs t)
      | (Next, ItemErr timeout msg) \<Rightarrow> Some (goto (Failed (io_error timeout msg)) t)
      | (Next, StreamEnd) \<Rightarrow> Some (if tk_sink t then goto Flushing t else at_eof t)
      | (Writing, WroteOk) \<Rightarrow> Some (goto Next t)
      | (Writing, WroteErr msg) \<Rightarrow> Some (goto (Failed (http_error_new ''io'' msg)) t)
      | (Acquiring bs, SlotFree) \<Rightarrow> map_option (\<lambda>p. push_chunk p bs t) (sem_try L (sh_chunk_permits (tk_sh t)))
      | (Acquiring bs, Stalled) \<Rightarrow>
          Some (goto (Failed (http_error_new ''stalled'' ''reader did not drain the buffer in time'')) t)
      | (Flushing, FlushOk) \<Rightarrow> Some (at_eof t)
      | (Flushing, FlushErr msg) \<Rightarrow> Some (goto (Failed (http_error_new ''io'' msg)) t)
      | _ \<Rightarrow> None)"

fun awaiting :: "task_pc \<Rightarrow> bool" where
  "awaiting Sending = True"
| "awaiting Creating = True"
| "awaiting Next = True"
| "awaiting Writing = True"
| "awaiting (Acquiring bs) = True"
| "awaiting Flushing = True"
| "awaiting _ = False"

definition cancelled :: "'sem lib \<Rightarrow> 'sem client \<Rightarrow> 'sem task \<Rightarrow> bool" where
  "cancelled L c t = tok_cancelled L (cl_cancel_all c) (sh_cancel (tk_sh t))"

text \<open>
  Leaving the \<^verbatim>\<open>select!\<close>: its cancelled arm at an await point, the \<^verbatim>\<open>Err\<close> of the work settles the request
  first, and then (as when a runtime that was taken drops the future) the guard is dropped, which first
  asks whether the request is cancelled.
\<close>

definition leave_select :: "'sem lib \<Rightarrow> 'sem client \<Rightarrow> 'sem task \<Rightarrow> 'sem task option" where
  "leave_select L c t =
     (case tk_pc t of
        Failed e \<Rightarrow> Some (t\<lparr>tk_sh := map_st (settle (Some e)) (tk_sh t), tk_pc := Returned\<rparr>)
      | Returned \<Rightarrow> Some (goto (GuardPermit (cancelled L c t)) t)
      | _ \<Rightarrow>
          if awaiting (tk_pc t) \<and> (cancelled L c t \<or> \<not> cl_rt c) then Some (goto (GuardPermit (cancelled L c t)) t)
          else None)"

text \<open>\<^verbatim>\<open>TaskGuard::drop\<close>, statement by statement.\<close>

definition guard_drop :: "'sem lib \<Rightarrow> 'sem client \<Rightarrow> 'sem task \<Rightarrow> ('sem client \<times> 'sem task) option" where
  "guard_drop L c t =
     (case tk_pc t of
        GuardPermit b \<Rightarrow> Some (c\<lparr>cl_admission := sem_add L 1 (cl_admission c)\<rparr>, goto (GuardFlight b) t)
      | GuardFlight b \<Rightarrow> Some (c\<lparr>cl_in_flight := cl_in_flight c - 1\<rparr>, goto (GuardReady b) t)
      | GuardReady b \<Rightarrow> Some (c\<lparr>cl_ready := ready_push (sh_id (tk_sh t)) (cl_ready c)\<rparr>, goto (GuardSettle b) t)
      | GuardSettle b \<Rightarrow>
          Some (c, t\<lparr>tk_sh := map_st (settle (if b then Some (http_error_new ''cancelled'' ''request cancelled'') else None))
                       (tk_sh t), tk_pc := Finished\<rparr>)
      | _ \<Rightarrow> None)"

lemma shutdown_all_refuses:
  assumes "Some c \<in> set (shutdown_all reg)"
  shows "fst (admit L a c) = Inl (usage ''client is shut down'') \<and>
    fst (spawn L a i c) = Inl (usage ''client is shut down'') \<and> cl_cancel_all c"
proof -
  from assms obtain c0 where "c = wind_down c0" by (auto simp: shutdown_all_def map_option_case split: option.splits)
  then show ?thesis
    by (simp add: wind_down_def take_rt_def cancel_everything_def store_down_def admit_def check_up_def spawn_def)
qed

section \<open>What Lisp asks of a request\<close>

definition req_id :: "'sem shared \<Rightarrow> u64" where
  "req_id sh = sh_id sh"

definition req_settled :: "'sem shared \<Rightarrow> bool" where
  "req_settled sh = st_settled (sh_st sh)"

definition req_done :: "'sem shared \<Rightarrow> bool" where
  "req_done sh \<longleftrightarrow> st_settled (sh_st sh) \<and> st_chunks (sh_st sh) = []"

definition req_failed :: "'sem shared \<Rightarrow> bool" where
  "req_failed sh \<longleftrightarrow> st_err (sh_st sh) \<noteq> None"

definition req_error_kind :: "'sem shared \<Rightarrow> bytes option" where
  "req_error_kind sh = map_option he_kind (st_err (sh_st sh))"

definition req_error_message :: "'sem shared \<Rightarrow> bytes option" where
  "req_error_message sh = map_option he_msg (st_err (sh_st sh))"

definition req_status :: "'sem shared \<Rightarrow> u16" where
  "req_status sh = st_status (sh_st sh)"

definition req_head_done :: "'sem shared \<Rightarrow> bool" where
  "req_head_done sh = st_head_done (sh_st sh)"

definition req_headers :: "'sem shared \<Rightarrow> bytes" where
  "req_headers sh = st_headers (sh_st sh)"

definition req_header :: "'sem shared \<Rightarrow> bytes \<Rightarrow> bytes option" where
  "req_header sh name = header (st_headers (sh_st sh)) name"

definition req_received :: "'sem shared \<Rightarrow> u64" where
  "req_received sh = sh_received sh"

definition req_total :: "'sem shared \<Rightarrow> u64 option" where
  "req_total sh = (if sint (sh_total sh) < 0 then None else Some (sh_total sh))"

definition req_buffered :: "'sem shared \<Rightarrow> u64" where
  "req_buffered sh = st_buffered (sh_st sh)"

text \<open>\<^verbatim>\<open>Req::read\<close> after its one capped wait, under the lock: the answer, and whether the slot is given back.\<close>

definition read_st :: "u64 \<Rightarrow> req_state \<Rightarrow> (http_error, bytes option) result \<times> bool \<times> req_state" where
  "read_st max_bytes st =
     (let m = (if max_bytes = 0 then 2 ^ 64 - 1 else unat max_bytes)
      in case st_chunks st of
           chunk # cs \<Rightarrow>
             if m < length chunk then
               (Inr (Some (take m chunk)), False,
                st\<lparr>st_chunks := List.drop m chunk # cs, st_buffered := st_buffered st - of_nat m\<rparr>)
             else (Inr (Some chunk), True,
                   st\<lparr>st_chunks := cs, st_buffered := st_buffered st - of_nat (length chunk)\<rparr>)
         | [] \<Rightarrow>
             (if st_settled st then (case st_err st of Some e \<Rightarrow> Inl e | None \<Rightarrow> Inr None) else Inr None, False, st))"

definition req_wait :: "bool \<Rightarrow> 'sem shared \<Rightarrow> (http_error, bool) result" where
  "req_wait in_runtime sh = bindR (refuse_reentry in_runtime) (\<lambda>_. Inr (st_settled (sh_st sh)))"

definition req_cancel :: "'sem shared \<Rightarrow> 'sem shared" where
  "req_cancel sh = sh\<lparr>sh_cancel := True\<rparr>"

end
