(* ===== verification/Schedule.thy ===== *)
theory Schedule
  imports Main
begin

text \<open>
  Executing a step relation.  The systems of the development are inductive relations; each has an executable
  reading of its steps, and a list of operations run by it is a run of the relation.
\<close>

fun run_ops :: "('op \<Rightarrow> 's \<Rightarrow> 's option) \<Rightarrow> 'op list \<Rightarrow> 's \<Rightarrow> 's option" where
  "run_ops exec [] s = Some s"
| "run_ops exec (op # ops) s = (case exec op s of None \<Rightarrow> None | Some s' \<Rightarrow> run_ops exec ops s')"

locale schedule =
  fixes step :: "'s \<Rightarrow> 's \<Rightarrow> bool" and exec :: "'op \<Rightarrow> 's \<Rightarrow> 's option"
  assumes sound: "exec op s = Some s' \<Longrightarrow> step s s'"
begin

lemma run_steps: "run_ops exec ops s = Some s' \<Longrightarrow> step\<^sup>*\<^sup>* s s'"
proof (induction ops arbitrary: s)
  case (Cons op ops)
  then obtain t where "exec op s = Some t" and "run_ops exec ops t = Some s'"
    by (auto split: option.splits)
  then show ?case using Cons.IH sound by (blast intro: converse_rtranclp_into_rtranclp)
qed simp

lemma run_invariant:
  assumes "run_ops exec ops s = Some s'" and "P s" and "\<And>s s'. P s \<Longrightarrow> step s s' \<Longrightarrow> P s'"
  shows "P s'"
  using run_steps [OF assms(1)] assms(2)
  by (induction rule: rtranclp.induct) (auto intro: assms(3))

end

end
