(* ===== verification/Fetch_System.thy ===== *)
theory Fetch_System
  imports Fetch Schedule
begin

text \<open>
  The fetch client running: one client handle, the calls of \<^verbatim>\<open>Req::start\<close> between their admission and their
  spawn, and the requests with their tasks and readers.  The step relation interleaves them freely; what a
  mutex or an atomic operation makes indivisible is one step.

  A request carries two records of what crossed its ends: the bytes the network delivered to its task and
  the bytes its readers took.
\<close>

section \<open>A request with its readers\<close>

record 'sem req =
  rq_task :: "'sem task"
  rq_returning :: nat
  rq_net :: bytes
  rq_read :: bytes

abbreviation rq_sh :: "'sem req \<Rightarrow> 'sem shared" where
  "rq_sh r \<equiv> tk_sh (rq_task r)"

abbreviation rq_st :: "'sem req \<Rightarrow> req_state" where
  "rq_st r \<equiv> sh_st (tk_sh (rq_task r))"

abbreviation rq_pc :: "'sem req \<Rightarrow> task_pc" where
  "rq_pc r \<equiv> tk_pc (rq_task r)"

fun delivered :: "io_event \<Rightarrow> bytes" where
  "delivered (Item bs) = bs"
| "delivered _ = []"

definition rq_new :: "'sem task \<Rightarrow> 'sem req" where
  "rq_new t = \<lparr>rq_task = t, rq_returning = 0, rq_net = [], rq_read = []\<rparr>"

definition rq_io :: "'sem lib \<Rightarrow> io_event \<Rightarrow> 'sem req \<Rightarrow> 'sem req option" where
  "rq_io L e r = map_option (\<lambda>t. r\<lparr>rq_task := t, rq_net := rq_net r @ delivered e\<rparr>) (run_request L e (rq_task r))"

definition rq_leave :: "'sem lib \<Rightarrow> 'sem client \<Rightarrow> 'sem req \<Rightarrow> 'sem req option" where
  "rq_leave L c r = map_option (\<lambda>t. r\<lparr>rq_task := t\<rparr>) (leave_select L c (rq_task r))"

definition rq_guard :: "'sem lib \<Rightarrow> 'sem client \<Rightarrow> 'sem req \<Rightarrow> ('sem client \<times> 'sem req) option" where
  "rq_guard L c r = map_option (\<lambda>(c', t). (c', r\<lparr>rq_task := t\<rparr>)) (guard_drop L c (rq_task r))"

text \<open>\<^verbatim>\<open>Req::read\<close>: under the lock; the slot goes back in a later step.\<close>

definition rq_take :: "u64 \<Rightarrow> 'sem req \<Rightarrow> (http_error, bytes option) result \<times> 'sem req" where
  "rq_take m r =
     (case read_st m (rq_st r) of (ans, give_back, st) \<Rightarrow>
        (ans, r\<lparr>rq_task := (rq_task r)\<lparr>tk_sh := (rq_sh r)\<lparr>sh_st := st\<rparr>\<rparr>,
                rq_returning := rq_returning r + (if give_back then 1 else 0),
                rq_read := rq_read r @ (case ans of Inr (Some bs) \<Rightarrow> bs | _ \<Rightarrow> [])\<rparr>))"

definition rq_give :: "'sem lib \<Rightarrow> 'sem req \<Rightarrow> 'sem req option" where
  "rq_give L r =
     (case rq_returning r of 0 \<Rightarrow> None
      | Suc n \<Rightarrow> Some (r\<lparr>rq_task := (rq_task r)\<lparr>tk_sh := (rq_sh r)\<lparr>sh_chunk_permits := sem_add L 1 (sh_chunk_permits (rq_sh r))\<rparr>\<rparr>,
                         rq_returning := n\<rparr>))"

definition rq_cancel :: "'sem req \<Rightarrow> 'sem req" where
  "rq_cancel r = r\<lparr>rq_task := (rq_task r)\<lparr>tk_sh := req_cancel (rq_sh r)\<rparr>\<rparr>"

section \<open>The system\<close>

record 'sem sys =
  sy_client :: "'sem client"
  sy_max :: nat
  sy_starting :: "(start_args \<times> u64) list"
  sy_leaked :: nat
  sy_reqs :: "'sem req list"

inductive fetch_step :: "'sem lib \<Rightarrow> 'sem sys \<Rightarrow> 'sem sys \<Rightarrow> bool" for L where
  admit_ok: "admit L a (sy_client s) = (Inr i, c) \<Longrightarrow>
     fetch_step L s (s\<lparr>sy_client := c, sy_starting := (a, i) # sy_starting s\<rparr>)"
| spawn_ok: "sy_starting s = xs @ (a, i) # ys \<Longrightarrow> spawn L a i (sy_client s) = (Inr t, c) \<Longrightarrow>
     fetch_step L s (s\<lparr>sy_client := c, sy_starting := xs @ ys, sy_reqs := sy_reqs s @ [rq_new t]\<rparr>)"
| spawn_down: "sy_starting s = xs @ (a, i) # ys \<Longrightarrow> spawn L a i (sy_client s) = (Inl e, c) \<Longrightarrow>
     fetch_step L s (s\<lparr>sy_client := c, sy_starting := xs @ ys, sy_leaked := Suc (sy_leaked s)\<rparr>)"
| io: "sy_reqs s = xs @ r # ys \<Longrightarrow> rq_io L e r = Some r' \<Longrightarrow> fetch_step L s (s\<lparr>sy_reqs := xs @ r' # ys\<rparr>)"
| leave: "sy_reqs s = xs @ r # ys \<Longrightarrow> rq_leave L (sy_client s) r = Some r' \<Longrightarrow>
     fetch_step L s (s\<lparr>sy_reqs := xs @ r' # ys\<rparr>)"
| guard: "sy_reqs s = xs @ r # ys \<Longrightarrow> rq_guard L (sy_client s) r = Some (c, r') \<Longrightarrow>
     fetch_step L s (s\<lparr>sy_client := c, sy_reqs := xs @ r' # ys\<rparr>)"
| read: "sy_reqs s = xs @ r # ys \<Longrightarrow> rq_take m r = (ans, r') \<Longrightarrow> fetch_step L s (s\<lparr>sy_reqs := xs @ r' # ys\<rparr>)"
| give: "sy_reqs s = xs @ r # ys \<Longrightarrow> rq_give L r = Some r' \<Longrightarrow> fetch_step L s (s\<lparr>sy_reqs := xs @ r' # ys\<rparr>)"
| cancel: "sy_reqs s = xs @ r # ys \<Longrightarrow> fetch_step L s (s\<lparr>sy_reqs := xs @ rq_cancel r # ys\<rparr>)"
| ready: "next_ready in_rt (sy_client s) = (ans, c) \<Longrightarrow> fetch_step L s (s\<lparr>sy_client := c\<rparr>)"
| down: "fetch_step L s (s\<lparr>sy_client := store_down (sy_client s)\<rparr>)"
| cancel_all: "cl_down (sy_client s) \<Longrightarrow> fetch_step L s (s\<lparr>sy_client := cancel_everything (sy_client s)\<rparr>)"
| stop_rt: "cl_cancel_all (sy_client s) \<Longrightarrow> fetch_step L s (s\<lparr>sy_client := take_rt (sy_client s)\<rparr>)"

definition fetch_init :: "'sem client \<Rightarrow> nat \<Rightarrow> 'sem sys" where
  "fetch_init c n = \<lparr>sy_client = c, sy_max = n, sy_starting = [], sy_leaked = 0, sy_reqs = []\<rparr>"

inductive fetch_reach :: "'sem lib \<Rightarrow> 'sem sys \<Rightarrow> bool" for L where
  made: "client_new L built w m q stall = Inr c \<Longrightarrow> fetch_reach L (fetch_init c (unat (clamp 1 4096 m)))"
| step: "fetch_reach L s \<Longrightarrow> fetch_step L s s' \<Longrightarrow> fetch_reach L s'"

section \<open>What holds of one request\<close>

fun phase_ok :: "task_pc \<Rightarrow> req_state \<Rightarrow> bool" where
  "phase_ok Returned st \<longleftrightarrow> (st_settled st \<longleftrightarrow> st_err st \<noteq> None) \<and> (st_settled st \<or> st_eof st)"
| "phase_ok (GuardPermit b) st \<longleftrightarrow> (st_settled st \<longleftrightarrow> st_err st \<noteq> None) \<and> (st_settled st \<or> st_eof st \<or> b)"
| "phase_ok (GuardFlight b) st \<longleftrightarrow> (st_settled st \<longleftrightarrow> st_err st \<noteq> None) \<and> (st_settled st \<or> st_eof st \<or> b)"
| "phase_ok (GuardReady b) st \<longleftrightarrow> (st_settled st \<longleftrightarrow> st_err st \<noteq> None) \<and> (st_settled st \<or> st_eof st \<or> b)"
| "phase_ok (GuardSettle b) st \<longleftrightarrow> (st_settled st \<longleftrightarrow> st_err st \<noteq> None) \<and> (st_settled st \<or> st_eof st \<or> b)"
| "phase_ok Finished st \<longleftrightarrow> st_settled st \<and> (st_err st \<noteq> None \<or> st_eof st)"
| "phase_ok _ st \<longleftrightarrow> \<not> st_settled st \<and> st_err st = None \<and> \<not> st_eof st"

fun pending :: "task_pc \<Rightarrow> bytes" where
  "pending (Acquiring bs) = bs"
| "pending _ = []"

abbreviation out :: "'sem req \<Rightarrow> bytes" where
  "out r \<equiv> rq_read r @ concat (st_chunks (rq_st r))"

definition body_ok :: "'sem req \<Rightarrow> bool" where
  "body_ok r \<longleftrightarrow>
     (\<exists>lost. rq_net r = out r @ lost) \<and>
     (awaiting (rq_pc r) \<and> \<not> tk_sink (rq_task r) \<longrightarrow> rq_net r = out r @ pending (rq_pc r)) \<and>
     (st_eof (rq_st r) \<and> \<not> tk_sink (rq_task r) \<longrightarrow> rq_net r = out r) \<and>
     (tk_sink (rq_task r) \<longrightarrow> st_chunks (rq_st r) = [] \<and> rq_read r = [] \<and> (\<forall>bs. rq_pc r \<noteq> Acquiring bs))"

definition slots_ok :: "'sem lib \<Rightarrow> nat \<Rightarrow> 'sem req \<Rightarrow> bool" where
  "slots_ok L q r \<longleftrightarrow>
     sem_available L (sh_chunk_permits (rq_sh r)) + length (st_chunks (rq_st r)) + rq_returning r = q \<and>
     st_buffered (rq_st r) = of_nat (length (concat (st_chunks (rq_st r)))) \<and>
     sh_received (rq_sh r) = of_nat (length (rq_net r))"

definition limit_ok :: "'sem req \<Rightarrow> bool" where
  "limit_ok r \<longleftrightarrow>
     (0 < tk_max_body (rq_task r) \<and> length (rq_net r) < 2 ^ 64 \<longrightarrow>
        length (out r) \<le> unat (tk_max_body (rq_task r)) \<and>
        (awaiting (rq_pc r) \<longrightarrow> length (rq_net r) \<le> unat (tk_max_body (rq_task r))))"

lemmas request_defs = rq_io_def rq_leave_def rq_guard_def rq_take_def rq_give_def rq_cancel_def req_cancel_def
  leave_select_def guard_drop_def read_st_def map_st_def goto_def at_eof_def push_chunk_def on_head_def settle_def

lemmas request_splits = task_pc.splits io_event.splits if_splits option.splits list.splits prod.splits nat.splits

lemma rq_io_cases:
  assumes "rq_io L e r = Some r'"
  obtains (head) status fs len where "rq_pc r = Sending" and "r' = r\<lparr>rq_task := on_head status fs len (rq_task r)\<rparr>"
    | (fail) err where "awaiting (rq_pc r)" and "r' = r\<lparr>rq_task := goto (Failed err) (rq_task r)\<rparr>"
    | (resume) "rq_pc r = Creating \<or> rq_pc r = Writing" and "r' = r\<lparr>rq_task := goto Next (rq_task r)\<rparr>"
    | (item) bs where "rq_pc r = Next" and "r' = r\<lparr>rq_task := on_item bs (rq_task r), rq_net := rq_net r @ bs\<rparr>"
    | (flush) "rq_pc r = Next" and "tk_sink (rq_task r)" and "r' = r\<lparr>rq_task := goto Flushing (rq_task r)\<rparr>"
    | (eof) "rq_pc r = Next \<and> \<not> tk_sink (rq_task r) \<or> rq_pc r = Flushing" and "r' = r\<lparr>rq_task := at_eof (rq_task r)\<rparr>"
    | (push) bs p where "rq_pc r = Acquiring bs" and "sem_try L (sh_chunk_permits (rq_sh r)) = Some p"
        and "r' = r\<lparr>rq_task := push_chunk p bs (rq_task r)\<rparr>"
proof -
  have same: "r\<lparr>rq_task := t, rq_net := rq_net r\<rparr> = r\<lparr>rq_task := t\<rparr>" for t by (cases r) simp
  from assms obtain t where run: "run_request L e (rq_task r) = Some t"
    and r': "r' = r\<lparr>rq_task := t, rq_net := rq_net r @ delivered e\<rparr>"
    by (auto simp: rq_io_def)
  note run_simps = run_request_def same
  show ?thesis
  proof (cases "rq_pc r")
    case Sending
    then show ?thesis using run r' by (cases e) (auto simp: run_simps intro: that(1,2))
  next
    case Creating
    then show ?thesis using run r' by (cases e) (auto simp: run_simps intro: that(2,3))
  next
    case Next
    then show ?thesis using run r' by (cases e) (auto simp: run_simps intro: that(2,4,5,6) split: if_splits)
  next
    case Writing
    then show ?thesis using run r' by (cases e) (auto simp: run_simps intro: that(2,3))
  next
    case (Acquiring bs)
    then show ?thesis using run r' by (cases e) (auto simp: run_simps intro: that(2,7))
  next
    case Flushing
    then show ?thesis using run r' by (cases e) (auto simp: run_simps intro: that(2,6))
  qed (use run in \<open>simp_all add: run_request_def\<close>)
qed

lemma io_keeps_phase:
  assumes "rq_io L e r = Some r'" and "phase_ok (rq_pc r) (rq_st r)"
  shows "phase_ok (rq_pc r') (rq_st r')"
  using assms(1)
proof (cases rule: rq_io_cases)
  case (fail err)
  then show ?thesis using assms(2) by (cases "rq_pc r") (simp_all add: request_defs)
next
  case (item bs)
  then show ?thesis using assms(2) by (simp add: on_item_def Let_def)
qed (use assms(2) in \<open>auto simp: request_defs\<close>)

lemma leave_keeps_phase:
  assumes "rq_leave L c r = Some r'" and "phase_ok (rq_pc r) (rq_st r)"
    and "lib_ok L" and "cl_rt c \<or> cl_cancel_all c"
  shows "phase_ok (rq_pc r') (rq_st r')"
  using assms(1,2,4)
  by (auto simp: request_defs cancelled_def lib_okD [OF assms(3)] split: request_splits)

lemma guard_keeps_phase:
  assumes "rq_guard L c r = Some (c', r')" and "phase_ok (rq_pc r) (rq_st r)"
  shows "phase_ok (rq_pc r') (rq_st r')"
  using assms by (auto simp: request_defs split: request_splits)

lemma phase_cong:
  "st_settled st' = st_settled st \<Longrightarrow> st_err st' = st_err st \<Longrightarrow> st_eof st' = st_eof st \<Longrightarrow>
   phase_ok pc st' = phase_ok pc st"
  by (cases pc) simp_all

lemma body_io:
  assumes "rq_io L e r = Some r'" and "body_ok r" and "phase_ok (rq_pc r) (rq_st r)"
  shows "body_ok r'"
  using assms(1)
proof (cases rule: rq_io_cases)
  case (fail err)
  then show ?thesis using assms(2,3) by (cases "rq_pc r") (simp_all add: request_defs body_ok_def)
next
  case (item bs)
  then show ?thesis using assms(2,3) by (auto simp: body_ok_def on_item_def Let_def)
next
  case (push bs p)
  then show ?thesis using assms(2,3) by (auto simp: body_ok_def push_chunk_def map_st_def)
qed (use assms(2,3) in \<open>auto simp: request_defs body_ok_def\<close>)

lemma body_leave:
  assumes "rq_leave L c r = Some r'" and "body_ok r"
  shows "body_ok r'"
  using assms by (auto simp: body_ok_def request_defs split: request_splits)

lemma body_guard:
  assumes "rq_guard L c r = Some (c', r')" and "body_ok r"
  shows "body_ok r'"
  using assms by (auto simp: body_ok_def request_defs split: request_splits)

lemma rq_take_cases:
  assumes "rq_take m r = (ans, r')"
  obtains (part) chunk cs n where "st_chunks (rq_st r) = chunk # cs" and "n \<le> length chunk"
      and "ans = Inr (Some (take n chunk))"
      and "r' = r\<lparr>rq_task := (rq_task r)\<lparr>tk_sh := (rq_sh r)\<lparr>sh_st := (rq_st r)
             \<lparr>st_chunks := List.drop n chunk # cs, st_buffered := st_buffered (rq_st r) - of_nat n\<rparr>\<rparr>\<rparr>,
             rq_read := rq_read r @ take n chunk\<rparr>"
    | (whole) chunk cs where "st_chunks (rq_st r) = chunk # cs" and "ans = Inr (Some chunk)"
      and "r' = r\<lparr>rq_task := (rq_task r)\<lparr>tk_sh := (rq_sh r)\<lparr>sh_st := (rq_st r)
             \<lparr>st_chunks := cs, st_buffered := st_buffered (rq_st r) - of_nat (length chunk)\<rparr>\<rparr>\<rparr>,
             rq_returning := Suc (rq_returning r), rq_read := rq_read r @ chunk\<rparr>"
    | (none) "st_chunks (rq_st r) = []" and "r' = r"
      and "ans = (case st_err (rq_st r) of Some e \<Rightarrow> if st_settled (rq_st r) then Inl e else Inr None | None \<Rightarrow> Inr None)"
proof (cases "st_chunks (rq_st r)")
  case Nil
  then show ?thesis using assms none by (auto simp: rq_take_def read_st_def split: option.splits)
next
  case (Cons chunk cs)
  show ?thesis
  proof (cases "(if m = 0 then 2 ^ 64 - 1 else unat m) < length chunk")
    case True
    then show ?thesis
      using Cons assms part [OF Cons, of "if m = 0 then 2 ^ 64 - 1 else unat m"] by (auto simp: rq_take_def read_st_def Let_def)
  next
    case False
    then show ?thesis using Cons assms whole [OF Cons] by (auto simp: rq_take_def read_st_def Let_def)
  qed
qed

lemma take_out:
  assumes "rq_take m r = (ans, r')"
  shows "out r' = out r \<and> rq_net r' = rq_net r \<and> rq_pc r' = rq_pc r \<and> st_eof (rq_st r') = st_eof (rq_st r) \<and>
    st_settled (rq_st r') = st_settled (rq_st r) \<and> st_err (rq_st r') = st_err (rq_st r) \<and>
    tk_sink (rq_task r') = tk_sink (rq_task r) \<and> tk_max_body (rq_task r') = tk_max_body (rq_task r)"
  using assms by (cases rule: rq_take_cases) simp_all

lemma body_take:
  assumes "rq_take m r = (ans, r')" and "body_ok r"
  shows "body_ok r'"
proof -
  have "st_chunks (rq_st r) = [] \<Longrightarrow> r' = r"
    using assms(1) by (cases rule: rq_take_cases) simp_all
  then show ?thesis
    using assms(2) take_out [OF assms(1)] by (auto simp: body_ok_def)
qed

lemma slots_io:
  assumes "rq_io L e r = Some r'" and "slots_ok L q r" and "lib_ok L"
  shows "slots_ok L q r'"
  using assms(1)
proof (cases rule: rq_io_cases)
  case (push bs p)
  then show ?thesis
    using assms(2) lib_okD(3) [OF assms(3)] by (auto simp: slots_ok_def push_chunk_def map_st_def)
next
  case (item bs)
  then show ?thesis using assms(2) by (simp add: slots_ok_def on_item_def Let_def)
qed (use assms(2) in \<open>simp_all add: slots_ok_def request_defs\<close>)

lemma slots_take:
  assumes "rq_take m r = (ans, r')" and "slots_ok L q r"
  shows "slots_ok L q r'"
  using assms(1)
proof (cases rule: rq_take_cases)
  case (part chunk cs n)
  then show ?thesis using assms(2) by (simp add: slots_ok_def of_nat_diff)
qed (use assms(2) in \<open>simp_all add: slots_ok_def\<close>)

lemma slots_give:
  assumes "rq_give L r = Some r'" and "slots_ok L q r" and "lib_ok L"
  shows "slots_ok L q r'"
  using assms(1,2) lib_okD(4) [OF assms(3)] by (auto simp: rq_give_def slots_ok_def split: nat.splits)

lemma on_item_over:
  assumes "0 < tk_max_body t" and "tk_max_body t < sh_received (tk_sh t) + of_nat (length bs)"
  shows "\<not> awaiting (tk_pc (on_item bs t))"
  using assms unfolding on_item_def Let_def by simp

lemma limit_io:
  assumes "rq_io L e r = Some r'" and "limit_ok r" and "body_ok r" and "slots_ok L q r"
  shows "limit_ok r'"
  using assms(1)
proof (cases rule: rq_io_cases)
  case (fail err)
  then show ?thesis using assms(2) by (auto simp: limit_ok_def goto_def)
next
  case (item bs)
  have sum: "sh_received (rq_sh r) + of_nat (length bs) = of_nat (length (rq_net r'))"
    using item(2) assms(4) by (simp add: slots_ok_def)
  show ?thesis
  proof (cases "0 < tk_max_body (rq_task r) \<and> length (rq_net r') < 2 ^ 64")
    case over: True
    have "length (rq_net r') \<le> unat (tk_max_body (rq_task r)) \<or> \<not> awaiting (rq_pc r')"
    proof (cases "tk_max_body (rq_task r) < of_nat (length (rq_net r'))")
      case True
      then have "\<not> awaiting (rq_pc r')"
        using on_item_over [of "rq_task r" bs] item(2) over sum by simp
      then show ?thesis by blast
    next
      case False
      then have "unat (of_nat (length (rq_net r')) :: u64) \<le> unat (tk_max_body (rq_task r))"
        by (simp add: word_le_nat_alt not_less)
      with over show ?thesis by (simp add: unat_of_nat)
    qed
    moreover have "out r' = out r" "tk_max_body (rq_task r') = tk_max_body (rq_task r)" "length (rq_net r) \<le> length (rq_net r')"
      using item by (auto simp: on_item_def Let_def)
    ultimately show ?thesis using over assms(2) by (auto simp: limit_ok_def)
  next
    case False
    then show ?thesis using item by (auto simp: limit_ok_def on_item_def Let_def)
  qed
next
  case (push bs p)
  have "rq_net r' = rq_net r" "tk_max_body (rq_task r') = tk_max_body (rq_task r)" "out r' = out r @ bs"
    using push by (simp_all add: push_chunk_def map_st_def)
  moreover have "rq_net r = out r @ bs" using push assms(3) by (auto simp: body_ok_def)
  ultimately show ?thesis using assms(2) push(1) by (auto simp: limit_ok_def)
qed (use assms(2) in \<open>auto simp: limit_ok_def request_defs\<close>)

lemma leave_frame:
  assumes "rq_leave L c r = Some r'"
  shows "out r' = out r \<and> rq_net r' = rq_net r \<and> rq_returning r' = rq_returning r \<and>
    tk_max_body (rq_task r') = tk_max_body (rq_task r) \<and> sh_received (rq_sh r') = sh_received (rq_sh r) \<and>
    sh_chunk_permits (rq_sh r') = sh_chunk_permits (rq_sh r) \<and> st_chunks (rq_st r') = st_chunks (rq_st r) \<and>
    st_buffered (rq_st r') = st_buffered (rq_st r) \<and> \<not> awaiting (rq_pc r') \<and> sh_cancel (rq_sh r') = sh_cancel (rq_sh r)"
  using assms by (auto simp: request_defs split: task_pc.splits if_splits)

lemma guard_frame:
  assumes "rq_guard L c r = Some (c', r')"
  shows "out r' = out r \<and> rq_net r' = rq_net r \<and> rq_returning r' = rq_returning r \<and>
    tk_max_body (rq_task r') = tk_max_body (rq_task r) \<and> sh_received (rq_sh r') = sh_received (rq_sh r) \<and>
    sh_chunk_permits (rq_sh r') = sh_chunk_permits (rq_sh r) \<and> st_chunks (rq_st r') = st_chunks (rq_st r) \<and>
    st_buffered (rq_st r') = st_buffered (rq_st r) \<and> \<not> awaiting (rq_pc r') \<and> sh_cancel (rq_sh r') = sh_cancel (rq_sh r)"
  using assms by (auto simp: request_defs split: task_pc.splits)

definition req_ok :: "'sem lib \<Rightarrow> nat \<Rightarrow> 'sem req \<Rightarrow> bool" where
  "req_ok L q r \<longleftrightarrow> phase_ok (rq_pc r) (rq_st r) \<and> body_ok r \<and> slots_ok L q r \<and> limit_ok r"

lemma req_ok_new:
  assumes "lib_ok L" and "spawn L a i c = (Inr t, c')"
  shows "req_ok L (cl_queue_chunks c) (rq_new t)"
  using assms(2) lib_okD(1) [OF assms(1)]
  by (auto simp: req_ok_def rq_new_def spawn_def new_shared_def body_ok_def slots_ok_def limit_ok_def split: if_splits)

lemma req_ok_io: "lib_ok L \<Longrightarrow> rq_io L e r = Some r' \<Longrightarrow> req_ok L q r \<Longrightarrow> req_ok L q r'"
  unfolding req_ok_def using io_keeps_phase body_io slots_io limit_io by blast

lemma req_ok_leave:
  "lib_ok L \<Longrightarrow> cl_rt c \<or> cl_cancel_all c \<Longrightarrow> rq_leave L c r = Some r' \<Longrightarrow> req_ok L q r \<Longrightarrow> req_ok L q r'"
  using leave_keeps_phase [of L c r r'] body_leave [of L c r r'] leave_frame [of L c r r']
  by (auto simp: req_ok_def slots_ok_def limit_ok_def)

lemma req_ok_guard: "rq_guard L c r = Some (c', r') \<Longrightarrow> req_ok L q r \<Longrightarrow> req_ok L q r'"
  using guard_keeps_phase [of L c r c' r'] body_guard [of L c r c' r'] guard_frame [of L c r c' r']
  by (auto simp: req_ok_def slots_ok_def limit_ok_def)

lemma req_ok_take:
  assumes "rq_take m r = (ans, r')" and "req_ok L q r"
  shows "req_ok L q r'"
  using assms(2) body_take [OF assms(1)] slots_take [OF assms(1)] take_out [OF assms(1)]
    phase_cong [of "rq_st r'" "rq_st r"]
  by (simp add: req_ok_def limit_ok_def)

lemma req_ok_frame:
  assumes "req_ok L q r" and "slots_ok L q r'" and "rq_st r' = rq_st r" and "rq_pc r' = rq_pc r"
    and "rq_net r' = rq_net r" and "rq_read r' = rq_read r"
    and "tk_sink (rq_task r') = tk_sink (rq_task r)" and "tk_max_body (rq_task r') = tk_max_body (rq_task r)"
  shows "req_ok L q r'"
  using assms(1,2) unfolding req_ok_def body_ok_def limit_ok_def assms(3-) by blast

lemma req_ok_give:
  assumes "lib_ok L" and "rq_give L r = Some r'" and "req_ok L q r"
  shows "req_ok L q r'"
proof (rule req_ok_frame [OF assms(3)])
  show "slots_ok L q r'" using slots_give [OF assms(2) _ assms(1)] assms(3) by (simp add: req_ok_def)
qed (use assms(2) in \<open>auto simp: rq_give_def split: nat.splits\<close>)

lemma req_ok_cancel: "req_ok L q r \<Longrightarrow> req_ok L q (rq_cancel r)"
  by (rule req_ok_frame) (simp_all add: req_ok_def rq_cancel_def req_cancel_def slots_ok_def)

section \<open>What holds of the client\<close>

text \<open>Whether a task still holds its admission permit, and whether it is still counted in flight.\<close>

fun admitted :: "task_pc \<Rightarrow> bool" where
  "admitted (GuardFlight b) = False"
| "admitted (GuardReady b) = False"
| "admitted (GuardSettle b) = False"
| "admitted Finished = False"
| "admitted _ = True"

fun flying :: "task_pc \<Rightarrow> bool" where
  "flying (GuardReady b) = False"
| "flying (GuardSettle b) = False"
| "flying Finished = False"
| "flying _ = True"

abbreviation holders :: "'sem sys \<Rightarrow> nat" where
  "holders s \<equiv> length (filter (\<lambda>r. admitted (rq_pc r)) (sy_reqs s))"

abbreviation flights :: "'sem sys \<Rightarrow> nat" where
  "flights s \<equiv> length (filter (\<lambda>r. flying (rq_pc r)) (sy_reqs s))"

definition sys_ok :: "'sem lib \<Rightarrow> 'sem sys \<Rightarrow> bool" where
  "sys_ok L s \<longleftrightarrow>
     sem_available L (cl_admission (sy_client s)) + length (sy_starting s) + holders s + sy_leaked s = sy_max s \<and>
     cl_in_flight (sy_client s) = of_nat (flights s) \<and>
     (0 < sy_leaked s \<longrightarrow> \<not> cl_rt (sy_client s)) \<and>
     (cl_rt (sy_client s) \<or> cl_cancel_all (sy_client s)) \<and>
     (cl_cancel_all (sy_client s) \<longrightarrow> cl_down (sy_client s)) \<and>
     length (cl_ready (sy_client s)) \<le> READY_CAP \<and>
     (\<forall>r\<in>set (sy_reqs s). req_ok L (cl_queue_chunks (sy_client s)) r)"

lemma io_pc: "rq_io L e r = Some r' \<Longrightarrow> admitted (rq_pc r) \<and> admitted (rq_pc r') \<and> flying (rq_pc r) \<and> flying (rq_pc r')"
  by (erule rq_io_cases) (auto simp: request_defs on_item_def Let_def elim: awaiting.elims)

lemma leave_pc: "rq_leave L c r = Some r' \<Longrightarrow> admitted (rq_pc r) \<and> admitted (rq_pc r') \<and> flying (rq_pc r) \<and> flying (rq_pc r')"
  by (auto simp: request_defs split: task_pc.splits if_splits)

lemma same_pc:
  "rq_take m r = (ans, r') \<Longrightarrow> rq_pc r' = rq_pc r"
  "rq_give L r = Some r' \<Longrightarrow> rq_pc r' = rq_pc r"
  "rq_pc (rq_cancel r) = rq_pc r"
  by (auto simp: take_out rq_give_def rq_cancel_def split: nat.splits)

lemma ready_push_cap: "length q \<le> READY_CAP \<Longrightarrow> length (ready_push i q) \<le> READY_CAP"
  by (auto simp: ready_push_def READY_CAP_def)

text \<open>A step of one request: what it may do to the client's counters.\<close>

lemma length_filter_mid:
  "length (filter p (xs @ r # ys)) = length (filter p xs) + of_bool (p r) + length (filter p ys)"
  by simp

lemma sys_ok_one:
  assumes "sys_ok L s" and "sy_reqs s = xs @ r # ys"
    and "sem_available L (cl_admission c) + of_bool (admitted (rq_pc r')) =
         sem_available L (cl_admission (sy_client s)) + of_bool (admitted (rq_pc r))"
    and "cl_in_flight c + of_bool (flying (rq_pc r)) = cl_in_flight (sy_client s) + of_bool (flying (rq_pc r'))"
    and "cl_rt c = cl_rt (sy_client s)" and "cl_cancel_all c = cl_cancel_all (sy_client s)"
    and "cl_down c = cl_down (sy_client s)" and "cl_queue_chunks c = cl_queue_chunks (sy_client s)"
    and "length (cl_ready c) \<le> READY_CAP"
    and "req_ok L (cl_queue_chunks (sy_client s)) r \<Longrightarrow> req_ok L (cl_queue_chunks (sy_client s)) r'"
  shows "sys_ok L (s\<lparr>sy_client := c, sy_reqs := xs @ r' # ys\<rparr>)"
proof -
  have "cl_in_flight c = of_nat (length (filter (\<lambda>r. flying (rq_pc r)) (xs @ r' # ys)))"
    using assms(1,4) unfolding sys_ok_def assms(2) length_filter_mid by (auto simp: algebra_simps)
  moreover have "sem_available L (cl_admission c) + length (sy_starting s) +
      length (filter (\<lambda>r. admitted (rq_pc r)) (xs @ r' # ys)) + sy_leaked s = sy_max s"
    using assms(1,3) unfolding sys_ok_def assms(2) length_filter_mid by linarith
  ultimately show ?thesis
    using assms(1,2,5-10) unfolding sys_ok_def by simp
qed

lemma sys_ok_request:
  assumes "sys_ok L s" and "sy_reqs s = xs @ r # ys"
    and "admitted (rq_pc r') = admitted (rq_pc r)" and "flying (rq_pc r') = flying (rq_pc r)"
    and "req_ok L (cl_queue_chunks (sy_client s)) r \<Longrightarrow> req_ok L (cl_queue_chunks (sy_client s)) r'"
  shows "sys_ok L (s\<lparr>sy_reqs := xs @ r' # ys\<rparr>)"
  using sys_ok_one [OF assms(1,2), of "sy_client s" r'] assms(1,3-5) by (simp add: sys_ok_def)

lemma guard_effect:
  assumes "lib_ok L" and "rq_guard L c r = Some (c', r')"
  shows "sem_available L (cl_admission c') + of_bool (admitted (rq_pc r')) =
           sem_available L (cl_admission c) + of_bool (admitted (rq_pc r)) \<and>
         cl_in_flight c' + of_bool (flying (rq_pc r)) = cl_in_flight c + of_bool (flying (rq_pc r')) \<and>
         cl_rt c' = cl_rt c \<and> cl_cancel_all c' = cl_cancel_all c \<and> cl_down c' = cl_down c \<and>
         cl_queue_chunks c' = cl_queue_chunks c \<and> (length (cl_ready c) \<le> READY_CAP \<longrightarrow> length (cl_ready c') \<le> READY_CAP)"
  using assms(2) lib_okD(4) [OF assms(1)]
  by (auto simp: rq_guard_def guard_drop_def goto_def ready_push_cap split: task_pc.splits)

lemma sys_ok_guard:
  assumes "lib_ok L" and "sys_ok L s" and "sy_reqs s = xs @ r # ys"
    and "rq_guard L (sy_client s) r = Some (c, r')"
  shows "sys_ok L (s\<lparr>sy_client := c, sy_reqs := xs @ r' # ys\<rparr>)"
proof -
  have "length (cl_ready (sy_client s)) \<le> READY_CAP" using assms(2) by (simp add: sys_ok_def)
  then show ?thesis
    using guard_effect [OF assms(1,4)] req_ok_guard [OF assms(4)]
    by (intro sys_ok_one [OF assms(2,3)]) simp_all
qed

lemma admit_effect:
  assumes "lib_ok L" and "admit L a c = (Inr i, c')"
  shows "\<exists>s. sem_try L (cl_admission c) = Some s \<and> c' = c\<lparr>cl_admission := s, cl_next_id := cl_next_id c + 1\<rparr> \<and> \<not> cl_down c"
  using assms(2) by (auto simp: admit_def check_up_def split: sum.splits option.splits if_splits)

lemma step_keeps_sys_ok:
  assumes "lib_ok L" and "fetch_step L s s'" and "sys_ok L s"
  shows "sys_ok L s'"
  using assms(2,3)
proof (induction rule: fetch_step.induct)
  case (admit_ok a s i c)
  then show ?case
    using admit_effect [OF assms(1) admit_ok(1)] lib_okD(3) [OF assms(1)] by (auto simp: sys_ok_def)
next
  case (spawn_ok s xs a i ys t c)
  have new: "req_ok L (cl_queue_chunks (sy_client s)) (rq_new t)"
    by (rule req_ok_new [OF assms(1) spawn_ok(2)])
  show ?case
    using spawn_ok new by (auto simp: sys_ok_def spawn_def rq_new_def split: if_splits)
next
  case (spawn_down s xs a i ys e c)
  then show ?case by (auto simp: sys_ok_def spawn_def split: if_splits)
next
  case (io s xs r ys e r')
  show ?case using io_pc [OF io(2)] req_ok_io [OF assms(1) io(2)] by (intro sys_ok_request [OF io(3,1)]) simp_all
next
  case (leave s xs r ys r')
  have "cl_rt (sy_client s) \<or> cl_cancel_all (sy_client s)" using leave(3) by (simp add: sys_ok_def)
  then show ?case
    using leave_pc [OF leave(2)] req_ok_leave [OF assms(1) _ leave(2)] by (intro sys_ok_request [OF leave(3,1)]) simp_all
next
  case (guard s xs r ys c r')
  show ?case by (rule sys_ok_guard [OF assms(1) guard(3,1,2)])
next
  case (read s xs r ys m ans r')
  show ?case using same_pc(1) [OF read(2)] req_ok_take [OF read(2)] by (intro sys_ok_request [OF read(3,1)]) simp_all
next
  case (give s xs r ys r')
  show ?case using same_pc(2) [OF give(2)] req_ok_give [OF assms(1) give(2)] by (intro sys_ok_request [OF give(3,1)]) simp_all
next
  case (cancel s xs r ys)
  show ?case by (intro sys_ok_request [OF cancel(2,1)]) (simp_all add: same_pc req_ok_cancel)
next
  case (ready in_rt s ans c)
  then show ?case
    by (auto simp: sys_ok_def next_ready_def refuse_reentry_def ready_pop_def split: if_splits list.splits)
qed (auto simp: sys_ok_def store_down_def cancel_everything_def take_rt_def)

lemma reach_sys_ok:
  assumes "lib_ok L" and "fetch_reach L s"
  shows "sys_ok L s"
  using assms(2)
proof (induction rule: fetch_reach.induct)
  case (made built w m q stall c)
  then show ?case
    using lib_okD(1) [OF assms(1)]
    by (auto simp: sys_ok_def fetch_init_def client_new_def READY_CAP_def split: sum.splits)
next
  case (step s s')
  then show ?case using step_keeps_sys_ok [OF assms(1)] by blast
qed

section \<open>Teardown\<close>

fun rank :: "task_pc \<Rightarrow> nat" where
  "rank Finished = 0"
| "rank (GuardSettle b) = 1"
| "rank (GuardReady b) = 2"
| "rank (GuardFlight b) = 3"
| "rank (GuardPermit b) = 4"
| "rank Returned = 5"
| "rank (Failed e) = 6"
| "rank _ = 7"

lemma rank_awaiting: "awaiting pc \<longleftrightarrow> rank pc = 7"
  by (cases pc) simp_all

lemma teardown_step:
  assumes "lib_ok L" and "sy_reqs s = xs @ r # ys" and "cancelled L (sy_client s) (rq_task r)" and "rq_pc r \<noteq> Finished"
  shows "\<exists>c r'. fetch_step L s (s\<lparr>sy_client := c, sy_reqs := xs @ r' # ys\<rparr>) \<and> rank (rq_pc r') < rank (rq_pc r) \<and>
    sh_cancel (rq_sh r') = sh_cancel (rq_sh r) \<and> cl_cancel_all c = cl_cancel_all (sy_client s)"
proof (cases "rq_guard L (sy_client s) r")
  case (Some p)
  then obtain c r' where g: "rq_guard L (sy_client s) r = Some (c, r')" by (cases p) simp
  have "rank (rq_pc r') < rank (rq_pc r)"
    using g by (auto simp: rq_guard_def guard_drop_def goto_def split: task_pc.splits)
  then show ?thesis
    using fetch_step.guard [OF assms(2) g] guard_frame [OF g] guard_effect [OF assms(1) g] by blast
next
  case None
  have "\<exists>r'. rq_leave L (sy_client s) r = Some r' \<and> rank (rq_pc r') < rank (rq_pc r)"
    using None assms(3,4)
    by (cases "rq_pc r") (simp_all add: rq_guard_def guard_drop_def rq_leave_def leave_select_def goto_def)
  then obtain r' where l: "rq_leave L (sy_client s) r = Some r'" "rank (rq_pc r') < rank (rq_pc r)" by blast
  have "fetch_step L s (s\<lparr>sy_client := sy_client s, sy_reqs := xs @ r' # ys\<rparr>)"
    using fetch_step.leave [OF assms(2) l(1)] by simp
  then show ?thesis using l leave_frame [OF l(1)] by blast
qed

lemma request_drains:
  assumes "lib_ok L" and "cl_cancel_all (sy_client s)" and "sy_reqs s = xs @ r # ys"
  shows "\<exists>c r'. (fetch_step L)\<^sup>*\<^sup>* s (s\<lparr>sy_client := c, sy_reqs := xs @ r' # ys\<rparr>) \<and>
    rq_pc r' = Finished \<and> cl_cancel_all c"
  using assms(2,3)
proof (induction "rank (rq_pc r)" arbitrary: s r rule: less_induct)
  case less
  show ?case
  proof (cases "rq_pc r = Finished")
    case True
    have "s = s\<lparr>sy_client := sy_client s, sy_reqs := xs @ r # ys\<rparr>" using less.prems(2) by simp
    with True less.prems(1) show ?thesis by (metis rtranclp.rtrancl_refl)
  next
    case False
    have "cancelled L (sy_client s) (rq_task r)"
      using less.prems(1) lib_okD(5) [OF assms(1)] by (simp add: cancelled_def)
    from teardown_step [OF assms(1) less.prems(2) this False] obtain c r' where
      st: "fetch_step L s (s\<lparr>sy_client := c, sy_reqs := xs @ r' # ys\<rparr>)" (is "fetch_step L s ?s")
      and rk: "rank (rq_pc r') < rank (rq_pc r)" and ca: "cl_cancel_all c = cl_cancel_all (sy_client s)" by blast
    from less.hyps [OF rk, of ?s] ca less.prems(1) obtain c2 r2 where
      "(fetch_step L)\<^sup>*\<^sup>* ?s (?s\<lparr>sy_client := c2, sy_reqs := xs @ r2 # ys\<rparr>)" "rq_pc r2 = Finished" "cl_cancel_all c2"
      by auto
    with st show ?thesis by (auto intro: converse_rtranclp_into_rtranclp)
  qed
qed

lemma all_requests_drain:
  assumes "lib_ok L" and "cl_cancel_all (sy_client s)" and "sy_reqs s = xs @ ys" and "\<forall>r\<in>set xs. rq_pc r = Finished"
  shows "\<exists>c rs. (fetch_step L)\<^sup>*\<^sup>* s (s\<lparr>sy_client := c, sy_reqs := rs\<rparr>) \<and> (\<forall>r\<in>set rs. rq_pc r = Finished) \<and>
    length rs = length (sy_reqs s)"
  using assms(2-)
proof (induction ys arbitrary: s xs)
  case Nil
  then have "s = s\<lparr>sy_client := sy_client s, sy_reqs := xs\<rparr>" by simp
  with Nil.prems(2,3) show ?case by (metis append_Nil2 rtranclp.rtrancl_refl)
next
  case (Cons r ys)
  from request_drains [OF assms(1) Cons.prems(1,2)] obtain c r' where
    st: "(fetch_step L)\<^sup>*\<^sup>* s (s\<lparr>sy_client := c, sy_reqs := xs @ r' # ys\<rparr>)" (is "(fetch_step L)\<^sup>*\<^sup>* s ?s")
    and fin: "rq_pc r' = Finished" and ca: "cl_cancel_all c" by blast
  have "\<exists>c rs. (fetch_step L)\<^sup>*\<^sup>* ?s (?s\<lparr>sy_client := c, sy_reqs := rs\<rparr>) \<and> (\<forall>r\<in>set rs. rq_pc r = Finished) \<and>
      length rs = length (sy_reqs ?s)"
    using Cons.prems(3) fin ca by (intro Cons.IH [of ?s "xs @ [r']"]) auto
  with st Cons.prems(2) show ?case by (auto intro: rtranclp_trans)
qed

lemma reach_steps: "(fetch_step L)\<^sup>*\<^sup>* s s' \<Longrightarrow> fetch_reach L s \<Longrightarrow> fetch_reach L s'"
  by (induction rule: rtranclp.induct) (auto intro: fetch_reach.step)

section \<open>Running a schedule\<close>

text \<open>An executable reading of the step relation: the request is chosen by its index.\<close>

datatype fetch_op =
    OAdmit start_args | OSpawn nat | OIo nat io_event | OLeave nat | OGuard nat | OTake nat u64 | OGive nat
  | OCancel nat | OReady | ODown | OCancelAll | OStop

definition at_req :: "nat \<Rightarrow> ('sem req \<Rightarrow> ('sem client \<times> 'sem req) option) \<Rightarrow> 'sem sys \<Rightarrow> 'sem sys option" where
  "at_req i f s =
     (if i < length (sy_reqs s) then
        map_option (\<lambda>(c, r). s\<lparr>sy_client := c, sy_reqs := take i (sy_reqs s) @ r # List.drop (Suc i) (sy_reqs s)\<rparr>)
          (f (sy_reqs s ! i))
      else None)"

fun exec_op :: "'sem lib \<Rightarrow> fetch_op \<Rightarrow> 'sem sys \<Rightarrow> 'sem sys option" where
  "exec_op L (OAdmit a) s =
     (case admit L a (sy_client s) of (Inr i, c) \<Rightarrow> Some (s\<lparr>sy_client := c, sy_starting := (a, i) # sy_starting s\<rparr>) | _ \<Rightarrow> None)"
| "exec_op L (OSpawn k) s =
     (if k < length (sy_starting s) then
        (let rest = take k (sy_starting s) @ List.drop (Suc k) (sy_starting s)
         in case spawn L (fst (sy_starting s ! k)) (snd (sy_starting s ! k)) (sy_client s) of
              (Inr t, c) \<Rightarrow> Some (s\<lparr>sy_client := c, sy_starting := rest, sy_reqs := sy_reqs s @ [rq_new t]\<rparr>)
            | (Inl e, c) \<Rightarrow> Some (s\<lparr>sy_client := c, sy_starting := rest, sy_leaked := Suc (sy_leaked s)\<rparr>))
      else None)"
| "exec_op L (OIo i e) s = at_req i (\<lambda>r. map_option (Pair (sy_client s)) (rq_io L e r)) s"
| "exec_op L (OLeave i) s = at_req i (\<lambda>r. map_option (Pair (sy_client s)) (rq_leave L (sy_client s) r)) s"
| "exec_op L (OGuard i) s = at_req i (rq_guard L (sy_client s)) s"
| "exec_op L (OTake i m) s = at_req i (\<lambda>r. Some (sy_client s, snd (rq_take m r))) s"
| "exec_op L (OGive i) s = at_req i (\<lambda>r. map_option (Pair (sy_client s)) (rq_give L r)) s"
| "exec_op L (OCancel i) s = at_req i (\<lambda>r. Some (sy_client s, rq_cancel r)) s"
| "exec_op L OReady s = Some (s\<lparr>sy_client := snd (next_ready False (sy_client s))\<rparr>)"
| "exec_op L ODown s = Some (s\<lparr>sy_client := store_down (sy_client s)\<rparr>)"
| "exec_op L OCancelAll s =
     (if cl_down (sy_client s) then Some (s\<lparr>sy_client := cancel_everything (sy_client s)\<rparr>) else None)"
| "exec_op L OStop s = (if cl_cancel_all (sy_client s) then Some (s\<lparr>sy_client := take_rt (sy_client s)\<rparr>) else None)"

lemma at_reqE:
  assumes "at_req i f s = Some s'"
  obtains xs r ys c r' where "sy_reqs s = xs @ r # ys" and "f r = Some (c, r')"
    and "s' = s\<lparr>sy_client := c, sy_reqs := xs @ r' # ys\<rparr>"
  using assms id_take_nth_drop [of i "sy_reqs s"] by (auto simp: at_req_def split: if_splits)

lemma same_client [simp]: "s\<lparr>sy_client := sy_client s, sy_reqs := rs\<rparr> = s\<lparr>sy_reqs := rs\<rparr>"
  by (cases s) simp

lemma exec_op_sound:
  assumes "exec_op L op s = Some s'"
  shows "fetch_step L s s'"
proof (cases op)
  case (OSpawn k)
  then have k: "sy_starting s = take k (sy_starting s) @ (fst (sy_starting s ! k), snd (sy_starting s ! k)) # List.drop (Suc k) (sy_starting s)"
    using assms id_take_nth_drop [of k "sy_starting s"] by (auto split: if_splits)
  show ?thesis
    using assms OSpawn fetch_step.spawn_ok [OF k] fetch_step.spawn_down [OF k]
    by (auto simp: Let_def split: if_splits prod.splits sum.splits)
next
  case (OTake i m)
  then show ?thesis
    using assms by (auto elim!: at_reqE intro: fetch_step.read [OF _ prod.collapse [symmetric]])
next
  case OReady
  have "next_ready False (sy_client s) = (fst (next_ready False (sy_client s)), snd (next_ready False (sy_client s)))"
    by simp
  from fetch_step.ready [OF this] show ?thesis using assms OReady by simp
qed (use assms in \<open>auto elim!: at_reqE intro: fetch_step.intros split: if_splits prod.splits sum.splits\<close>)

interpretation fetch_schedule: schedule "fetch_step L" "exec_op L" for L
  by unfold_locales (rule exec_op_sound)

section \<open>Properties\<close>

text \<open>
  (C21) Admission permits are conserved.  In every reachable state of a client the free permits, the calls
  between admission and spawn, the tasks whose guard has not yet run, and the permits forgotten by a start
  that met a stopped runtime add up to \<^verbatim>\<open>max_in_flight\<close>; nothing is forgotten before the client is down;
  \<^verbatim>\<open>in_flight\<close> counts exactly the tasks whose guard has not yet decremented it; and the ready queue never
  holds more than \<^verbatim>\<open>READY_CAP\<close> ids.
\<close>

theorem admission_conserved:
  assumes "lib_ok L" and "fetch_reach L s"
  shows "sem_available L (cl_admission (sy_client s)) + length (sy_starting s) + holders s + sy_leaked s = sy_max s \<and>
    in_flight (sy_client s) = of_nat (flights s) \<and> (0 < sy_leaked s \<longrightarrow> is_down (sy_client s)) \<and>
    length (cl_ready (sy_client s)) \<le> READY_CAP"
  using reach_sys_ok [OF assms] by (auto simp: sys_ok_def in_flight_def is_down_def)

text \<open>
  (C23) The body reaches its readers in order and within bounds.  At every moment what readers have taken
  followed by what is buffered is a prefix of the bytes the network delivered; the buffer never holds more
  than \<^verbatim>\<open>queue_chunks\<close> chunks and \<^verbatim>\<open>buffered\<close> is its size; with a limit set, a body below \<open>2\<^sup>6\<^sup>4\<close> bytes never
  gives its readers more than the limit; and a request with a sink hands Lisp nothing.
\<close>

theorem body_in_order_and_bounded:
  assumes "lib_ok L" and "fetch_reach L s" and "r \<in> set (sy_reqs s)"
  shows "take (length (out r)) (rq_net r) = out r \<and>
    length (st_chunks (rq_st r)) \<le> cl_queue_chunks (sy_client s) \<and>
    req_buffered (rq_sh r) = of_nat (length (concat (st_chunks (rq_st r)))) \<and>
    req_received (rq_sh r) = of_nat (length (rq_net r)) \<and>
    (0 < tk_max_body (rq_task r) \<and> length (rq_net r) < 2 ^ 64 \<longrightarrow> length (out r) \<le> unat (tk_max_body (rq_task r))) \<and>
    (tk_sink (rq_task r) \<longrightarrow> out r = [])"
proof -
  have ok: "body_ok r" "slots_ok L (cl_queue_chunks (sy_client s)) r" "limit_ok r"
    using reach_sys_ok [OF assms(1,2)] assms(3) by (simp_all add: sys_ok_def req_ok_def)
  from ok(1) obtain lost where "rq_net r = out r @ lost" by (auto simp: body_ok_def)
  then have "take (length (out r)) (rq_net r) = out r" by simp
  moreover have "tk_sink (rq_task r) \<longrightarrow> out r = []" using ok(1) by (simp add: body_ok_def)
  ultimately show ?thesis
    using ok(2,3) by (simp add: slots_ok_def limit_ok_def req_buffered_def req_received_def)
qed

text \<open>
  (C22) A clean end is the end.  When \<^verbatim>\<open>done\<close> answers true and \<^verbatim>\<open>failed\<close> answers false, the stream has ended,
  a reader has been given every byte the network delivered (unless a sink took them), and the task is over:
  its permit is back, \<^verbatim>\<open>in_flight\<close> no longer counts it, and its id has been posted.
\<close>

theorem clean_end_delivers_all:
  assumes "lib_ok L" and "fetch_reach L s" and "r \<in> set (sy_reqs s)"
    and "req_done (rq_sh r)" and "\<not> req_failed (rq_sh r)"
  shows "rq_pc r = Finished \<and> st_eof (rq_st r) \<and> (\<not> tk_sink (rq_task r) \<longrightarrow> rq_read r = rq_net r)"
proof -
  have ok: "req_ok L (cl_queue_chunks (sy_client s)) r"
    using reach_sys_ok [OF assms(1,2)] assms(3) by (simp add: sys_ok_def)
  have st: "st_settled (rq_st r)" "st_chunks (rq_st r) = []" "st_err (rq_st r) = None"
    using assms(4,5) by (auto simp: req_done_def req_failed_def)
  have ph: "phase_ok (rq_pc r) (rq_st r)" using ok by (simp add: req_ok_def)
  then have fin: "rq_pc r = Finished" using st by (cases "rq_pc r") simp_all
  with ph st have eof: "st_eof (rq_st r)" by simp
  then have "\<not> tk_sink (rq_task r) \<longrightarrow> rq_read r = rq_net r"
    using ok st(2) by (simp add: req_ok_def body_ok_def)
  with fin eof show ?thesis by blast
qed


section \<open>Instances\<close>

text \<open>Permits counted by a natural number, parsers that accept everything.\<close>

definition counting_lib :: "nat lib" where
  "counting_lib =
     \<lparr>sem_new = (\<lambda>n. n), sem_try = (\<lambda>n. if n = 0 then None else Some (n - 1)), sem_add = (+), sem_available = (\<lambda>n. n),
      tok_cancelled = (\<or>), parse_method = Inr, parse_url = Inr, header_name = Inr, header_value = Inr\<rparr>"

lemma counting_lib_ok: "lib_ok counting_lib"
  by (auto simp: lib_ok_def sem_ok_def counting_lib_def split: if_splits)

definition get_args :: start_args where
  "get_args = \<lparr>sa_method = ''GET'', sa_url = ''http://h/'', sa_headers = None, sa_sink = None, sa_max_body = 8\<rparr>"

text \<open>A client for one request at a time and one chunk per request.\<close>

definition small_client :: "nat client" where
  "small_client = projr (client_new counting_lib (\<lambda>_. Inr ()) 1 1 1 0)"

definition run_small :: "fetch_op list \<Rightarrow> nat sys option" where
  "run_small ops = run_ops (exec_op counting_lib) ops (fetch_init small_client 1)"

lemma run_small_reach:
  assumes "run_small ops = Some s"
  shows "fetch_reach counting_lib s"
proof -
  have "client_new counting_lib (\<lambda>_. Inr ()) 1 1 1 0 = Inr small_client"
    by (simp add: small_client_def client_new_def)
  from fetch_reach.made [OF this] have "fetch_reach counting_lib (fetch_init small_client 1)"
    by (simp add: clamp_def)
  with assms show ?thesis
    unfolding run_small_def by (rule fetch_schedule.run_invariant) (rule fetch_reach.step)
qed

text \<open>A body of two bytes, read to its end.\<close>

definition read_to_end :: "fetch_op list" where
  "read_to_end =
     [OAdmit get_args, OSpawn 0, OIo 0 (SendOk 200 [] (Some 2)), OIo 0 (Item ''hi''), OIo 0 SlotFree, OTake 0 1,
      OIo 0 StreamEnd, OLeave 0, OGuard 0, OGuard 0, OGuard 0, OGuard 0, OTake 0 0, OGive 0]"

definition ends_with :: "fetch_op list \<Rightarrow> (nat sys \<Rightarrow> nat req \<Rightarrow> bool) \<Rightarrow> bool" where
  "ends_with ops P =
     (case run_small ops of None \<Rightarrow> False | Some s \<Rightarrow> (case sy_reqs s of [r] \<Rightarrow> P s r | _ \<Rightarrow> False))"

lemma ends_withE:
  assumes "ends_with ops P"
  obtains s r where "fetch_reach counting_lib s" and "sy_reqs s = [r]" and "P s r"
  using assms run_small_reach by (auto simp: ends_with_def split: option.splits list.splits)

lemmas run_defs = ends_with_def run_small_def small_client_def client_new_def counting_lib_def fetch_init_def
  get_args_def clamp_def admit_def check_up_def spawn_def new_shared_def rq_new_def at_req_def Let_def
  request_defs run_request_def on_item_def cancelled_def ready_push_def READY_CAP_def io_error_def http_error_new_def
  req_done_def req_failed_def in_flight_def store_down_def cancel_everything_def encode_headers_def

lemma read_to_end_run:
  "ends_with read_to_end (\<lambda>s r. req_done (rq_sh r) \<and> \<not> req_failed (rq_sh r) \<and> \<not> tk_sink (rq_task r) \<and>
     rq_net r = ''hi'' \<and> sy_max s = 1 \<and> tk_max_body (rq_task r) = 8)"
  by (simp add: read_to_end_def run_defs)

theorem admission_conserved_witness:
  "\<exists>s. fetch_reach counting_lib s \<and> sy_max s = 1 \<and>
     cl_admission (sy_client s) + length (sy_starting s) + holders s + sy_leaked s = 1"
proof -
  obtain s r where s: "fetch_reach counting_lib s" and m: "sy_max s = 1"
    using ends_withE [OF read_to_end_run] by metis
  from admission_conserved [OF counting_lib_ok s] m show ?thesis
    using s by (auto simp: counting_lib_def)
qed

theorem body_in_order_and_bounded_witness:
  "\<exists>s r. fetch_reach counting_lib s \<and> r \<in> set (sy_reqs s) \<and> rq_net r = ''hi'' \<and>
     take (length (out r)) ''hi'' = out r \<and> length (out r) \<le> 8"
proof -
  obtain s r where s: "fetch_reach counting_lib s" "sy_reqs s = [r]" and n: "rq_net r = ''hi''" "tk_max_body (rq_task r) = 8"
    using ends_withE [OF read_to_end_run] by metis
  have mem: "r \<in> set (sy_reqs s)" using s by simp
  from body_in_order_and_bounded [OF counting_lib_ok s(1) mem] n
  have "take (length (out r)) ''hi'' = out r \<and> length (out r) \<le> 8" by simp
  with s(1) mem n(1) show ?thesis by blast
qed

theorem clean_end_delivers_all_witness:
  "\<exists>s r. fetch_reach counting_lib s \<and> r \<in> set (sy_reqs s) \<and> req_done (rq_sh r) \<and> rq_pc r = Finished \<and> rq_read r = ''hi''"
proof -
  obtain s r where s: "fetch_reach counting_lib s" "sy_reqs s = [r]"
    and d: "req_done (rq_sh r)" "\<not> req_failed (rq_sh r)" "\<not> tk_sink (rq_task r)" "rq_net r = ''hi''"
    using ends_withE [OF read_to_end_run] by metis
  have mem: "r \<in> set (sy_reqs s)" using s by simp
  from clean_end_delivers_all [OF counting_lib_ok s(1) mem d(1,2)] d(3,4) s(1) mem d(1) show ?thesis by auto
qed

text \<open>A shutdown while the task waits for the response head.\<close>

lemma stop_early_run:
  "ends_with [OAdmit get_args, OSpawn 0, ODown, OCancelAll] (\<lambda>s r. cl_cancel_all (sy_client s) \<and> rq_pc r = Sending)"
  by (simp add: run_defs)


text \<open>The connection is refused.\<close>

lemma refused_run:
  "ends_with [OAdmit get_args, OSpawn 0, OIo 0 (SendErr False ''refused''), OLeave 0]
     (\<lambda>s r. req_done (rq_sh r) \<and> req_failed (rq_sh r) \<and> in_flight (sy_client s) = 1 \<and>
        cl_admission (sy_client s) = 0 \<and> \<not> cl_down (sy_client s))"
  by (simp add: run_defs)

text \<open>
  (C26) A failure is visible before the capacity it implies.  The comment in \<^verbatim>\<open>TaskGuard::drop\<close> promises that
  whoever can observe \<^verbatim>\<open>done\<close> finds the admission permit already returned.  On the error path this does not
  hold: the \<^verbatim>\<open>select!\<close> arm settles the request itself, before the guard runs, so there is a reachable state
  in which the only request is done and failed, and a correct caller that now submits the next one is told
  that too many requests are in flight.
\<close>

theorem failure_visible_before_permit:
  "\<exists>s r. fetch_reach counting_lib s \<and> sy_reqs s = [r] \<and> req_done (rq_sh r) \<and> req_failed (rq_sh r) \<and>
     in_flight (sy_client s) = 1 \<and>
     admit counting_lib get_args (sy_client s) = (Inl (busy ''too many requests in flight''), sy_client s)"
proof -
  obtain s r where s: "fetch_reach counting_lib s" "sy_reqs s = [r]" "req_done (rq_sh r)" "req_failed (rq_sh r)"
      "in_flight (sy_client s) = 1" "cl_admission (sy_client s) = 0" "\<not> cl_down (sy_client s)"
    using ends_withE [OF refused_run] by metis
  have "admit counting_lib get_args (sy_client s) = (Inl (busy ''too many requests in flight''), sy_client s)"
    using s(6,7) by (simp add: admit_def check_up_def counting_lib_def get_args_def)
  with s show ?thesis by blast
qed

end
