(* ===== verification/Httpd_Response.thy ===== *)
theory Httpd_Response
  imports Fetch_Headers
begin

text \<open>
  \<^verbatim>\<open>examples/httpd/src/lib.rs\<close>: the error type, the server's header block codec, and the checks a response
  passes before it is sent.

  What the \<^verbatim>\<open>http\<close> crate checks (header names and values, status codes, values that are text) is a field of
  \<open>http_lib\<close>; the file system answers through \<open>file_system\<close>.  A \<^verbatim>\<open>HeaderMap\<close> is the list of its fields in
  the order of the appends, with normalised names.  A response that has a valid status and a valid map always
  builds, so the error arm of \<^verbatim>\<open>Builder::body\<close> has no counterpart.
\<close>

section \<open>Errors\<close>

definition httpd_error :: "bytes \<Rightarrow> bytes \<Rightarrow> http_error" where
  "httpd_error kind msg = \<lparr>he_kind = kind, he_msg = msg\<rparr>"

definition httpd_io :: "bytes \<Rightarrow> http_error" where
  "httpd_io e = httpd_error ''io'' e"

definition httpd_error_string :: "http_error \<Rightarrow> bytes" where
  "httpd_error_string e = he_kind e @ '': '' @ he_msg e"

definition httpd_refuse_reentry :: "bool \<Rightarrow> (http_error, unit) result" where
  "httpd_refuse_reentry in_runtime =
     (if in_runtime then Inl (httpd_error ''usage'' ''blocking export called from inside the runtime'') else Inr ())"

definition HTTPD_WAIT_CAP_MS :: u64 where
  "HTTPD_WAIT_CAP_MS = 100"

definition httpd_capped :: "u64 \<Rightarrow> u64" where
  "httpd_capped wait_ms = min wait_ms HTTPD_WAIT_CAP_MS"

section \<open>The header block\<close>

definition httpd_encode_headers :: "field list \<Rightarrow> bytes" where
  "httpd_encode_headers h = concat (map (\<lambda>(name, value). name @ '': '' @ value @ [CR, LF]) h)"

definition ascii_whitespace :: "octet \<Rightarrow> bool" where
  "ascii_whitespace c \<longleftrightarrow> c = CHR '' '' \<or> c = TAB \<or> c = LF \<or> c = CHR 0x0C \<or> c = CR"

definition trim_ascii_start :: "bytes \<Rightarrow> bytes" where
  "trim_ascii_start s = dropWhile ascii_whitespace s"

definition trim_ascii :: "bytes \<Rightarrow> bytes" where
  "trim_ascii s = rev (dropWhile ascii_whitespace (rev (trim_ascii_start s)))"

definition httpd_field :: "checker \<Rightarrow> checker \<Rightarrow> bytes \<Rightarrow> (http_error, field) result" where
  "httpd_field header_name header_value line =
     (case position (\<lambda>b. b = CHR '':'') line of
        None \<Rightarrow> Inl (httpd_error ''response'' ''header line without a colon'')
      | Some c \<Rightarrow>
          (case header_name (trim_ascii (take c line)) of
             Inl e \<Rightarrow> Inl (httpd_error ''response'' (''bad header name: '' @ e))
           | Inr name \<Rightarrow>
               (case header_value (trim_ascii_start (List.drop (c + 1) line)) of
                  Inl e \<Rightarrow> Inl (httpd_error ''response'' (''bad header value: '' @ e))
                | Inr value \<Rightarrow> Inr (name, value))))"

definition httpd_line :: "bytes \<Rightarrow> bytes \<Rightarrow> (http_error, bytes) result" where
  "httpd_line line tail =
     (case strip_suffix1 CR line of
        Some l \<Rightarrow> Inr l
      | None \<Rightarrow> if tail \<noteq> [] then Inl (httpd_error ''response'' ''header block is not CRLF-separated'') else Inr line)"

text \<open>The loop: \<open>rest\<close> is what is left of the block.\<close>

function httpd_decode_loop ::
  "checker \<Rightarrow> checker \<Rightarrow> bytes \<Rightarrow> field list \<Rightarrow> (http_error, field list) result" where
  "httpd_decode_loop header_name header_value rest fs =
     (if rest = [] then Inr fs
      else
        let nl = (case position (\<lambda>b. b = LF) rest of Some i \<Rightarrow> i | None \<Rightarrow> length rest);
            tail = List.drop nl rest;
            rest' = (if tail = [] then tail else List.drop 1 tail)
        in case httpd_line (take nl rest) tail of
             Inl e \<Rightarrow> Inl e
           | Inr line \<Rightarrow>
               if line = [] then httpd_decode_loop header_name header_value rest' fs
               else (case httpd_field header_name header_value line of
                       Inl e \<Rightarrow> Inl e
                     | Inr f \<Rightarrow> httpd_decode_loop header_name header_value rest' (fs @ [f])))"
  by pat_completeness auto
termination
  by (relation "measure (\<lambda>(_, _, rest, _). length rest)") auto

declare httpd_decode_loop.simps [simp del]

definition httpd_decode_headers :: "checker \<Rightarrow> checker \<Rightarrow> bytes \<Rightarrow> (http_error, field list) result" where
  "httpd_decode_headers header_name header_value block = httpd_decode_loop header_name header_value block []"

section \<open>Responses\<close>

datatype body = Full bytes | FileStream bytes u64

record response =
  rs_status :: u16
  rs_headers :: "field list"
  rs_body :: body

definition status_only :: "u16 \<Rightarrow> response" where
  "status_only c = \<lparr>rs_status = c, rs_headers = [], rs_body = Full []\<rparr>"

definition retry_later :: response where
  "retry_later = (status_only 503)\<lparr>rs_headers := [(''retry-after'', ''1'')]\<rparr>"

record http_lib =
  hl_name :: checker
  hl_value :: checker
  hl_from_u16 :: "u16 \<Rightarrow> (bytes, unit) result"
  hl_informational :: "u16 \<Rightarrow> bool"
  hl_to_str :: "bytes \<Rightarrow> bytes option"

text \<open>The number a \<^verbatim>\<open>Content-Length\<close> value says.\<close>

definition content_length :: "http_lib \<Rightarrow> bytes \<Rightarrow> u64 option" where
  "content_length H v = Option.bind (hl_to_str H v) (\<lambda>t. parse_u64 (str_trim t))"

definition length_mismatch :: "bytes \<Rightarrow> u64 option \<Rightarrow> http_error" where
  "length_mismatch v body_len =
     httpd_error ''response''
       (''Content-Length '' @ from_utf8_lossy v @ '' does not match the body ('' @
        dec (unat (case body_len of Some n \<Rightarrow> n | None \<Rightarrow> 0)) @ '' bytes)'')"

fun check_lengths :: "http_lib \<Rightarrow> bool \<Rightarrow> u64 option \<Rightarrow> bytes list \<Rightarrow> (http_error, unit) result" where
  "check_lengths H head_answer body_len [] = Inr ()"
| "check_lengths H head_answer body_len (v # vs) =
     (let n = content_length H v
      in if n = None \<or> (\<not> head_answer \<and> n \<noteq> body_len) then Inl (length_mismatch v body_len)
         else check_lengths H head_answer body_len vs)"

definition get_all :: "bytes \<Rightarrow> field list \<Rightarrow> bytes list" where
  "get_all name fs = map snd (filter (\<lambda>f. fst f = name) fs)"

definition bodiless :: "u16 \<Rightarrow> bool" where
  "bodiless status \<longleftrightarrow> status = 204 \<or> status = 304"

definition builder ::
  "http_lib \<Rightarrow> bytes \<Rightarrow> u16 \<Rightarrow> bytes option \<Rightarrow> u64 option \<Rightarrow> (http_error, field list) result" where
  "builder H meth status headers body_len =
     (case hl_from_u16 H status of
        Inl e \<Rightarrow> Inl (httpd_error ''response'' e)
      | Inr _ \<Rightarrow>
          if hl_informational H status then
            Inl (httpd_error ''response'' (dec (unat status) @ '' is not a final response''))
          else if bodiless status \<and> (case body_len of Some n \<Rightarrow> n > 0 | None \<Rightarrow> False) then
            Inl (httpd_error ''response'' (''a '' @ dec (unat status) @ '' response carries no body''))
          else
            (case headers of
               None \<Rightarrow> Inr []
             | Some h \<Rightarrow>
                 (case httpd_decode_headers (hl_name H) (hl_value H) h of
                    Inl e \<Rightarrow> Inl e
                  | Inr fs \<Rightarrow>
                      if get_all ''transfer-encoding'' fs \<noteq> [] then
                        Inl (httpd_error ''response'' ''framing is hyper's: Transfer-Encoding is refused'')
                      else
                        (case check_lengths H (meth = ''HEAD'' \<and> body_len = Some 0) body_len (get_all ''content-length'' fs) of
                           Inl e \<Rightarrow> Inl e
                         | Inr _ \<Rightarrow> Inr fs))))"

text \<open>\<^verbatim>\<open>Request::respond\<close> and \<^verbatim>\<open>respond_file\<close> up to the sending.\<close>

definition respond_with :: "http_lib \<Rightarrow> bytes \<Rightarrow> u16 \<Rightarrow> bytes option \<Rightarrow> bytes \<Rightarrow> (http_error, response) result" where
  "respond_with H meth status headers bs =
     bindR (builder H meth status headers (Some (of_nat (length bs))))
       (\<lambda>fs. Inr \<lparr>rs_status = status, rs_headers = fs, rs_body = Full bs\<rparr>)"

record file_system =
  fs_is_file :: "bytes \<Rightarrow> (bytes, bool) result"
  fs_open :: "bytes \<Rightarrow> (bytes, unit) result"
  fs_fd_meta :: "bytes \<Rightarrow> (bytes, bool \<times> u64) result"

definition not_regular :: "bytes \<Rightarrow> http_error" where
  "not_regular path = httpd_error ''io'' (path @ '' is not a regular file'')"

definition header_insert :: "bytes \<Rightarrow> bytes \<Rightarrow> field list \<Rightarrow> field list" where
  "header_insert name v fs = filter (\<lambda>f. fst f \<noteq> name) fs @ [(name, v)]"

definition respond_file_with ::
  "http_lib \<Rightarrow> file_system \<Rightarrow> bytes \<Rightarrow> u16 \<Rightarrow> bytes option \<Rightarrow> bytes \<Rightarrow> (http_error, response) result" where
  "respond_file_with H F meth status headers path =
     (case fs_is_file F path of
        Inl e \<Rightarrow> Inl (httpd_io e)
      | Inr kind \<Rightarrow>
          if \<not> kind then Inl (not_regular path)
          else
            (case fs_open F path of
               Inl e \<Rightarrow> Inl (httpd_io e)
             | Inr _ \<Rightarrow>
                 (case fs_fd_meta F path of
                    Inl e \<Rightarrow> Inl (httpd_io e)
                  | Inr (regular, len) \<Rightarrow>
                      if \<not> regular then Inl (not_regular path)
                      else if bodiless status then
                        Inl (httpd_error ''response'' (''a '' @ dec (unat status) @ '' response carries no body''))
                      else
                        bindR (builder H meth status headers (Some len))
                          (\<lambda>fs. Inr \<lparr>rs_status = status, rs_headers = header_insert ''content-length'' (dec (unat len)) fs,
                                    rs_body = FileStream path len\<rparr>))))"

section \<open>The codec\<close>

lemma httpd_field_block:
  assumes "field_ok (n, v)" "trim_ascii_start v = v" "accepts header_name header_value (n, v)"
  shows "httpd_field header_name header_value (n @ CHR '':'' # CHR '' '' # v) = Inr (n, v)"
proof -
  have n: "n \<noteq> []" "list_all printable n" using assms(1) by (auto simp: field_ok_def)
  have not_ws: "\<not> ascii_whitespace c" if "printable c" for c
    using that by (auto simp: ascii_whitespace_def printable_def)
  have "trim_ascii_start n = n"
    using n not_ws by (cases n) (auto simp: trim_ascii_start_def)
  moreover have "dropWhile ascii_whitespace (rev n) = rev n"
    using n not_ws by (cases n rule: rev_cases) auto
  ultimately have "trim_ascii n = n" by (simp add: trim_ascii_def)
  moreover have "trim_ascii_start (CHR '' '' # v) = v"
    using assms(2) by (simp add: trim_ascii_start_def ascii_whitespace_def)
  ultimately show ?thesis
    using assms(3) by (simp add: httpd_field_def field_line [OF assms(1)] accepts_def)
qed

lemma httpd_decode_line:
  assumes "LF \<notin> set l" "httpd_line l (LF # rest) = Inr line" "line \<noteq> []" "httpd_field header_name header_value line = Inr f"
  shows "httpd_decode_loop header_name header_value (l @ LF # rest) fs =
    httpd_decode_loop header_name header_value rest (fs @ [f])"
proof -
  have "position (\<lambda>b. b = LF) (l @ LF # rest) = Some (length l)"
    using assms(1) by (intro position_append) auto
  with assms(2-) show ?thesis by (subst httpd_decode_loop.simps) simp
qed

lemma httpd_decode_step:
  assumes "field_ok (n, v)" "trim_ascii_start v = v" "accepts header_name header_value (n, v)"
  shows "httpd_decode_loop header_name header_value (n @ CHR '':'' # CHR '' '' # v @ CR # LF # rest) fs =
    httpd_decode_loop header_name header_value rest (fs @ [(n, v)])"
proof -
  let ?l = "n @ CHR '':'' # CHR '' '' # v @ [CR]"
  have "httpd_line ?l (LF # rest) = Inr (n @ CHR '':'' # CHR '' '' # v)"
    by (simp add: httpd_line_def field_line(1) [OF assms(1)])
  from httpd_decode_line [OF field_line(3) [OF assms(1)] this _ httpd_field_block [OF assms]]
  show ?thesis by simp
qed

lemma httpd_decode_fields:
  assumes "list_all field_ok fs" "list_all (\<lambda>f. trim_ascii_start (snd f) = snd f) fs"
    "list_all (accepts header_name header_value) fs"
  shows "httpd_decode_loop header_name header_value (httpd_encode_headers fs) acc = Inr (acc @ fs)"
  using assms
proof (induction fs arbitrary: acc)
  case Nil
  show ?case by (simp add: httpd_encode_headers_def httpd_decode_loop.simps)
next
  case (Cons f fs)
  obtain n v where f: "f = (n, v)" by (cases f)
  have "httpd_encode_headers (f # fs) = n @ CHR '':'' # CHR '' '' # v @ CR # LF # httpd_encode_headers fs"
    by (simp add: httpd_encode_headers_def f)
  then show ?case using Cons by (simp add: f httpd_decode_step)
qed

section \<open>The checks\<close>

lemma check_lengths_Inr:
  "check_lengths H head_answer body_len vs = Inr () \<longleftrightarrow>
   (\<forall>v\<in>set vs. \<exists>n. content_length H v = Some n \<and> (head_answer \<or> body_len = Some n))"
  by (induction vs) (auto simp: Let_def)

lemma builder_Inr:
  "builder H meth status headers body_len = Inr fs \<longleftrightarrow>
   hl_from_u16 H status = Inr () \<and> \<not> hl_informational H status \<and>
   (bodiless status \<longrightarrow> body_len = None \<or> body_len = Some 0) \<and>
   (headers = None \<and> fs = [] \<or>
    (\<exists>h. headers = Some h \<and> httpd_decode_headers (hl_name H) (hl_value H) h = Inr fs \<and>
       get_all ''transfer-encoding'' fs = [] \<and>
       (\<forall>v\<in>set (get_all ''content-length'' fs).
          \<exists>n. content_length H v = Some n \<and> (meth = ''HEAD'' \<and> body_len = Some 0 \<or> body_len = Some n))))"
proof -
  have unit: "r = Inr () \<longleftrightarrow> (\<exists>u. r = Inr u)" for r :: "('a, unit) result" by simp
  show ?thesis
    by (auto simp: builder_def check_lengths_Inr [symmetric] word_gt_0
        split: sum.splits option.splits if_splits)
qed

lemma get_all_member: "v \<in> set (get_all name fs) \<longleftrightarrow> (name, v) \<in> set fs"
  by (force simp: get_all_def)

section \<open>Properties\<close>

text \<open>
  (C32) What leaves the server is framed.  A response that passes the checks has an accepted, final status;
  it names no \<^verbatim>\<open>Transfer-Encoding\<close>; every \<^verbatim>\<open>Content-Length\<close> in it says the size of its body, save on an empty
  answer to HEAD; a 204 or 304 has no body; and a file answer carries exactly one \<^verbatim>\<open>Content-Length\<close>, the size
  of the opened file.
\<close>

theorem sent_responses_framed:
  assumes "respond_with H meth status headers bs = Inr r \<or> respond_file_with H F meth status headers path = Inr r"
    and "length bs < 2 ^ 64"
  shows "rs_status r = status \<and> hl_from_u16 H status = Inr () \<and> \<not> hl_informational H status \<and>
    get_all ''transfer-encoding'' (rs_headers r) = [] \<and>
    (case rs_body r of
       Full b \<Rightarrow> (bodiless status \<longrightarrow> b = []) \<and>
         (\<forall>v\<in>set (get_all ''content-length'' (rs_headers r)).
            \<exists>n. content_length H v = Some n \<and> (meth = ''HEAD'' \<and> b = [] \<or> unat n = length b))
     | FileStream p len \<Rightarrow> \<not> bodiless status \<and> fs_fd_meta F p = Inr (True, len) \<and>
         get_all ''content-length'' (rs_headers r) = [dec (unat len)])"
  using assms(1)
proof
  assume "respond_with H meth status headers bs = Inr r"
  then obtain fs where b: "builder H meth status headers (Some (of_nat (length bs))) = Inr fs"
    and r: "r = \<lparr>rs_status = status, rs_headers = fs, rs_body = Full bs\<rparr>"
    by (auto simp: respond_with_def bindR_eq_Inr)
  have len: "unat (of_nat (length bs) :: u64) = length bs" using assms(2) by (simp add: unat_of_nat)
  then have zero: "(of_nat (length bs) :: u64) = 0 \<longleftrightarrow> bs = []"
    unfolding unat_eq_0 [symmetric] by simp
  have none: "get_all name [] = []" for name by (simp add: get_all_def)
  from b have ok: "hl_from_u16 H status = Inr ()" "\<not> hl_informational H status" "bodiless status \<longrightarrow> bs = []"
    using zero by (auto simp: builder_Inr)
  from b have "get_all ''transfer-encoding'' fs = []" by (auto simp: builder_Inr none)
  moreover have "\<exists>n. content_length H v = Some n \<and> (meth = ''HEAD'' \<and> bs = [] \<or> unat n = length bs)"
    if v: "v \<in> set (get_all ''content-length'' fs)" for v
  proof -
    from b v obtain n where n: "content_length H v = Some n"
      and "meth = ''HEAD'' \<and> (of_nat (length bs) :: u64) = 0 \<or> of_nat (length bs) = n"
      by (auto simp: builder_Inr none)
    with len zero have "meth = ''HEAD'' \<and> bs = [] \<or> unat n = length bs" by blast
    with n show ?thesis by blast
  qed
  ultimately show ?thesis using ok by (simp add: r)
next
  assume "respond_file_with H F meth status headers path = Inr r"
  then obtain fs len where "fs_fd_meta F path = Inr (True, len)" and "\<not> bodiless status"
    and "builder H meth status headers (Some len) = Inr fs"
    and "r = \<lparr>rs_status = status, rs_headers = header_insert ''content-length'' (dec (unat len)) fs, rs_body = FileStream path len\<rparr>"
    by (auto simp: respond_file_with_def bindR_eq_Inr split: sum.splits if_splits prod.splits)
  then show ?thesis
    unfolding builder_Inr by (auto simp: get_all_def header_insert_def filter_empty_conv)
qed

text \<open>A library that accepts every name and value and the status codes 100 to 999.\<close>

definition plain_http :: http_lib where
  "plain_http =
     \<lparr>hl_name = Inr, hl_value = Inr,
      hl_from_u16 = (\<lambda>s. if 100 \<le> s \<and> s \<le> 999 then Inr () else Inl ''invalid status code''),
      hl_informational = (\<lambda>s. 100 \<le> s \<and> s < 200), hl_to_str = Some\<rparr>"

lemma two_bytes_pass:
  "respond_with plain_http ''GET'' 200 (Some (httpd_encode_headers [(''content-length'', ''2'')])) ''hi'' =
   Inr \<lparr>rs_status = 200, rs_headers = [(''content-length'', ''2'')], rs_body = Full ''hi''\<rparr>"
proof -
  have "httpd_decode_headers Inr Inr (httpd_encode_headers [(''content-length'', ''2'')]) = Inr [(''content-length'', ''2'')]"
    unfolding httpd_decode_headers_def
    by (subst httpd_decode_fields)
      (simp_all add: field_ok_def printable_def accepts_def trim_ascii_start_def ascii_whitespace_def)
  moreover have "str_trim ''2'' = ''2''" by (intro str_trim_printable) (simp_all add: printable_def)
  then have "content_length plain_http ''2'' = Some 2"
    by (simp add: content_length_def plain_http_def parse_u64_def Let_def is_digit_def undec_def)
  ultimately show ?thesis
    by (simp add: respond_with_def bindR_eq_Inr builder_Inr get_all_def bodiless_def plain_http_def)
qed

theorem sent_responses_framed_witness:
  "\<exists>r. respond_with plain_http ''GET'' 200 (Some (httpd_encode_headers [(''content-length'', ''2'')])) ''hi'' = Inr r \<and>
     (\<exists>n. content_length plain_http ''2'' = Some n \<and> unat n = 2)"
  using sent_responses_framed [OF disjI1 [OF two_bytes_pass], where F = "\<lparr>fs_is_file = Inl, fs_open = Inl, fs_fd_meta = Inl\<rparr>"]
  by (auto simp: two_bytes_pass get_all_def)

end
