(* ===== verification/Httpd.thy ===== *)
theory Httpd
  imports Httpd_Response Tokio
begin

text \<open>
  \<^verbatim>\<open>examples/httpd/src/lib.rs\<close>: the service queue, the parked requests and the request handles.

  An exchange is one run of \<^verbatim>\<open>park\<close> with its reply channel; it is known by a number.  The queue holds the
  numbers and the parts of parked requests.  What a mutex or an atomic operation makes indivisible is one step of
  the system; where a function does several such things (a take counts after it has popped, a response is counted
  before it is sent, a drop sends before it counts, a stop answers what it drained one by one), each is a step.
\<close>

section \<open>The service\<close>

record parts =
  p_method :: bytes
  p_path :: bytes
  p_query :: "bytes option"
  p_version :: bytes
  p_peer :: bytes
  p_headers :: "field list"
  p_body :: bytes

type_synonym parked = "nat \<times> parts"

record 'sem svc =
  sv_q :: "parked list"
  sv_cap :: nat
  sv_body_cap :: nat
  sv_body_wait :: u64
  sv_queue_wait :: u64
  sv_body_permits :: 'sem
  sv_handler_wait :: "u64 option"
  sv_head_wait :: u64
  sv_max_connections :: nat
  sv_connections :: u64
  sv_down :: bool
  sv_in_flight :: u64

definition svc_bind :: "('sem, 'z) semaphore_scheme \<Rightarrow> u64 \<Rightarrow> u64 \<Rightarrow> u64 \<Rightarrow> u64 \<Rightarrow> u64 \<Rightarrow> u64 \<Rightarrow> u64 \<Rightarrow> 'sem svc" where
  "svc_bind L queue max_connections body_cap head_ms body_ms queue_wait_ms handler_ms =
     \<lparr>sv_q = [], sv_cap = unat (clamp 1 65536 queue), sv_body_cap = unat (clamp 1024 1073741824 body_cap),
      sv_body_wait = clamp 1 3600000 body_ms, sv_queue_wait = min queue_wait_ms 3600000,
      sv_body_permits = sem_new L (unat (clamp 1 65536 queue)),
      sv_handler_wait = (if handler_ms > 0 then Some handler_ms else None),
      sv_head_wait = clamp 1 3600000 head_ms, sv_max_connections = unat (clamp 1 1048576 max_connections),
      sv_connections = 0, sv_down = False, sv_in_flight = 0\<rparr>"

text \<open>
  \<open>gone\<close> tells of a parked request whether its reply channel is closed.
\<close>

definition prune :: "(nat \<Rightarrow> bool) \<Rightarrow> parked list \<Rightarrow> bool \<times> parked list" where
  "prune gone q = (let q' = filter (\<lambda>p. \<not> gone (fst p)) q in (length q' \<noteq> length q, q'))"

datatype push_outcome = Pushed | Refused | AwaitSlot

definition push_pass :: "(nat \<Rightarrow> bool) \<Rightarrow> bool \<Rightarrow> parked \<Rightarrow> 'sem svc \<Rightarrow> push_outcome \<times> 'sem svc" where
  "push_pass gone late p v =
     (if sv_down v then (Refused, v)
      else let q = snd (prune gone (sv_q v))
           in if length q < sv_cap v then (Pushed, v\<lparr>sv_q := q @ [p]\<rparr>)
              else (if late then Refused else AwaitSlot, v\<lparr>sv_q := q\<rparr>))"

text \<open>\<^verbatim>\<open>Svc::wait\<close>: the first look prunes, the one after the capped wait does not.\<close>

definition wait_first :: "(nat \<Rightarrow> bool) \<Rightarrow> 'sem svc \<Rightarrow> bool \<times> 'sem svc" where
  "wait_first gone v = (let q = snd (prune gone (sv_q v)) in (q \<noteq> [], v\<lparr>sv_q := q\<rparr>))"

definition wait_again :: "'sem svc \<Rightarrow> bool" where
  "wait_again v \<longleftrightarrow> sv_q v \<noteq> []"

definition svc_take :: "(nat \<Rightarrow> bool) \<Rightarrow> 'sem svc \<Rightarrow> parked option \<times> 'sem svc" where
  "svc_take gone v =
     (case snd (prune gone (sv_q v)) of
        [] \<Rightarrow> (None, v\<lparr>sv_q := []\<rparr>)
      | p # q \<Rightarrow> (Some p, v\<lparr>sv_q := q\<rparr>))"

definition svc_drain :: "'sem svc \<Rightarrow> parked list \<times> 'sem svc" where
  "svc_drain v = (sv_q v, v\<lparr>sv_q := []\<rparr>)"

section \<open>What Lisp asks of a server\<close>

definition pending :: "(nat \<Rightarrow> bool) \<Rightarrow> 'sem svc \<Rightarrow> u64 \<times> 'sem svc" where
  "pending gone v = (let q = snd (prune gone (sv_q v)) in (of_nat (length q), v\<lparr>sv_q := q\<rparr>))"

definition in_flight :: "'sem svc \<Rightarrow> u64" where
  "in_flight v = sv_in_flight v"

definition connections :: "'sem svc \<Rightarrow> u64" where
  "connections v = sv_connections v"

definition reading :: "('sem, 'z) semaphore_scheme \<Rightarrow> 'sem svc \<Rightarrow> u64" where
  "reading L v = of_nat (sv_cap v - sem_available L (sv_body_permits v))"

definition is_down :: "'sem svc \<Rightarrow> bool" where
  "is_down v = sv_down v"

definition server_wait :: "bool \<Rightarrow> (nat \<Rightarrow> bool) \<Rightarrow> 'sem svc \<Rightarrow> (http_error, bool) result \<times> 'sem svc" where
  "server_wait in_runtime gone v =
     (case httpd_refuse_reentry in_runtime of
        Inl e \<Rightarrow> (Inl e, v)
      | Inr _ \<Rightarrow>
          if sv_down v then (Inl (httpd_error ''usage'' ''server is stopped''), v)
          else (case wait_first gone v of (b, v') \<Rightarrow> (Inr b, v')))"

definition request_take :: "(nat \<Rightarrow> bool) \<Rightarrow> 'sem svc \<Rightarrow> (http_error, parked) result \<times> 'sem svc" where
  "request_take gone v =
     (if sv_down v then (Inl (httpd_error ''usage'' ''server is stopped''), v)
      else (case svc_take gone v of
              (None, v') \<Rightarrow> (Inl (httpd_error ''empty'' ''no request parked''), v')
            | (Some p, v') \<Rightarrow> (Inr p, v')))"

section \<open>Parking\<close>

text \<open>HTTP/2 carries the host in the URI: it becomes a \<^verbatim>\<open>host\<close> field unless there is one.\<close>

definition with_host :: "http_lib \<Rightarrow> bytes option \<Rightarrow> field list \<Rightarrow> field list" where
  "with_host H authority fs =
     (if get_all ''host'' fs \<noteq> [] then fs
      else (case authority of
              None \<Rightarrow> fs
            | Some a \<Rightarrow> (case hl_value H a of Inl _ \<Rightarrow> fs | Inr v \<Rightarrow> header_insert ''host'' v fs)))"

datatype park_pc = PPermit | PBody | PPush | PPushed bool | PWait | PDone response | PGone

record 'ch exch =
  ex_pc :: park_pc
  ex_parts :: parts
  ex_ch :: 'ch

text \<open>What reading the body gives: \<^verbatim>\<open>axum::body::to_bytes\<close> fails above its limit.\<close>

datatype body_event = BodyOk bytes | BodyErr | BodyTimeout

section \<open>Request handles\<close>

datatype handle_pc = Fresh | Open | Taken response | Counted response | Dropped | DropSent | Shut

record hreq =
  hr_id :: nat
  hr_parts :: parts
  hr_pc :: handle_pc

text \<open>\<^verbatim>\<open>Request::send\<close> and the handle's drop take the reply channel out of its mutex: whoever finds it gone answers
  nothing.\<close>

definition take_reply :: "hreq \<Rightarrow> (http_error, unit) result" where
  "take_reply r =
     (case hr_pc r of Open \<Rightarrow> Inr () | _ \<Rightarrow> Inl (httpd_error ''usage'' ''request already answered''))"

definition sent_result :: "bool \<Rightarrow> (http_error, unit) result" where
  "sent_result ok = (if ok then Inr () else Inl (httpd_error ''gone'' ''client went away''))"

definition alive :: "bool \<Rightarrow> hreq \<Rightarrow> bool" where
  "alive gone r \<longleftrightarrow> hr_pc r = Open \<and> \<not> gone"

definition request_method :: "hreq \<Rightarrow> bytes" where
  "request_method r = p_method (hr_parts r)"

definition request_path :: "hreq \<Rightarrow> bytes" where
  "request_path r = p_path (hr_parts r)"

definition request_query :: "hreq \<Rightarrow> bytes option" where
  "request_query r = p_query (hr_parts r)"

definition request_version :: "hreq \<Rightarrow> bytes" where
  "request_version r = p_version (hr_parts r)"

definition request_peer :: "hreq \<Rightarrow> bytes" where
  "request_peer r = p_peer (hr_parts r)"

definition request_headers :: "hreq \<Rightarrow> bytes" where
  "request_headers r = httpd_encode_headers (p_headers (hr_parts r))"

definition request_header :: "hreq \<Rightarrow> bytes \<Rightarrow> bytes option" where
  "request_header r name =
     (case get_all (to_ascii_lowercase name) (p_headers (hr_parts r)) of [] \<Rightarrow> None | v # _ \<Rightarrow> Some (from_utf8_lossy v))"

definition request_body :: "hreq \<Rightarrow> bytes" where
  "request_body r = p_body (hr_parts r)"

end
