(* ===== verification/Httpd_System.thy ===== *)
theory Httpd_System
  imports Httpd Schedule
begin

text \<open>
  The server running: exchanges, the queue between them and the Lisp pullers, the request handles, and whoever
  stops the server.
\<close>

section \<open>States\<close>

text \<open>\<open>hs_drain\<close>: what a stop has drained and not yet answered; \<open>hs_drained\<close>: a drain has happened since the server
  went down.\<close>

record ('sem, 'ch) hsys =
  hs_svc :: "'sem svc"
  hs_n :: nat
  hs_ex :: "nat \<Rightarrow> 'ch exch"
  hs_reqs :: "hreq list"
  hs_drain :: "nat list"
  hs_drained :: bool

abbreviation tx :: "('sem, response, 'ch) tokio \<Rightarrow> 'ch exch \<Rightarrow> bool" where
  "tx L e \<equiv> cv_tx (ch_view L (ex_ch e))"

abbreviation rx :: "('sem, response, 'ch) tokio \<Rightarrow> 'ch exch \<Rightarrow> bool" where
  "rx L e \<equiv> cv_rx (ch_view L (ex_ch e))"

abbreviation sent :: "('sem, response, 'ch) tokio \<Rightarrow> 'ch exch \<Rightarrow> response option" where
  "sent L e \<equiv> cv_sent (ch_view L (ex_ch e))"

definition gone :: "('sem, response, 'ch) tokio \<Rightarrow> ('sem, 'ch) hsys \<Rightarrow> nat \<Rightarrow> bool" where
  "gone L s i = ch_closed L (ex_ch (hs_ex s i))"

text \<open>A pruned entry is dropped, and its end of the channel with it.\<close>

definition forget :: "('sem, response, 'ch) tokio \<Rightarrow> ('sem, 'ch) hsys \<Rightarrow> nat \<Rightarrow> 'ch exch" where
  "forget L s i =
     (if i \<in> fst ` set (sv_q (hs_svc s)) \<and> gone L s i then (hs_ex s i)\<lparr>ex_ch := ch_drop_tx L (ex_ch (hs_ex s i))\<rparr>
      else hs_ex s i)"

definition reply :: "('sem, response, 'ch) tokio \<Rightarrow> response \<Rightarrow> 'ch exch \<Rightarrow> 'ch exch" where
  "reply L r e = e\<lparr>ex_ch := snd (ch_send L r (ex_ch e))\<rparr>"

text \<open>An exchange that ends gives up its receiver, and before it has parked its sender too.\<close>

definition end_park :: "('sem, response, 'ch) tokio \<Rightarrow> park_pc \<Rightarrow> 'ch exch \<Rightarrow> 'ch exch" where
  "end_park L pc e =
     e\<lparr>ex_pc := pc,
       ex_ch := ch_drop_rx L (if ex_pc e \<in> {PPermit, PBody, PPush} then ch_drop_tx L (ex_ch e) else ex_ch e)\<rparr>"

definition give_permit :: "('sem, response, 'ch) tokio \<Rightarrow> park_pc \<Rightarrow> 'sem svc \<Rightarrow> 'sem svc" where
  "give_permit L pc v =
     (case pc of
        PBody \<Rightarrow> v\<lparr>sv_body_permits := sem_add L 1 (sv_body_permits v)\<rparr>
      | PPush \<Rightarrow> v\<lparr>sv_body_permits := sem_add L 1 (sv_body_permits v)\<rparr>
      | PPushed _ \<Rightarrow> v\<lparr>sv_body_permits := sem_add L 1 (sv_body_permits v)\<rparr>
      | _ \<Rightarrow> v)"

definition park_new :: "('sem, response, 'ch) tokio \<Rightarrow> parts \<Rightarrow> 'ch exch" where
  "park_new L p = \<lparr>ex_pc = PPermit, ex_parts = p, ex_ch = ch_new L\<rparr>"

definition finish :: "('sem, response, 'ch) tokio \<Rightarrow> nat \<Rightarrow> park_pc \<Rightarrow> ('sem, 'ch) hsys \<Rightarrow> ('sem, 'ch) hsys" where
  "finish L i pc s =
     s\<lparr>hs_svc := give_permit L (ex_pc (hs_ex s i)) (hs_svc s), hs_ex := (hs_ex s)(i := end_park L pc (hs_ex s i))\<rparr>"

definition goto :: "nat \<Rightarrow> park_pc \<Rightarrow> ('sem, 'ch) hsys \<Rightarrow> ('sem, 'ch) hsys" where
  "goto i pc s = s\<lparr>hs_ex := (hs_ex s)(i := (hs_ex s i)\<lparr>ex_pc := pc\<rparr>)\<rparr>"

text \<open>\<^verbatim>\<open>Svc::push\<close>, one pass of its loop, for an exchange that has read its body.\<close>

definition do_push :: "('sem, response, 'ch) tokio \<Rightarrow> nat \<Rightarrow> bool \<Rightarrow> ('sem, 'ch) hsys \<Rightarrow> ('sem, 'ch) hsys" where
  "do_push L i late s =
     (case push_pass (gone L s) late (i, ex_parts (hs_ex s i)) (hs_svc s) of
        (out, v) \<Rightarrow>
          let ex = (if sv_down (hs_svc s) then hs_ex s else forget L s);
              s' = s\<lparr>hs_svc := v, hs_ex := ex\<rparr>
          in case out of
               Pushed \<Rightarrow> goto i (PPushed True) s'
             | Refused \<Rightarrow> s'\<lparr>hs_ex := ex(i := (ex i)\<lparr>ex_pc := PPushed False, ex_ch := ch_drop_tx L (ex_ch (ex i))\<rparr>)\<rparr>
             | AwaitSlot \<Rightarrow> s')"

definition do_take :: "('sem, response, 'ch) tokio \<Rightarrow> ('sem, 'ch) hsys \<Rightarrow> ('sem, 'ch) hsys" where
  "do_take L s =
     (case svc_take (gone L s) (hs_svc s) of
        (None, v) \<Rightarrow> s\<lparr>hs_svc := v, hs_ex := forget L s\<rparr>
      | (Some (i, p), v) \<Rightarrow>
          s\<lparr>hs_svc := v, hs_ex := forget L s, hs_reqs := hs_reqs s @ [\<lparr>hr_id = i, hr_parts = p, hr_pc = Fresh\<rparr>]\<rparr>)"

definition do_wait :: "('sem, response, 'ch) tokio \<Rightarrow> ('sem, 'ch) hsys \<Rightarrow> ('sem, 'ch) hsys" where
  "do_wait L s = s\<lparr>hs_svc := snd (wait_first (gone L s) (hs_svc s)), hs_ex := forget L s\<rparr>"

definition do_drain :: "('sem, 'ch) hsys \<Rightarrow> ('sem, 'ch) hsys" where
  "do_drain s =
     (case svc_drain (hs_svc s) of (ps, v) \<Rightarrow>
        s\<lparr>hs_svc := v, hs_drain := hs_drain s @ map fst ps, hs_drained := True\<rparr>)"

text \<open>The atomic steps of a handle: its new state, what it adds to \<^verbatim>\<open>in_flight\<close>, and what it sends.\<close>

fun handle_step :: "handle_pc \<Rightarrow> handle_pc \<times> u64 \<times> response option" where
  "handle_step Fresh = (Open, 1, None)"
| "handle_step (Taken r) = (Counted r, - 1, None)"
| "handle_step (Counted r) = (Shut, 0, Some r)"
| "handle_step Dropped = (DropSent, 0, Some (status_only 500))"
| "handle_step DropSent = (Shut, - 1, None)"
| "handle_step Open = (Open, 0, None)"
| "handle_step Shut = (Shut, 0, None)"

definition send_opt :: "('sem, response, 'ch) tokio \<Rightarrow> nat \<Rightarrow> response option \<Rightarrow> (nat \<Rightarrow> 'ch exch) \<Rightarrow> nat \<Rightarrow> 'ch exch" where
  "send_opt L i out ex = (case out of None \<Rightarrow> ex | Some r \<Rightarrow> ex(i := reply L r (ex i)))"

section \<open>Steps\<close>

inductive httpd_step :: "('sem, response, 'ch) tokio \<Rightarrow> http_lib \<Rightarrow> file_system \<Rightarrow> ('sem, 'ch) hsys \<Rightarrow> ('sem, 'ch) hsys \<Rightarrow> bool"
  for L H F where
  arrive_down: "sv_down (hs_svc s) \<Longrightarrow>
     httpd_step L H F s (s\<lparr>hs_n := Suc (hs_n s), hs_ex := (hs_ex s)(hs_n s := end_park L (PDone retry_later) (park_new L p))\<rparr>)"
| arrive: "\<not> sv_down (hs_svc s) \<Longrightarrow> p_headers p = with_host H authority fs \<Longrightarrow>
     httpd_step L H F s (s\<lparr>hs_n := Suc (hs_n s), hs_ex := (hs_ex s)(hs_n s := park_new L p)\<rparr>)"
| permit: "ex_pc (hs_ex s i) = PPermit \<Longrightarrow> sem_try L (sv_body_permits (hs_svc s)) = Some m \<Longrightarrow>
     httpd_step L H F s (goto i PBody (s\<lparr>hs_svc := (hs_svc s)\<lparr>sv_body_permits := m\<rparr>\<rparr>))"
| no_permit: "ex_pc (hs_ex s i) = PPermit \<Longrightarrow> httpd_step L H F s (finish L i (PDone retry_later) s)"
| body_ok: "ex_pc (hs_ex s i) = PBody \<Longrightarrow> length bs \<le> sv_body_cap (hs_svc s) \<Longrightarrow>
     httpd_step L H F s (s\<lparr>hs_ex := (hs_ex s)(i := (hs_ex s i)\<lparr>ex_pc := PPush, ex_parts := (ex_parts (hs_ex s i))\<lparr>p_body := bs\<rparr>\<rparr>)\<rparr>)"
| body_err: "ex_pc (hs_ex s i) = PBody \<Longrightarrow> httpd_step L H F s (finish L i (PDone (status_only 413)) s)"
| body_late: "ex_pc (hs_ex s i) = PBody \<Longrightarrow> httpd_step L H F s (finish L i (PDone (status_only 408)) s)"
| push: "ex_pc (hs_ex s i) = PPush \<Longrightarrow> httpd_step L H F s (do_push L i late s)"
| pushed: "ex_pc (hs_ex s i) = PPushed True \<Longrightarrow>
     httpd_step L H F s (goto i PWait (s\<lparr>hs_svc := give_permit L (PPushed True) (hs_svc s)\<rparr>))"
| refused: "ex_pc (hs_ex s i) = PPushed False \<Longrightarrow> httpd_step L H F s (finish L i (PDone retry_later) s)"
| answered: "ex_pc (hs_ex s i) = PWait \<Longrightarrow> ch_recv L (ex_ch (hs_ex s i)) = Some a \<Longrightarrow>
     httpd_step L H F s (finish L i (PDone (case a of Some r \<Rightarrow> r | None \<Rightarrow> status_only 503)) s)"
| handler_late: "ex_pc (hs_ex s i) = PWait \<Longrightarrow> sv_handler_wait (hs_svc s) \<noteq> None \<Longrightarrow>
     httpd_step L H F s (finish L i (PDone (status_only 504)) s)"
| client_left: "ex_pc (hs_ex s i) \<in> {PPermit, PBody, PPush, PWait} \<Longrightarrow> httpd_step L H F s (finish L i PGone s)"
| wait: "httpd_step L H F s (do_wait L s)"
| take: "httpd_step L H F s (do_take L s)"
| respond: "hs_reqs s = xs @ r # ys \<Longrightarrow> take_reply r = Inr () \<Longrightarrow>
     respond_with H (p_method (hr_parts r)) status headers bs = Inr a \<or>
       respond_file_with H F (p_method (hr_parts r)) status headers path = Inr a \<Longrightarrow>
     httpd_step L H F s (s\<lparr>hs_reqs := xs @ r\<lparr>hr_pc := Taken a\<rparr> # ys\<rparr>)"
| free: "hs_reqs s = xs @ r # ys \<Longrightarrow> hr_pc r = Open \<Longrightarrow>
     httpd_step L H F s (s\<lparr>hs_reqs := xs @ r\<lparr>hr_pc := Dropped\<rparr> # ys\<rparr>)"
| handle: "hs_reqs s = xs @ r # ys \<Longrightarrow> handle_step (hr_pc r) = (pc, d, out) \<Longrightarrow>
     httpd_step L H F s (s\<lparr>hs_svc := (hs_svc s)\<lparr>sv_in_flight := sv_in_flight (hs_svc s) + d\<rparr>,
        hs_ex := send_opt L (hr_id r) out (hs_ex s), hs_reqs := xs @ r\<lparr>hr_pc := pc\<rparr> # ys\<rparr>)"
| stop: "httpd_step L H F s (s\<lparr>hs_svc := (hs_svc s)\<lparr>sv_down := True\<rparr>\<rparr>)"
| drain: "sv_down (hs_svc s) \<Longrightarrow> httpd_step L H F s (do_drain s)"
| drain_one: "hs_drain s = i # rest \<Longrightarrow>
     httpd_step L H F s (s\<lparr>hs_drain := rest, hs_ex := (hs_ex s)(i := reply L retry_later (hs_ex s i))\<rparr>)"

text \<open>No exchange has the numbers from \<open>hs_n\<close> on.\<close>

definition blank :: "('sem, response, 'ch) tokio \<Rightarrow> 'ch exch" where
  "blank L = end_park L PGone (park_new L \<lparr>p_method = [], p_path = [], p_query = None, p_version = [], p_peer = [], p_headers = [], p_body = []\<rparr>)"

definition httpd_init :: "('sem, response, 'ch) tokio \<Rightarrow> 'sem svc \<Rightarrow> ('sem, 'ch) hsys" where
  "httpd_init L v = \<lparr>hs_svc = v, hs_n = 0, hs_ex = (\<lambda>_. blank L), hs_reqs = [], hs_drain = [], hs_drained = False\<rparr>"

inductive httpd_reach :: "('sem, response, 'ch) tokio \<Rightarrow> http_lib \<Rightarrow> file_system \<Rightarrow> ('sem, 'ch) hsys \<Rightarrow> bool"
  for L H F where
  bound: "httpd_reach L H F (httpd_init L (svc_bind L queue max_connections body_cap head_ms body_ms queue_wait_ms handler_ms))"
| step: "httpd_reach L H F s \<Longrightarrow> httpd_step L H F s s' \<Longrightarrow> httpd_reach L H F s'"

section \<open>Who may still answer\<close>

fun holding :: "handle_pc \<Rightarrow> bool" where
  "holding DropSent = False"
| "holding Shut = False"
| "holding _ = True"

fun early :: "park_pc \<Rightarrow> bool" where
  "early PPermit = True"
| "early PBody = True"
| "early PPush = True"
| "early _ = False"

text \<open>Senders of an exchange held outside it: in the queue, by a stop, by a handle.\<close>

definition outside :: "('sem, 'ch) hsys \<Rightarrow> nat \<Rightarrow> nat" where
  "outside s i =
     count_list (map fst (sv_q (hs_svc s))) i + count_list (hs_drain s) i +
     length (filter (\<lambda>r. hr_id r = i \<and> holding (hr_pc r)) (hs_reqs s))"

fun over :: "park_pc \<Rightarrow> bool" where
  "over (PDone r) = True"
| "over PGone = True"
| "over _ = False"

definition chan_ok :: "('sem, response, 'ch) tokio \<Rightarrow> nat \<Rightarrow> nat \<Rightarrow> nat \<Rightarrow> 'ch exch \<Rightarrow> bool" where
  "chan_ok L n k i e \<longleftrightarrow>
     k + of_bool (early (ex_pc e)) = of_bool (tx L e) \<and> (rx L e \<longleftrightarrow> \<not> over (ex_pc e)) \<and>
     (sent L e \<noteq> None \<longrightarrow> \<not> tx L e) \<and> (n \<le> i \<longrightarrow> over (ex_pc e) \<and> \<not> tx L e)"

definition channels_ok :: "('sem, response, 'ch) tokio \<Rightarrow> ('sem, 'ch) hsys \<Rightarrow> bool" where
  "channels_ok L s \<longleftrightarrow> (\<forall>i. chan_ok L (hs_n s) (outside s i) i (hs_ex s i))"

lemma early_iff: "early pc \<longleftrightarrow> pc = PPermit \<or> pc = PBody \<or> pc = PPush"
  by (cases pc) simp_all

lemma end_park_simps:
  assumes "tokio_ok L"
  shows "ex_pc (end_park L pc e) = pc" and "tx L (end_park L pc e) \<longleftrightarrow> tx L e \<and> \<not> early (ex_pc e)"
    and "\<not> rx L (end_park L pc e)" and "sent L (end_park L pc e) = sent L e" and "ex_parts (end_park L pc e) = ex_parts e"
  using tokio_okD(6,7) [OF assms] by (auto simp: end_park_def early_iff)

lemma park_new_simps:
  assumes "tokio_ok L"
  shows "ex_pc (park_new L p) = PPermit" and "tx L (park_new L p)" and "rx L (park_new L p)"
    and "sent L (park_new L p) = None" and "ex_parts (park_new L p) = p"
  using tokio_okD(2) [OF assms] by (simp_all add: park_new_def)

lemma reply_simps:
  assumes "tokio_ok L"
  shows "ex_pc (reply L r e) = ex_pc e" and "\<not> tx L (reply L r e)" and "rx L (reply L r e) = rx L e"
    and "sent L (reply L r e) = (if tx L e \<and> rx L e then Some r else sent L e)" and "ex_parts (reply L r e) = ex_parts e"
  using tokio_okD(4) [OF assms] by (auto simp: reply_def)

lemma forget_simps:
  assumes "tokio_ok L"
  shows "ex_pc (forget L s i) = ex_pc (hs_ex s i)" and "rx L (forget L s i) = rx L (hs_ex s i)"
    and "sent L (forget L s i) = sent L (hs_ex s i)" and "ex_parts (forget L s i) = ex_parts (hs_ex s i)"
    and "tx L (forget L s i) \<longleftrightarrow> tx L (hs_ex s i) \<and> \<not> (i \<in> fst ` set (sv_q (hs_svc s)) \<and> \<not> rx L (hs_ex s i))"
  using tokio_okD(3,6) [OF assms] by (auto simp: forget_def gone_def)

lemma give_permit_simps [simp]:
  "sv_q (give_permit L pc v) = sv_q v" "sv_down (give_permit L pc v) = sv_down v" "sv_cap (give_permit L pc v) = sv_cap v"
  "sv_in_flight (give_permit L pc v) = sv_in_flight v" "sv_body_cap (give_permit L pc v) = sv_body_cap v"
  by (auto simp: give_permit_def split: park_pc.splits)

lemma unfinished_known: "channels_ok L s \<Longrightarrow> \<not> over (ex_pc (hs_ex s i)) \<Longrightarrow> i < hs_n s"
  unfolding channels_ok_def chan_ok_def by (meson not_le)

lemma chan_okD: "channels_ok L s \<Longrightarrow> chan_ok L (hs_n s) (outside s i) i (hs_ex s i)"
  by (simp add: channels_ok_def)

text \<open>A step that concerns one exchange.\<close>

lemma channels_at:
  assumes "channels_ok L s" and "hs_n s' = hs_n s"
    and "\<And>j. j \<noteq> i \<Longrightarrow> outside s' j = outside s j" and "\<And>j. j \<noteq> i \<Longrightarrow> hs_ex s' j = hs_ex s j"
    and "chan_ok L (hs_n s) (outside s' i) i (hs_ex s' i)"
  shows "channels_ok L s'"
  using assms unfolding channels_ok_def by metis

lemma chan_ok_end:
  assumes "tokio_ok L" and "chan_ok L n k i e" and "over pc"
  shows "chan_ok L n k i (end_park L pc e)"
proof -
  have "\<not> early pc" using assms(3) by (cases pc) simp_all
  then show ?thesis
    using assms(2,3) by (cases "early (ex_pc e)"; cases "tx L e") (auto simp: chan_ok_def end_park_simps [OF assms(1)])
qed

lemma chan_ok_goto:
  assumes "chan_ok L n k i e" and "early pc = early (ex_pc e)" and "\<not> over pc" and "\<not> over (ex_pc e)"
  shows "chan_ok L n k i (e\<lparr>ex_pc := pc\<rparr>)"
  using assms by (auto simp: chan_ok_def)

lemma chan_ok_reply:
  assumes "tokio_ok L" and "chan_ok L n (Suc k) i e"
  shows "chan_ok L n k i (reply L r e)"
  using assms(2) by (cases "early (ex_pc e)"; cases "tx L e") (auto simp: chan_ok_def reply_simps [OF assms(1)])

lemma finish_channels:
  assumes "tokio_ok L" and "channels_ok L s" and "over pc"
  shows "channels_ok L (finish L i pc s)"
proof (rule channels_at [OF assms(2)])
  show "chan_ok L (hs_n s) (outside (finish L i pc s) i) i (hs_ex (finish L i pc s) i)"
    using chan_ok_end [OF assms(1) chan_okD [OF assms(2)] assms(3)] by (simp add: finish_def outside_def)
qed (simp_all add: finish_def outside_def)

lemma goto_channels:
  assumes "channels_ok L s" and "early pc = early (ex_pc (hs_ex s i))" and "\<not> over pc" and "\<not> over (ex_pc (hs_ex s i))"
  shows "channels_ok L (goto i pc s)"
proof (rule channels_at [OF assms(1)])
  show "chan_ok L (hs_n s) (outside (goto i pc s) i) i (hs_ex (goto i pc s) i)"
    using chan_ok_goto [OF chan_okD [OF assms(1)] assms(2-)] by (simp add: goto_def outside_def)
qed (simp_all add: goto_def outside_def)

lemma channels_cong:
  assumes "channels_ok L s" and "hs_n s' = hs_n s" and "hs_ex s' = hs_ex s" and "outside s' = outside s"
  shows "channels_ok L s'"
  using assms by (simp add: channels_ok_def)

text \<open>Pruning drops the senders it removes.\<close>

lemma count_list_filter: "count_list (map fst (filter (\<lambda>p. \<not> g (fst p)) q)) i = (if g i then 0 else count_list (map fst q) i)"
  by (induction q) auto

lemma count_list_pos: "x \<in> set xs \<Longrightarrow> 0 < count_list xs x"
  by (metis count_list_0_iff gr0I)

lemma prune_channels:
  assumes "tokio_ok L" and "channels_ok L s" and "sv_q v = snd (prune (gone L s) (sv_q (hs_svc s)))"
  shows "channels_ok L (s\<lparr>hs_svc := v, hs_ex := forget L s\<rparr>)"
  unfolding channels_ok_def
proof
  fix i
  let ?s = "s\<lparr>hs_svc := v, hs_ex := forget L s\<rparr>"
  have ok: "chan_ok L (hs_n s) (outside s i) i (hs_ex s i)" by (rule chan_okD [OF assms(2)])
  have g: "gone L s i \<longleftrightarrow> \<not> rx L (hs_ex s i)" by (simp add: gone_def tokio_okD(3) [OF assms(1)])
  have q: "count_list (map fst (sv_q v)) i = (if gone L s i then 0 else count_list (map fst (sv_q (hs_svc s))) i)"
    by (simp add: assms(3) prune_def Let_def count_list_filter)
  show "chan_ok L (hs_n ?s) (outside ?s i) i (hs_ex ?s i)"
  proof (cases "i \<in> fst ` set (sv_q (hs_svc s)) \<and> gone L s i")
    case True
    then have "0 < count_list (map fst (sv_q (hs_svc s))) i" by (intro count_list_pos) auto
    then have "outside s i = Suc (outside ?s i)" "\<not> early (ex_pc (hs_ex s i))"
      using ok q True by (auto simp: outside_def chan_ok_def of_bool_def split: if_splits)
    then show ?thesis
      using ok True g by (auto simp: chan_ok_def forget_simps [OF assms(1)] of_bool_def split: if_splits)
  next
    case False
    then have "count_list (map fst (sv_q (hs_svc s))) i = 0 \<or> \<not> gone L s i" by (auto simp: count_list_0_iff)
    then have "outside ?s i = outside s i" using q by (auto simp: outside_def)
    with False ok g show ?thesis by (simp add: chan_ok_def forget_simps [OF assms(1)])
  qed
qed

lemma wait_channels:
  assumes "tokio_ok L" and "channels_ok L s"
  shows "channels_ok L (do_wait L s)"
  unfolding do_wait_def by (rule prune_channels [OF assms]) (simp add: wait_first_def Let_def)

lemma take_channels:
  assumes "tokio_ok L" and "channels_ok L s"
  shows "channels_ok L (do_take L s)"
proof (cases "snd (prune (gone L s) (sv_q (hs_svc s)))")
  case Nil
  then have "do_take L s = s\<lparr>hs_svc := (hs_svc s)\<lparr>sv_q := []\<rparr>, hs_ex := forget L s\<rparr>"
    by (simp add: do_take_def svc_take_def)
  then show ?thesis using prune_channels [OF assms, of "(hs_svc s)\<lparr>sv_q := []\<rparr>"] Nil by simp
next
  case (Cons p q)
  let ?pruned = "s\<lparr>hs_svc := (hs_svc s)\<lparr>sv_q := p # q\<rparr>, hs_ex := forget L s\<rparr>"
  have "channels_ok L ?pruned" using Cons by (intro prune_channels [OF assms]) simp
  moreover have "do_take L s = s\<lparr>hs_svc := (hs_svc s)\<lparr>sv_q := q\<rparr>, hs_ex := forget L s,
      hs_reqs := hs_reqs s @ [\<lparr>hr_id = fst p, hr_parts = snd p, hr_pc = Fresh\<rparr>]\<rparr>"
    using Cons by (cases p) (simp add: do_take_def svc_take_def)
  ultimately show ?thesis by (elim channels_cong) (auto simp: outside_def)
qed

lemma push_channels:
  assumes "tokio_ok L" and "channels_ok L s" and "ex_pc (hs_ex s i) = PPush"
  shows "channels_ok L (do_push L i late s)"
proof -
  let ?q = "snd (prune (gone L s) (sv_q (hs_svc s)))"
  let ?pruned = "s\<lparr>hs_svc := (hs_svc s)\<lparr>sv_q := ?q\<rparr>, hs_ex := forget L s\<rparr>"
  have ok: "channels_ok L ?pruned" by (intro prune_channels [OF assms(1,2)]) simp
  have pc: "ex_pc (forget L s i) = PPush" using assms(3) by (simp add: forget_simps [OF assms(1)])
  have give_up: "channels_ok L (t\<lparr>hs_ex := (hs_ex t)(i := (hs_ex t i)\<lparr>ex_pc := PPushed False, ex_ch := ch_drop_tx L (ex_ch (hs_ex t i))\<rparr>)\<rparr>)"
    if "channels_ok L t" "ex_pc (hs_ex t i) = PPush" for t
    using that chan_okD [OF that(1), of i]
    by (intro channels_at [OF that(1), of _ i]) (auto simp: outside_def chan_ok_def tokio_okD(6) [OF assms(1)] of_bool_def split: if_splits)
  have parked: "channels_ok L (goto i (PPushed True) (s\<lparr>hs_svc := (hs_svc s)\<lparr>sv_q := ?q @ [(i, p)]\<rparr>, hs_ex := forget L s\<rparr>))" for p
    using chan_okD [OF ok, of i] pc
    by (intro channels_at [OF ok, of _ i]) (auto simp: goto_def outside_def chan_ok_def of_bool_def split: if_splits)
  show ?thesis
    using assms(2,3) ok pc give_up [OF assms(2,3)] give_up [OF ok] parked
    by (auto simp: do_push_def push_pass_def Let_def)
qed

lemma drain_channels: "channels_ok L s \<Longrightarrow> channels_ok L (do_drain s)"
  by (elim channels_cong) (auto simp: do_drain_def svc_drain_def outside_def)

lemma drain_one_channels:
  assumes "tokio_ok L" and "channels_ok L s" and "hs_drain s = i # rest"
  shows "channels_ok L (s\<lparr>hs_drain := rest, hs_ex := (hs_ex s)(i := reply L retry_later (hs_ex s i))\<rparr>)"
proof (rule channels_at [OF assms(2), of _ i])
  let ?s = "s\<lparr>hs_drain := rest, hs_ex := (hs_ex s)(i := reply L retry_later (hs_ex s i))\<rparr>"
  have "outside s i = Suc (outside ?s i)" using assms(3) by (simp add: outside_def)
  with chan_okD [OF assms(2), of i] show "chan_ok L (hs_n s) (outside ?s i) i (hs_ex ?s i)"
    by (simp add: chan_ok_reply [OF assms(1)])
qed (use assms(3) in \<open>auto simp: outside_def\<close>)

lemma arrive_channels:
  assumes "tokio_ok L" and "channels_ok L s" and "e = park_new L p \<or> e = end_park L (PDone retry_later) (park_new L p)"
  shows "channels_ok L (s\<lparr>hs_n := Suc (hs_n s), hs_ex := (hs_ex s)(hs_n s := e)\<rparr>)"
proof -
  have none: "outside s (hs_n s) = 0"
    using chan_okD [OF assms(2), of "hs_n s"] by (auto simp: chan_ok_def)
  have "chan_ok L (Suc (hs_n s)) 0 (hs_n s) (park_new L p)"
    by (simp add: chan_ok_def park_new_simps [OF assms(1)])
  then have new: "chan_ok L (Suc (hs_n s)) 0 (hs_n s) e"
    using assms(3) chan_ok_end [OF assms(1)] by auto
  have other: "chan_ok L (Suc (hs_n s)) (outside s j) j (hs_ex s j)" for j
    using chan_okD [OF assms(2), of j] by (auto simp: chan_ok_def)
  have "outside (s\<lparr>hs_n := Suc (hs_n s), hs_ex := (hs_ex s)(hs_n s := e)\<rparr>) = outside s"
    by (auto simp: outside_def)
  with none new other show ?thesis by (simp add: channels_ok_def)
qed

lemma handle_channels:
  assumes "tokio_ok L" and "channels_ok L s" and "hs_reqs s = xs @ r # ys" and "handle_step (hr_pc r) = (pc, d, out)"
  shows "channels_ok L (s\<lparr>hs_svc := (hs_svc s)\<lparr>sv_in_flight := f\<rparr>,
        hs_ex := send_opt L (hr_id r) out (hs_ex s), hs_reqs := xs @ r\<lparr>hr_pc := pc\<rparr> # ys\<rparr>)" (is "channels_ok L ?s")
proof (cases out)
  case None
  then have "holding pc = holding (hr_pc r)" using assms(4) by (cases "hr_pc r") auto
  then have "outside ?s = outside s" using assms(3) by (auto simp: outside_def)
  then show ?thesis using None by (intro channels_cong [OF assms(2)]) (auto simp: send_opt_def)
next
  case (Some a)
  have pc: "holding (hr_pc r)" "\<not> holding pc" using assms(4) Some by (cases "hr_pc r"; auto)+
  show ?thesis
  proof (rule channels_at [OF assms(2), of _ "hr_id r"])
    have "outside s (hr_id r) = Suc (outside ?s (hr_id r))" using assms(3) pc by (simp add: outside_def)
    with chan_okD [OF assms(2), of "hr_id r"] Some
    show "chan_ok L (hs_n s) (outside ?s (hr_id r)) (hr_id r) (hs_ex ?s (hr_id r))"
      by (simp add: chan_ok_reply [OF assms(1)] send_opt_def)
  qed (use assms(3) Some in \<open>auto simp: outside_def send_opt_def\<close>)
qed

lemma step_channels:
  assumes "tokio_ok L" and "httpd_step L H F s s'" and "channels_ok L s"
  shows "channels_ok L s'"
  using assms(2,3)
proof (induction rule: httpd_step.induct)
  case (permit s i m)
  have "channels_ok L (s\<lparr>hs_svc := (hs_svc s)\<lparr>sv_body_permits := m\<rparr>\<rparr>)"
    by (rule channels_cong [OF permit(3)]) (auto simp: outside_def)
  then show ?case using permit by (intro goto_channels) simp_all
next
  case (body_ok s i bs)
  then show ?case
    using chan_ok_goto [OF chan_okD [OF body_ok(3)], of PPush i] by (intro channels_at [OF body_ok(3), of _ i])
      (auto simp: outside_def chan_ok_def)
next
  case (pushed s i)
  have "channels_ok L (s\<lparr>hs_svc := give_permit L (PPushed True) (hs_svc s)\<rparr>)"
    by (rule channels_cong [OF pushed(2)]) (auto simp: outside_def)
  then show ?case using pushed by (intro goto_channels) simp_all
next
  case (respond s xs r ys status headers bs a path)
  then show ?case
    by (intro channels_cong [OF respond(4)]) (auto simp: outside_def take_reply_def split: handle_pc.splits)
next
  case (free s xs r ys)
  then show ?case by (intro channels_cong [OF free(3)]) (auto simp: outside_def)
next
  case (stop s)
  then show ?case by (elim channels_cong) (auto simp: outside_def)
qed (auto intro: finish_channels wait_channels take_channels push_channels drain_channels drain_one_channels
    arrive_channels handle_channels assms(1))

lemma init_channels: "tokio_ok L \<Longrightarrow> channels_ok L (httpd_init L (svc_bind L a b c d e f g))"
  by (simp add: channels_ok_def chan_ok_def httpd_init_def svc_bind_def outside_def blank_def end_park_simps park_new_simps)

section \<open>Bounds and counters\<close>

fun reads :: "park_pc \<Rightarrow> bool" where
  "reads PBody = True"
| "reads PPush = True"
| "reads (PPushed b) = True"
| "reads _ = False"

fun counted :: "handle_pc \<Rightarrow> bool" where
  "counted Open = True"
| "counted (Taken r) = True"
| "counted Dropped = True"
| "counted DropSent = True"
| "counted _ = False"

definition readers :: "('sem, 'ch) hsys \<Rightarrow> nat" where
  "readers s = (\<Sum>i<hs_n s. of_bool (reads (ex_pc (hs_ex s i))))"

definition pulled :: "('sem, 'ch) hsys \<Rightarrow> nat" where
  "pulled s = length (filter (\<lambda>r. counted (hr_pc r)) (hs_reqs s))"

definition permits_ok :: "('sem, response, 'ch) tokio \<Rightarrow> ('sem, 'ch) hsys \<Rightarrow> bool" where
  "permits_ok L s \<longleftrightarrow> sem_available L (sv_body_permits (hs_svc s)) + readers s = sv_cap (hs_svc s)"

lemma sum_upd:
  fixes g :: "'a \<Rightarrow> nat" and n :: nat
  assumes "i < n"
  shows "(\<Sum>j<n. g ((h(i := e)) j)) + g (h i) = (\<Sum>j<n. g (h j)) + g e"
proof -
  have i: "i \<in> {..<n}" using assms by simp
  have "(\<Sum>j\<in>{..<n} - {i}. g ((h(i := e)) j)) = (\<Sum>j\<in>{..<n} - {i}. g (h j))"
    by (rule sum.cong) auto
  then show ?thesis
    unfolding sum.remove [OF finite_lessThan i] by simp
qed

lemma give_permit_available:
  assumes "tokio_ok L"
  shows "sem_available L (sv_body_permits (give_permit L pc v)) = sem_available L (sv_body_permits v) + of_bool (reads pc)"
  using sem_okD(4) [OF tokio_okD(1) [OF assms]] by (cases pc) (simp_all add: give_permit_def)

text \<open>A step of one exchange that keeps the books.\<close>

lemma permits_at:
  assumes "permits_ok L s" and "i < hs_n s" and "hs_n s' = hs_n s" and "hs_ex s' = (hs_ex s)(i := e)"
    and "sv_cap (hs_svc s') = sv_cap (hs_svc s)"
    and "sem_available L (sv_body_permits (hs_svc s')) + of_bool (reads (ex_pc e)) =
         sem_available L (sv_body_permits (hs_svc s)) + of_bool (reads (ex_pc (hs_ex s i)))"
  shows "permits_ok L s'"
  using sum_upd [OF assms(2), of "\<lambda>e. of_bool (reads (ex_pc e))" "hs_ex s" e] assms(1,5,6)
  unfolding permits_ok_def readers_def assms(3,4) by linarith

lemma permits_cong:
  assumes "permits_ok L s" and "hs_n s' = hs_n s" and "\<And>i. ex_pc (hs_ex s' i) = ex_pc (hs_ex s i)"
    and "sv_cap (hs_svc s') = sv_cap (hs_svc s)" and "sv_body_permits (hs_svc s') = sv_body_permits (hs_svc s)"
  shows "permits_ok L s'"
  using assms by (simp add: permits_ok_def readers_def)

lemma finish_permits:
  assumes "tokio_ok L" and "permits_ok L s" and "channels_ok L s" and "\<not> over (ex_pc (hs_ex s i))" and "over pc"
  shows "permits_ok L (finish L i pc s)"
proof (rule permits_at [OF assms(2) unfinished_known [OF assms(3,4)]])
  have "\<not> reads pc" using assms(5) by (cases pc) simp_all
  then show "sem_available L (sv_body_permits (hs_svc (finish L i pc s))) + of_bool (reads (ex_pc (end_park L pc (hs_ex s i)))) =
      sem_available L (sv_body_permits (hs_svc s)) + of_bool (reads (ex_pc (hs_ex s i)))"
    by (simp add: finish_def give_permit_available [OF assms(1)] end_park_simps [OF assms(1)])
qed (simp_all add: finish_def)

lemma push_permits:
  assumes "tokio_ok L" and "permits_ok L s" and "channels_ok L s" and "ex_pc (hs_ex s i) = PPush"
  shows "permits_ok L (do_push L i late s)"
proof -
  have known: "i < hs_n s" using assms(4) by (intro unfinished_known [OF assms(3)]) simp
  obtain out v where pass: "push_pass (gone L s) late (i, ex_parts (hs_ex s i)) (hs_svc s) = (out, v)" by fastforce
  then have v: "sv_cap v = sv_cap (hs_svc s)" "sv_body_permits v = sv_body_permits (hs_svc s)"
    by (auto simp: push_pass_def Let_def split: if_splits)
  define ex where "ex = (if sv_down (hs_svc s) then hs_ex s else forget L s)"
  have ex: "ex_pc (ex j) = ex_pc (hs_ex s j)" for j by (simp add: ex_def forget_simps [OF assms(1)])
  let ?s = "s\<lparr>hs_svc := v, hs_ex := ex\<rparr>"
  have ok: "permits_ok L ?s" by (rule permits_cong [OF assms(2)]) (simp_all add: v ex)
  have upd: "permits_ok L (?s\<lparr>hs_ex := ex(i := e)\<rparr>)" if "reads (ex_pc e)" for e
    by (rule permits_at [OF ok, of i _ e]) (use that assms(4) ex [of i] known in simp_all)
  have "do_push L i late s = ?s \<or> (\<exists>e. reads (ex_pc e) \<and> do_push L i late s = ?s\<lparr>hs_ex := ex(i := e)\<rparr>)"
  proof (cases out)
    case Pushed
    then show ?thesis
      by (intro disjI2 exI [of _ "(ex i)\<lparr>ex_pc := PPushed True\<rparr>"]) (simp add: do_push_def pass ex_def [symmetric] goto_def)
  next
    case Refused
    then show ?thesis
      by (intro disjI2 exI [of _ "(ex i)\<lparr>ex_pc := PPushed False, ex_ch := ch_drop_tx L (ex_ch (ex i))\<rparr>"])
        (simp add: do_push_def pass ex_def [symmetric])
  next
    case AwaitSlot
    then show ?thesis by (simp add: do_push_def pass ex_def [symmetric])
  qed
  with ok upd show ?thesis by metis
qed

lemma step_permits:
  assumes "tokio_ok L" and "httpd_step L H F s s'" and "permits_ok L s" and "channels_ok L s"
  shows "permits_ok L s'"
  using assms(2-)
proof (induction rule: httpd_step.induct)
  case (arrive_down s p)
  then show ?case by (simp add: permits_ok_def readers_def end_park_simps [OF assms(1)])
next
  case (arrive s p authority fs)
  then show ?case by (simp add: permits_ok_def readers_def park_new_simps [OF assms(1)])
next
  case (permit s i m)
  have "i < hs_n s" using permit by (intro unfinished_known [OF permit(4)]) simp
  then show ?case
    using permit sem_okD(3) [OF tokio_okD(1) [OF assms(1)] permit(2)]
    by (intro permits_at [OF permit(3), of i _ "(hs_ex s i)\<lparr>ex_pc := PBody\<rparr>"]) (simp_all add: goto_def)
next
  case (body_ok s i bs)
  have "i < hs_n s" using body_ok by (intro unfinished_known [OF body_ok(4)]) simp
  then show ?case
    using body_ok
    by (intro permits_at [OF body_ok(3), of i _ "(hs_ex s i)\<lparr>ex_pc := PPush, ex_parts := (ex_parts (hs_ex s i))\<lparr>p_body := bs\<rparr>\<rparr>"]) simp_all
next
  case (push s i late)
  then show ?case by (intro push_permits [OF assms(1)])
next
  case (pushed s i)
  have "i < hs_n s" using pushed by (intro unfinished_known [OF pushed(3)]) simp
  then show ?case
    using pushed
    by (intro permits_at [OF pushed(2), of i _ "(hs_ex s i)\<lparr>ex_pc := PWait\<rparr>"])
      (simp_all add: goto_def give_permit_available [OF assms(1)])
next
  case (client_left s i)
  then show ?case by (intro finish_permits [OF assms(1)]) auto
next
  case (wait s)
  then show ?case
    by (intro permits_cong [OF wait(1)]) (simp_all add: do_wait_def wait_first_def Let_def forget_simps [OF assms(1)])
next
  case (take s)
  then show ?case
    by (intro permits_cong [OF take(1)])
      (auto simp: do_take_def svc_take_def forget_simps [OF assms(1)] split: list.splits prod.splits option.splits)
next
  case (handle s xs r ys pc d out)
  then show ?case
    by (intro permits_cong [OF handle(3)]) (auto simp: send_opt_def reply_simps [OF assms(1)] split: option.splits)
next
  case (drain s)
  then show ?case by (intro permits_cong [OF drain(2)]) (simp_all add: do_drain_def svc_drain_def)
next
  case (drain_one s i rest)
  then show ?case by (intro permits_cong [OF drain_one(2)]) (simp_all add: reply_simps [OF assms(1)])
qed (auto intro!: finish_permits [OF assms(1)] elim: permits_cong)

text \<open>The queue, the counter and the sizes of bodies.\<close>

definition small :: "('sem, 'ch) hsys \<Rightarrow> parts \<Rightarrow> bool" where
  "small s p \<longleftrightarrow> length (p_body p) \<le> sv_body_cap (hs_svc s)"

definition queue_ok :: "('sem, 'ch) hsys \<Rightarrow> bool" where
  "queue_ok s \<longleftrightarrow>
     length (sv_q (hs_svc s)) \<le> sv_cap (hs_svc s) \<and>
     (hs_drained s \<longrightarrow> sv_down (hs_svc s) \<and> sv_q (hs_svc s) = []) \<and>
     sv_in_flight (hs_svc s) = of_nat (pulled s)"

definition bodies_ok :: "('sem, 'ch) hsys \<Rightarrow> bool" where
  "bodies_ok s \<longleftrightarrow>
     (\<forall>p\<in>set (sv_q (hs_svc s)). small s (snd p)) \<and> (\<forall>r\<in>set (hs_reqs s). small s (hr_parts r)) \<and>
     (\<forall>i. ex_pc (hs_ex s i) = PPush \<longrightarrow> small s (ex_parts (hs_ex s i)))"

lemma prune_subset: "set (snd (prune g q)) \<subseteq> set q" and prune_length: "length (snd (prune g q)) \<le> length q"
  by (auto simp: prune_def Let_def)

lemma push_pass_queue:
  assumes "push_pass g late p v = (out, v')" and "length (sv_q v) \<le> sv_cap v"
  shows "length (sv_q v') \<le> sv_cap v' \<and> sv_cap v' = sv_cap v \<and> sv_down v' = sv_down v \<and> sv_in_flight v' = sv_in_flight v \<and>
    sv_body_cap v' = sv_body_cap v \<and> set (sv_q v') \<subseteq> insert p (set (sv_q v)) \<and> (sv_down v \<longrightarrow> v' = v)"
  using assms prune_subset [of g "sv_q v"] prune_length [of g "sv_q v"]
  by (auto simp: push_pass_def Let_def split: if_splits)

lemma do_push_simps:
  assumes "push_pass (gone L s) late (i, ex_parts (hs_ex s i)) (hs_svc s) = (out, v)"
  shows "hs_svc (do_push L i late s) = v" and "hs_reqs (do_push L i late s) = hs_reqs s"
    and "hs_drained (do_push L i late s) = hs_drained s"
  using assms by (cases out; simp add: do_push_def goto_def Let_def)+

lemma finish_simps [simp]:
  "hs_reqs (finish L i pc s) = hs_reqs s" "hs_drained (finish L i pc s) = hs_drained s"
  "sv_q (hs_svc (finish L i pc s)) = sv_q (hs_svc s)" "sv_cap (hs_svc (finish L i pc s)) = sv_cap (hs_svc s)"
  "sv_down (hs_svc (finish L i pc s)) = sv_down (hs_svc s)" "sv_in_flight (hs_svc (finish L i pc s)) = sv_in_flight (hs_svc s)"
  "sv_body_cap (hs_svc (finish L i pc s)) = sv_body_cap (hs_svc s)"
  by (simp_all add: finish_def)

lemma queue_cong:
  assumes "queue_ok s" and "sv_q (hs_svc s') = sv_q (hs_svc s)" and "sv_cap (hs_svc s') = sv_cap (hs_svc s)"
    and "sv_down (hs_svc s) \<longrightarrow> sv_down (hs_svc s')" and "hs_drained s' = hs_drained s"
    and "sv_in_flight (hs_svc s') - of_nat (pulled s') = sv_in_flight (hs_svc s) - of_nat (pulled s)"
  shows "queue_ok s'"
  using assms by (auto simp: queue_ok_def)

lemma step_queue:
  assumes "httpd_step L H F s s'" and "queue_ok s"
  shows "queue_ok s'"
  using assms
proof (induction rule: httpd_step.induct)
  case (push s i late)
  obtain out v where pass: "push_pass (gone L s) late (i, ex_parts (hs_ex s i)) (hs_svc s) = (out, v)" by fastforce
  then show ?case
    using push_pass_queue [OF pass] push(2) by (auto simp: queue_ok_def pulled_def do_push_simps [OF pass])
next
  case (wait s)
  then show ?case
    using prune_length [of "gone L s" "sv_q (hs_svc s)"] prune_subset [of "gone L s" "sv_q (hs_svc s)"]
    by (auto simp: queue_ok_def pulled_def do_wait_def wait_first_def Let_def)
next
  case (take s)
  show ?case
    using take prune_length [of "gone L s" "sv_q (hs_svc s)"] prune_subset [of "gone L s" "sv_q (hs_svc s)"]
    by (cases "snd (prune (gone L s) (sv_q (hs_svc s)))")
      (auto simp: queue_ok_def pulled_def do_take_def svc_take_def split: prod.splits)
next
  case (handle s xs r ys pc d out)
  then show ?case by (cases "hr_pc r") (auto simp: queue_ok_def pulled_def)
next
  case (respond s xs r ys status headers bs a path)
  then show ?case by (intro queue_cong [OF respond(4)]) (auto simp: pulled_def take_reply_def split: handle_pc.splits)
next
  case (free s xs r ys)
  then show ?case by (intro queue_cong [OF free(3)]) (auto simp: pulled_def)
next
  case (drain s)
  then show ?case by (auto simp: queue_ok_def pulled_def do_drain_def svc_drain_def)
qed (auto elim!: queue_cong simp: pulled_def goto_def)

lemma bodies_cong:
  assumes "bodies_ok s" and "set (sv_q (hs_svc s')) \<subseteq> set (sv_q (hs_svc s))" and "sv_body_cap (hs_svc s') = sv_body_cap (hs_svc s)"
    and "hr_parts ` set (hs_reqs s') \<subseteq> hr_parts ` set (hs_reqs s)"
    and "\<And>i. ex_pc (hs_ex s' i) = PPush \<Longrightarrow> ex_pc (hs_ex s i) = PPush \<and> ex_parts (hs_ex s' i) = ex_parts (hs_ex s i)"
  shows "bodies_ok s'"
  unfolding bodies_ok_def
proof (intro conjI ballI allI impI)
  have same: "small s' = small s" by (auto simp: small_def assms(3))
  show "small s' (snd p)" if "p \<in> set (sv_q (hs_svc s'))" for p using that assms(1,2) same by (auto simp: bodies_ok_def)
  show "small s' (hr_parts r)" if "r \<in> set (hs_reqs s')" for r using that assms(1,4) same by (force simp: bodies_ok_def)
  show "small s' (ex_parts (hs_ex s' i))" if "ex_pc (hs_ex s' i) = PPush" for i
    using assms(1) assms(5) [OF that] same by (auto simp: bodies_ok_def)
qed

lemma bodies_take:
  assumes "tokio_ok L" and "bodies_ok s"
  shows "bodies_ok (do_take L s)"
proof (cases "snd (prune (gone L s) (sv_q (hs_svc s)))")
  case Nil
  then show ?thesis
    by (intro bodies_cong [OF assms(2)]) (auto simp: do_take_def svc_take_def forget_simps [OF assms(1)])
next
  case (Cons p q)
  let ?r = "\<lparr>hr_id = fst p, hr_parts = snd p, hr_pc = Fresh\<rparr>"
  have eq: "do_take L s = s\<lparr>hs_svc := (hs_svc s)\<lparr>sv_q := q\<rparr>, hs_ex := forget L s, hs_reqs := hs_reqs s @ [?r]\<rparr>"
    using Cons by (cases p) (simp add: do_take_def svc_take_def)
  have in_q: "set (p # q) \<subseteq> set (sv_q (hs_svc s))" using prune_subset [of "gone L s" "sv_q (hs_svc s)"] Cons by simp
  have "bodies_ok (s\<lparr>hs_svc := (hs_svc s)\<lparr>sv_q := q\<rparr>, hs_ex := forget L s\<rparr>)"
    using in_q by (intro bodies_cong [OF assms(2)]) (auto simp: forget_simps [OF assms(1)])
  moreover have "small s (snd p)" using assms(2) in_q by (auto simp: bodies_ok_def)
  ultimately show ?thesis by (auto simp: eq bodies_ok_def small_def)
qed

lemma bodies_push:
  assumes "tokio_ok L" and "bodies_ok s" and "queue_ok s" and "ex_pc (hs_ex s i) = PPush"
  shows "bodies_ok (do_push L i late s)"
proof -
  obtain out v where pass: "push_pass (gone L s) late (i, ex_parts (hs_ex s i)) (hs_svc s) = (out, v)" by fastforce
  have v: "set (sv_q v) \<subseteq> insert (i, ex_parts (hs_ex s i)) (set (sv_q (hs_svc s)))" "sv_body_cap v = sv_body_cap (hs_svc s)"
    using push_pass_queue [OF pass] assms(3) by (auto simp: queue_ok_def)
  have own: "small s (ex_parts (hs_ex s i))" using assms(2,4) by (simp add: bodies_ok_def)
  have small: "small (do_push L i late s) = small s" by (auto simp: small_def do_push_simps [OF pass] v)
  have ex: "ex_pc (hs_ex (do_push L i late s) j) = PPush \<Longrightarrow>
      ex_pc (hs_ex s j) = PPush \<and> ex_parts (hs_ex (do_push L i late s) j) = ex_parts (hs_ex s j)" for j
    by (cases out; cases "j = i") (auto simp: do_push_def pass goto_def Let_def forget_simps [OF assms(1)] split: if_splits)
  show ?thesis
    using v(1) own assms(2) ex unfolding bodies_ok_def small by (auto simp: do_push_simps [OF pass])
qed

lemma step_bodies:
  assumes "tokio_ok L" and "httpd_step L H F s s'" and "bodies_ok s" and "queue_ok s"
  shows "bodies_ok s'"
  using assms(2-)
proof (induction rule: httpd_step.induct)
  case (body_ok s i bs)
  then show ?case by (auto simp: bodies_ok_def small_def)
next
  case (push s i late)
  then show ?case by (intro bodies_push [OF assms(1)])
next
  case (wait s)
  then show ?case
    using prune_subset [of "gone L s" "sv_q (hs_svc s)"]
    by (intro bodies_cong [OF wait(1)]) (auto simp: do_wait_def wait_first_def Let_def forget_simps [OF assms(1)])
next
  case (take s)
  then show ?case by (intro bodies_take [OF assms(1)])
next
  case (handle s xs r ys pc d out)
  then show ?case
    by (intro bodies_cong [OF handle(3)]) (auto simp: send_opt_def reply_simps [OF assms(1)] split: option.splits if_splits)
qed (auto elim!: bodies_cong simp: goto_def finish_def do_drain_def svc_drain_def park_new_simps [OF assms(1)]
    end_park_simps [OF assms(1)] reply_simps [OF assms(1)] split: if_splits)

section \<open>What clients are told\<close>

definition offered :: "http_lib \<Rightarrow> file_system \<Rightarrow> response \<Rightarrow> bool" where
  "offered H F a \<longleftrightarrow>
     (\<exists>meth status headers bs path.
        respond_with H meth status headers bs = Inr a \<or> respond_file_with H F meth status headers path = Inr a)"

fun offer :: "handle_pc \<Rightarrow> response option" where
  "offer (Taken a) = Some a"
| "offer (Counted a) = Some a"
| "offer _ = None"

definition answers_ok ::
  "('sem, response, 'ch) tokio \<Rightarrow> http_lib \<Rightarrow> file_system \<Rightarrow> ('sem, 'ch) hsys \<Rightarrow> bool" where
  "answers_ok L H F s \<longleftrightarrow>
     (\<forall>r\<in>set (hs_reqs s). \<forall>a. offer (hr_pc r) = Some a \<longrightarrow> offered H F a) \<and>
     (\<forall>i a. sent L (hs_ex s i) = Some a \<longrightarrow> offered H F a \<or> a = retry_later \<or> a = status_only 500) \<and>
     (\<forall>i a. ex_pc (hs_ex s i) = PDone a \<longrightarrow>
        sent L (hs_ex s i) = Some a \<or> a \<in> {retry_later, status_only 408, status_only 413, status_only 503, status_only 504})"

lemma answers_finish:
  assumes "tokio_ok L" and "answers_ok L H F s"
    and "\<And>a. pc = PDone a \<Longrightarrow> sent L (hs_ex s i) = Some a \<or> a \<in> {retry_later, status_only 408, status_only 413, status_only 503, status_only 504}"
  shows "answers_ok L H F (finish L i pc s)"
  using assms(2,3) by (auto simp: answers_ok_def finish_def end_park_simps [OF assms(1)])

lemma answers_frame:
  assumes "answers_ok L H F s" and "hs_reqs s' = hs_reqs s"
    and "\<And>i. sent L (hs_ex s' i) = sent L (hs_ex s i)"
    and "\<And>i. ex_pc (hs_ex s' i) = ex_pc (hs_ex s i) \<or> \<not> over (ex_pc (hs_ex s' i))"
  shows "answers_ok L H F s'"
  using assms(1) unfolding answers_ok_def assms(2,3) by (metis assms(4) over.simps(1))

lemma answers_push:
  assumes "tokio_ok L" and "answers_ok L H F s"
  shows "answers_ok L H F (do_push L i late s)"
proof -
  obtain out v where pass: "push_pass (gone L s) late (i, ex_parts (hs_ex s i)) (hs_svc s) = (out, v)" by fastforce
  show ?thesis
    by (rule answers_frame [OF assms(2)])
      (cases out; auto simp: do_push_def pass goto_def Let_def forget_simps [OF assms(1)] tokio_okD(6) [OF assms(1)])+
qed

lemma step_answers:
  assumes "tokio_ok L" and "httpd_step L H F s s'" and "answers_ok L H F s" and "channels_ok L s"
  shows "answers_ok L H F s'"
  using assms(2-)
proof (induction rule: httpd_step.induct)
  case (arrive_down s p)
  then show ?case by (auto simp: answers_ok_def end_park_simps [OF assms(1)] park_new_simps [OF assms(1)])
next
  case (arrive s p authority fs)
  then show ?case by (auto simp: answers_ok_def park_new_simps [OF assms(1)])
next
  case (answered s i a)
  have "sent L (hs_ex s i) = a" using answered(2) tokio_okD(8) [OF assms(1)] by (auto split: option.splits if_splits)
  then show ?case by (intro answers_finish [OF assms(1) answered(3)]) (auto split: option.splits)
next
  case (push s i late)
  then show ?case by (intro answers_push [OF assms(1)])
next
  case (wait s)
  then show ?case by (intro answers_frame [OF wait(1)]) (auto simp: do_wait_def forget_simps [OF assms(1)])
next
  case (take s)
  then show ?case
    by (auto simp: answers_ok_def do_take_def forget_simps [OF assms(1)] split: prod.splits option.splits)
next
  case (respond s xs r ys status headers bs a path)
  have "offered H F a" using respond(3) unfolding offered_def by blast
  then show ?case using respond(1,4) by (auto simp: answers_ok_def)
next
  case (free s xs r ys)
  then show ?case by (auto simp: answers_ok_def)
next
  case (handle s xs r ys pc d out)
  have old: "offer (hr_pc r) = Some a \<Longrightarrow> offered H F a" for a using handle(1,3) by (auto simp: answers_ok_def)
  have pc: "offer pc = Some a \<Longrightarrow> offered H F a" for a using handle(2) old by (cases "hr_pc r") auto
  have out: "out = Some a \<Longrightarrow> offered H F a \<or> a = status_only 500" for a using handle(2) old by (cases "hr_pc r") auto
  have "ex_pc (hs_ex s i) = PDone a \<Longrightarrow> \<not> rx L (hs_ex s i)" for i a
    using chan_okD [OF handle(4), of i] by (simp add: chan_ok_def)
  then show ?case
    using handle(1,3) pc out
    by (auto simp: answers_ok_def send_opt_def reply_simps [OF assms(1)] split: option.splits if_splits)
next
  case (drain_one s i rest)
  have "ex_pc (hs_ex s i) = PDone a \<Longrightarrow> \<not> rx L (hs_ex s i)" for a
    using chan_okD [OF drain_one(3), of i] by (simp add: chan_ok_def)
  then show ?case using drain_one(2) by (auto simp: answers_ok_def reply_simps [OF assms(1)] split: if_splits)
qed (auto intro!: answers_finish [OF assms(1)] elim!: answers_frame
    simp: goto_def do_drain_def svc_drain_def split: if_splits)

section \<open>Reachable states\<close>

definition httpd_ok :: "('sem, response, 'ch) tokio \<Rightarrow> http_lib \<Rightarrow> file_system \<Rightarrow> ('sem, 'ch) hsys \<Rightarrow> bool" where
  "httpd_ok L H F s \<longleftrightarrow> channels_ok L s \<and> permits_ok L s \<and> queue_ok s \<and> bodies_ok s \<and> answers_ok L H F s"

lemma init_ok:
  assumes "tokio_ok L"
  shows "httpd_ok L H F (httpd_init L (svc_bind L queue max_connections body_cap head_ms body_ms queue_wait_ms handler_ms))"
proof -
  have "blank L = end_park L PGone (park_new L (ex_parts (blank L)))"
    by (simp add: blank_def end_park_simps [OF assms] park_new_simps [OF assms])
  then have blank: "ex_pc (blank L) = PGone" "sent L (blank L) = None"
    by (metis end_park_simps(1,4) [OF assms] park_new_simps(4) [OF assms])+
  show ?thesis
    using init_channels [OF assms] blank sem_okD(1) [OF tokio_okD(1) [OF assms]]
    by (auto simp: httpd_ok_def permits_ok_def readers_def queue_ok_def pulled_def bodies_ok_def answers_ok_def
        httpd_init_def svc_bind_def)
qed

lemma reach_ok:
  assumes "tokio_ok L" and "httpd_reach L H F s"
  shows "httpd_ok L H F s"
  using assms(2)
proof (induction rule: httpd_reach.induct)
  case (bound queue max_connections body_cap head_ms body_ms queue_wait_ms handler_ms)
  show ?case by (rule init_ok [OF assms(1)])
next
  case (step s s')
  then show ?case
    using step_channels [OF assms(1) step(2)] step_permits [OF assms(1) step(2)] step_queue [OF step(2)]
      step_bodies [OF assms(1) step(2)] step_answers [OF assms(1) step(2)]
    by (simp add: httpd_ok_def)
qed

lemma step_sent:
  assumes "tokio_ok L" and "httpd_step L H F s s'" and "channels_ok L s" and "sent L (hs_ex s i) = Some a" and "i < hs_n s"
  shows "sent L (hs_ex s' i) = Some a"
proof -
  have tx: "\<not> tx L (hs_ex s i)" using chan_okD [OF assms(3), of i] assms(4) by (simp add: chan_ok_def)
  show ?thesis
    using assms(2,4,5) tx
  proof (induction rule: httpd_step.induct)
    case (push s k late)
    obtain out v where pass: "push_pass (gone L s) late (k, ex_parts (hs_ex s k)) (hs_svc s) = (out, v)" by fastforce
    with push show ?case
      by (cases out; auto simp: do_push_def goto_def Let_def forget_simps [OF assms(1)] tokio_okD(6) [OF assms(1)])
  qed (auto simp: goto_def finish_def do_wait_def do_take_def do_drain_def svc_drain_def send_opt_def
      park_new_simps [OF assms(1)] end_park_simps [OF assms(1)] reply_simps [OF assms(1)] forget_simps [OF assms(1)]
      split: prod.splits option.splits)
qed

lemma step_drained:
  assumes "httpd_step L H F s s'" and "hs_drained s"
  shows "hs_drained s'"
  using assms
proof (induction rule: httpd_step.induct)
  case (push s k late)
  obtain out v where pass: "push_pass (gone L s) late (k, ex_parts (hs_ex s k)) (hs_svc s) = (out, v)" by fastforce
  with push show ?case by (simp add: do_push_simps [OF pass])
qed (auto simp: goto_def do_wait_def do_take_def do_drain_def svc_drain_def split: prod.splits option.splits)

section \<open>Winding down\<close>

text \<open>Runs that stop the server, answer what it drained and finish the request handles; no exchange moves meanwhile.\<close>

definition still :: "('sem, 'ch) hsys \<Rightarrow> ('sem, 'ch) hsys \<Rightarrow> bool" where
  "still s s' \<longleftrightarrow> (\<forall>i. ex_pc (hs_ex s' i) = ex_pc (hs_ex s i))"

lemma reply_pc [simp]: "ex_pc (reply L r e) = ex_pc e"
  by (simp add: reply_def)

lemma send_opt_pc [simp]: "ex_pc (send_opt L i out ex j) = ex_pc (ex j)"
  by (simp add: send_opt_def split: option.splits)

lemma stop_drains:
  "\<exists>s'. (httpd_step L H F)\<^sup>*\<^sup>* s s' \<and> still s s' \<and> sv_q (hs_svc s') = []"
proof -
  let ?s = "s\<lparr>hs_svc := (hs_svc s)\<lparr>sv_down := True\<rparr>\<rparr>"
  have "httpd_step L H F s ?s" by (rule httpd_step.stop)
  moreover have "httpd_step L H F ?s (do_drain ?s)" by (rule httpd_step.drain) simp
  ultimately have "(httpd_step L H F)\<^sup>*\<^sup>* s (do_drain ?s)" by (meson converse_rtranclp_into_rtranclp r_into_rtranclp)
  moreover have "still s (do_drain ?s)" and "sv_q (hs_svc (do_drain ?s)) = []"
    by (simp_all add: still_def do_drain_def svc_drain_def)
  ultimately show ?thesis by blast
qed

lemma drained_answered:
  "\<exists>s'. (httpd_step L H F)\<^sup>*\<^sup>* s s' \<and> still s s' \<and> hs_drain s' = [] \<and> sv_q (hs_svc s') = sv_q (hs_svc s)"
proof (induction "hs_drain s" arbitrary: s)
  case (Cons i rest)
  let ?s = "s\<lparr>hs_drain := rest, hs_ex := (hs_ex s)(i := reply L retry_later (hs_ex s i))\<rparr>"
  have "httpd_step L H F s ?s" by (rule httpd_step.drain_one) (use Cons(2) in simp)
  moreover have "still s ?s" by (simp add: still_def)
  moreover obtain s' where "(httpd_step L H F)\<^sup>*\<^sup>* ?s s'" "still ?s s'" "hs_drain s' = []" "sv_q (hs_svc s') = sv_q (hs_svc ?s)"
    using Cons(1) [of ?s] by auto
  ultimately show ?case by (intro exI [of _ s']) (auto simp: still_def intro: converse_rtranclp_into_rtranclp)
qed (auto simp: still_def)

text \<open>How many steps a handle may still take.\<close>

fun handle_rank :: "handle_pc \<Rightarrow> nat" where
  "handle_rank Fresh = 3"
| "handle_rank Open = 2"
| "handle_rank (Taken r) = 2"
| "handle_rank (Counted r) = 1"
| "handle_rank Dropped = 1"
| "handle_rank DropSent = 0"
| "handle_rank Shut = 0"

lemma handle_rank_0: "handle_rank pc = 0 \<longleftrightarrow> \<not> holding pc"
  by (cases pc) simp_all

lemma handle_moves:
  assumes "hs_reqs s = xs @ r # ys" and "holding (hr_pc r)"
  shows "\<exists>s' r'. httpd_step L H F s s' \<and> still s s' \<and> hs_drain s' = hs_drain s \<and> sv_q (hs_svc s') = sv_q (hs_svc s) \<and>
    hs_reqs s' = xs @ r' # ys \<and> handle_rank (hr_pc r') < handle_rank (hr_pc r)"
proof (cases "hr_pc r = Open")
  case True
  from httpd_step.free [OF assms(1) this, of L H F] show ?thesis using True by (fastforce simp: still_def)
next
  case False
  obtain pc d out where h: "handle_step (hr_pc r) = (pc, d, out)" by (metis prod_cases3)
  have "handle_rank pc < handle_rank (hr_pc r)" using h assms(2) False by (cases "hr_pc r") auto
  with httpd_step.handle [OF assms(1) h, of L H F] show ?thesis by (fastforce simp: still_def)
qed

lemma handles_finished:
  "\<exists>s'. (httpd_step L H F)\<^sup>*\<^sup>* s s' \<and> still s s' \<and> hs_drain s' = hs_drain s \<and> sv_q (hs_svc s') = sv_q (hs_svc s) \<and>
     (\<forall>r\<in>set (hs_reqs s'). \<not> holding (hr_pc r))"
proof (induction "sum_list (map (handle_rank \<circ> hr_pc) (hs_reqs s))" arbitrary: s rule: less_induct)
  case less
  show ?case
  proof (cases "\<forall>r\<in>set (hs_reqs s). \<not> holding (hr_pc r)")
    case False
    then obtain r xs ys where r: "hs_reqs s = xs @ r # ys" "holding (hr_pc r)" by (meson split_list)
    from handle_moves [OF this, of L H F] obtain s1 r' where s1: "httpd_step L H F s s1" "still s s1"
      "hs_drain s1 = hs_drain s" "sv_q (hs_svc s1) = sv_q (hs_svc s)" "hs_reqs s1 = xs @ r' # ys"
      "handle_rank (hr_pc r') < handle_rank (hr_pc r)" by blast
    then have "sum_list (map (handle_rank \<circ> hr_pc) (hs_reqs s1)) < sum_list (map (handle_rank \<circ> hr_pc) (hs_reqs s))"
      by (simp add: r(1))
    from less [OF this] obtain s' where "(httpd_step L H F)\<^sup>*\<^sup>* s1 s'" "still s1 s'" "hs_drain s' = hs_drain s1"
      "sv_q (hs_svc s') = sv_q (hs_svc s1)" "\<forall>r\<in>set (hs_reqs s'). \<not> holding (hr_pc r)" by blast
    with s1 show ?thesis by (intro exI [of _ s']) (auto simp: still_def intro: converse_rtranclp_into_rtranclp)
  qed (auto simp: still_def)
qed

lemma winds_down:
  "\<exists>s'. (httpd_step L H F)\<^sup>*\<^sup>* s s' \<and> still s s' \<and> (\<forall>i. outside s' i = 0)"
proof -
  obtain s1 where s1: "(httpd_step L H F)\<^sup>*\<^sup>* s s1" "still s s1" "sv_q (hs_svc s1) = []" using stop_drains by blast
  obtain s2 where s2: "(httpd_step L H F)\<^sup>*\<^sup>* s1 s2" "still s1 s2" "hs_drain s2 = []" "sv_q (hs_svc s2) = sv_q (hs_svc s1)"
    using drained_answered by blast
  obtain s3 where s3: "(httpd_step L H F)\<^sup>*\<^sup>* s2 s3" "still s2 s3" "hs_drain s3 = hs_drain s2"
    "sv_q (hs_svc s3) = sv_q (hs_svc s2)" "\<forall>r\<in>set (hs_reqs s3). \<not> holding (hr_pc r)" using handles_finished by blast
  have "(httpd_step L H F)\<^sup>*\<^sup>* s s3" using s1(1) s2(1) s3(1) by auto
  moreover have "still s s3" using s1(2) s2(2) s3(2) by (simp add: still_def)
  moreover have "outside s3 i = 0" for i using s1 s2 s3 by (simp add: outside_def filter_empty_conv)
  ultimately show ?thesis by blast
qed

lemma httpd_reach_steps: "httpd_reach L H F s \<Longrightarrow> (httpd_step L H F)\<^sup>*\<^sup>* s s' \<Longrightarrow> httpd_reach L H F s'"
  by (rotate_tac, induction rule: rtranclp_induct) (auto intro: httpd_reach.step)

lemma waiting_answered:
  assumes "tokio_ok L" and "httpd_reach L H F s" and "ex_pc (hs_ex s i) = PWait"
  shows "outside s i \<noteq> 0 \<or> ch_recv L (ex_ch (hs_ex s i)) \<noteq> None"
proof (cases "tx L (hs_ex s i)")
  case True
  have "channels_ok L s" using reach_ok [OF assms(1,2)] by (simp add: httpd_ok_def)
  then have "outside s i \<noteq> 0" using chan_okD [of L s i] assms(3) True by (simp add: chan_ok_def)
  then show ?thesis ..
next
  case False
  then show ?thesis using tokio_okD(8) [OF assms(1), of "ex_ch (hs_ex s i)"] by (cases "sent L (hs_ex s i)") auto
qed

section \<open>Properties\<close>

text \<open>
  (C28) Every request is answered at most once, with something Lisp or the server meant.  At most one party ever
  holds the sender of an exchange; once a value has been sent no party does, and no later step changes it.  What a
  client is told is either that value, which passed the response checks or is the 500 of a dropped request or the 503
  of a stop, or one of the statuses 503, 408, 413 and 504 of the service itself.
\<close>

theorem answered_at_most_once:
  assumes "tokio_ok L" and "httpd_reach L H F s" and "i < hs_n s"
  shows "outside s i + of_bool (early (ex_pc (hs_ex s i))) \<le> 1 \<and>
    (\<forall>a. sent L (hs_ex s i) = Some a \<longrightarrow>
       outside s i = 0 \<and> (offered H F a \<or> a = retry_later \<or> a = status_only 500) \<and>
       (\<forall>s'. httpd_step L H F s s' \<longrightarrow> sent L (hs_ex s' i) = Some a)) \<and>
    (\<forall>a. ex_pc (hs_ex s i) = PDone a \<longrightarrow>
       sent L (hs_ex s i) = Some a \<or> a \<in> {retry_later, status_only 408, status_only 413, status_only 503, status_only 504})"
proof -
  have ok: "channels_ok L s" "answers_ok L H F s" using reach_ok [OF assms(1,2)] by (auto simp: httpd_ok_def)
  have "outside s i + of_bool (early (ex_pc (hs_ex s i))) = of_bool (tx L (hs_ex s i))"
    and "sent L (hs_ex s i) \<noteq> None \<longrightarrow> \<not> tx L (hs_ex s i)"
    using chan_okD [OF ok(1), of i] by (auto simp: chan_ok_def)
  then have one: "outside s i + of_bool (early (ex_pc (hs_ex s i))) \<le> 1" "sent L (hs_ex s i) = Some a \<Longrightarrow> outside s i = 0" for a
    by (auto simp: of_bool_def split: if_splits)
  have keeps: "\<forall>s'. httpd_step L H F s s' \<longrightarrow> sent L (hs_ex s' i) = Some a" if "sent L (hs_ex s i) = Some a" for a
    using step_sent [OF assms(1) _ ok(1) that assms(3)] by blast
  have "sent L (hs_ex s i) = Some a \<Longrightarrow> offered H F a \<or> a = retry_later \<or> a = status_only 500" for a
    using ok(2) unfolding answers_ok_def by blast
  moreover have "ex_pc (hs_ex s i) = PDone a \<Longrightarrow>
      sent L (hs_ex s i) = Some a \<or> a \<in> {retry_later, status_only 408, status_only 413, status_only 503, status_only 504}" for a
    using ok(2) unfolding answers_ok_def by blast
  ultimately show ?thesis using one keeps by blast
qed



text \<open>
  (C31) Nothing parks after a stop: from the moment a stop has drained the queue it stays empty, \<^verbatim>\<open>take-request\<close>
  answers that the server is stopped, and an exchange that still tries to park is refused.
\<close>

theorem nothing_parks_after_stop:
  assumes "tokio_ok L" and "httpd_reach L H F s" and "hs_drained s" and "(httpd_step L H F)\<^sup>*\<^sup>* s s'"
  shows "sv_q (hs_svc s') = [] \<and>
    request_take (gone L s') (hs_svc s') = (Inl (httpd_error ''usage'' ''server is stopped''), hs_svc s') \<and>
    (ex_pc (hs_ex s' i) = PPush \<longrightarrow> ex_pc (hs_ex (do_push L i late s') i) = PPushed False)"
proof -
  have "httpd_reach L H F s' \<and> hs_drained s'"
    using assms(4,2,3) by (induction rule: rtranclp.induct) (auto intro: httpd_reach.step step_drained)
  then have "sv_down (hs_svc s')" "sv_q (hs_svc s') = []"
    using reach_ok [OF assms(1), of H F s'] by (auto simp: httpd_ok_def queue_ok_def)
  then show ?thesis by (simp add: request_take_def do_push_def push_pass_def Let_def)
qed

section \<open>Instances\<close>

datatype httpd_op =
    HArrive parts | HPermit nat | HBody nat bytes | HPush nat | HPushed nat | HTake | HHandle | HRespond u16 bytes
  | HAnswered nat | HStop | HDrain

text \<open>An executable reading of the steps; the operations on handles take the first one.\<close>

fun exec_httpd ::
  "('sem, response, 'ch) tokio \<Rightarrow> http_lib \<Rightarrow> file_system \<Rightarrow> httpd_op \<Rightarrow> ('sem, 'ch) hsys \<Rightarrow> ('sem, 'ch) hsys option" where
  "exec_httpd L H F (HArrive p) s =
     (if sv_down (hs_svc s) \<or> p_headers p \<noteq> with_host H None (p_headers p) then None
      else Some (s\<lparr>hs_n := Suc (hs_n s), hs_ex := (hs_ex s)(hs_n s := park_new L p)\<rparr>))"
| "exec_httpd L H F (HPermit i) s =
     (case (ex_pc (hs_ex s i), sem_try L (sv_body_permits (hs_svc s))) of
        (PPermit, Some m) \<Rightarrow> Some (goto i PBody (s\<lparr>hs_svc := (hs_svc s)\<lparr>sv_body_permits := m\<rparr>\<rparr>))
      | _ \<Rightarrow> None)"
| "exec_httpd L H F (HBody i bs) s =
     (if ex_pc (hs_ex s i) = PBody \<and> length bs \<le> sv_body_cap (hs_svc s) then
        Some (s\<lparr>hs_ex := (hs_ex s)(i := (hs_ex s i)\<lparr>ex_pc := PPush, ex_parts := (ex_parts (hs_ex s i))\<lparr>p_body := bs\<rparr>\<rparr>)\<rparr>)
      else None)"
| "exec_httpd L H F (HPush i) s = (if ex_pc (hs_ex s i) = PPush then Some (do_push L i False s) else None)"
| "exec_httpd L H F (HPushed i) s =
     (if ex_pc (hs_ex s i) = PPushed True then
        Some (goto i PWait (s\<lparr>hs_svc := give_permit L (PPushed True) (hs_svc s)\<rparr>))
      else None)"
| "exec_httpd L H F HTake s = Some (do_take L s)"
| "exec_httpd L H F HHandle s =
     (case hs_reqs s of
        r # rs \<Rightarrow>
          (case handle_step (hr_pc r) of (pc, d, out) \<Rightarrow>
             Some (s\<lparr>hs_svc := (hs_svc s)\<lparr>sv_in_flight := sv_in_flight (hs_svc s) + d\<rparr>,
                     hs_ex := send_opt L (hr_id r) out (hs_ex s), hs_reqs := r\<lparr>hr_pc := pc\<rparr> # rs\<rparr>))
      | [] \<Rightarrow> None)"
| "exec_httpd L H F (HRespond status bs) s =
     (case hs_reqs s of
        r # rs \<Rightarrow>
          (case (take_reply r, respond_with H (p_method (hr_parts r)) status None bs) of
             (Inr _, Inr a) \<Rightarrow> Some (s\<lparr>hs_reqs := r\<lparr>hr_pc := Taken a\<rparr> # rs\<rparr>)
           | _ \<Rightarrow> None)
      | [] \<Rightarrow> None)"
| "exec_httpd L H F (HAnswered i) s =
     (case (ex_pc (hs_ex s i), ch_recv L (ex_ch (hs_ex s i))) of
        (PWait, Some a) \<Rightarrow> Some (finish L i (PDone (case a of Some r \<Rightarrow> r | None \<Rightarrow> status_only 503)) s)
      | _ \<Rightarrow> None)"
| "exec_httpd L H F HStop s = Some (s\<lparr>hs_svc := (hs_svc s)\<lparr>sv_down := True\<rparr>\<rparr>)"
| "exec_httpd L H F HDrain s = (if sv_down (hs_svc s) then Some (do_drain s) else None)"

lemma exec_httpd_sound:
  assumes "exec_httpd L H F op s = Some s'"
  shows "httpd_step L H F s s'"
proof (cases op)
  case HHandle
  then show ?thesis
    using assms httpd_step.handle [of s "[]"] by (auto split: list.splits prod.splits)
next
  case (HRespond status bs)
  then obtain r rs a where r: "hs_reqs s = [] @ r # rs" "take_reply r = Inr ()"
      "respond_with H (p_method (hr_parts r)) status None bs = Inr a"
    and s': "s' = s\<lparr>hs_reqs := r\<lparr>hr_pc := Taken a\<rparr> # rs\<rparr>"
    using assms by (auto split: list.splits sum.splits)
  from httpd_step.respond [OF r(1,2) disjI1 [OF r(3)]] show ?thesis by (simp add: s')
next
  case (HAnswered i)
  then obtain a where a: "ex_pc (hs_ex s i) = PWait" "ch_recv L (ex_ch (hs_ex s i)) = Some a"
    and "s' = finish L i (PDone (case a of Some r \<Rightarrow> r | None \<Rightarrow> status_only 503)) s"
    using assms by (cases "ex_pc (hs_ex s i)"; cases "ch_recv L (ex_ch (hs_ex s i))") auto
  then show ?thesis using httpd_step.answered [OF a] by simp
qed (use assms in \<open>auto intro: httpd_step.intros split: if_splits park_pc.splits option.splits\<close>)

interpretation httpd_schedule: schedule "httpd_step L H F" "exec_httpd L H F" for L H F
  by unfold_locales (rule exec_httpd_sound)

abbreviation no_files :: file_system where
  "no_files \<equiv> \<lparr>fs_is_file = Inl, fs_open = Inl, fs_fd_meta = Inl\<rparr>"

definition sample_parts :: parts where
  "sample_parts = \<lparr>p_method = ''GET'', p_path = ''/'', p_query = None, p_version = ''HTTP/1.1'', p_peer = ''127.0.0.1:9'',
     p_headers = [], p_body = []\<rparr>"

definition run_httpd :: "httpd_op list \<Rightarrow> (nat, response chan_view) hsys option" where
  "run_httpd ops = run_ops (exec_httpd plain_tokio plain_http no_files) ops 
     (httpd_init plain_tokio (svc_bind (plain_tokio :: (nat, response, response chan_view) tokio) 1 1 1024 1 1 0 0))"

lemma run_httpd_reach: "run_httpd ops = Some s \<Longrightarrow> httpd_reach plain_tokio plain_http no_files s"
  unfolding run_httpd_def
  by (erule httpd_schedule.run_invariant) (auto intro: httpd_reach.intros)

definition park_ops :: "httpd_op list" where
  "park_ops = [HArrive sample_parts, HPermit 0, HBody 0 ''hi'', HPush 0, HPushed 0]"

lemmas run_httpd_defs = run_httpd_def httpd_init_def svc_bind_def clamp_def sample_parts_def park_ops_def with_host_def
  get_all_def goto_def do_push_def push_pass_def prune_def gone_def forget_def Let_def give_permit_def do_take_def svc_take_def
  park_new_def plain_tokio_def take_reply_def respond_with_def builder_def plain_http_def bodiless_def send_opt_def reply_def
  finish_def end_park_def do_drain_def svc_drain_def

definition run_ends :: "httpd_op list \<Rightarrow> ((nat, response chan_view) hsys \<Rightarrow> bool) \<Rightarrow> bool" where
  "run_ends ops P = (case run_httpd ops of None \<Rightarrow> False | Some s \<Rightarrow> P s)"

lemma run_endsE:
  assumes "run_ends ops P"
  obtains s where "httpd_reach plain_tokio plain_http no_files s" and "P s"
  using assms run_httpd_reach by (auto simp: run_ends_def split: option.splits)

abbreviation ok_response :: response where
  "ok_response \<equiv> \<lparr>rs_status = 200, rs_headers = [], rs_body = Full ''ok''\<rparr>"

lemma answered_run:
  "run_ends (park_ops @ [HTake, HHandle, HRespond 200 ''ok'', HHandle, HHandle, HAnswered 0])
     (\<lambda>s. hs_n s = 1 \<and> ex_pc (hs_ex s 0) = PDone ok_response \<and> sent plain_tokio (hs_ex s 0) = Some ok_response)"
  by (simp add: run_ends_def run_httpd_defs)

theorem answered_at_most_once_witness:
  "\<exists>s. httpd_reach plain_tokio plain_http no_files s \<and> ex_pc (hs_ex s 0) = PDone ok_response \<and> outside s 0 = 0 \<and>
     (\<forall>s'. httpd_step plain_tokio plain_http no_files s s' \<longrightarrow> sent plain_tokio (hs_ex s' 0) = Some ok_response)"
proof -
  obtain s where s: "httpd_reach plain_tokio plain_http no_files s" "hs_n s = 1"
      "ex_pc (hs_ex s 0) = PDone ok_response" "sent plain_tokio (hs_ex s 0) = Some ok_response"
    using run_endsE [OF answered_run] by metis
  from s(2) have "0 < hs_n s" by simp
  from answered_at_most_once [OF plain_tokio_ok s(1) this] s show ?thesis by blast
qed

lemma parked_run: "run_ends park_ops (\<lambda>s. ex_pc (hs_ex s 0) = PWait \<and> sv_cap (hs_svc s) = 1 \<and> hs_drain s = [] \<and> hs_reqs s = [])"
  by (simp add: run_ends_def run_httpd_defs)


lemma pulled_run:
  "run_ends (park_ops @ [HTake, HHandle]) (\<lambda>s. pulled s = 1 \<and> sv_cap (hs_svc s) = 1)"
  by (simp add: run_ends_def run_httpd_defs pulled_def)


lemma drained_run:
  "run_ends [HArrive sample_parts, HPermit 0, HBody 0 ''hi'', HStop, HDrain] (\<lambda>s. hs_drained s \<and> ex_pc (hs_ex s 0) = PPush)"
  by (simp add: run_ends_def run_httpd_defs)

theorem nothing_parks_after_stop_witness:
  "\<exists>s. httpd_reach plain_tokio plain_http no_files s \<and> sv_q (hs_svc s) = [] \<and>
     ex_pc (hs_ex (do_push plain_tokio 0 False s) 0) = PPushed False"
proof -
  obtain s where s: "httpd_reach plain_tokio plain_http no_files s" "hs_drained s" "ex_pc (hs_ex s 0) = PPush"
    using run_endsE [OF drained_run] by metis
  from nothing_parks_after_stop [OF plain_tokio_ok s(1,2) rtranclp.rtrancl_refl, of 0 False] s show ?thesis by blast
qed

end
