(* ===== verification/Httpd_Server.thy ===== *)
theory Httpd_Server
  imports Httpd
begin

text \<open>
  \<^verbatim>\<open>examples/httpd/src/lib.rs\<close>: the server handle, from \<^verbatim>\<open>bind\<close> to the dump hook, and the accept loop with its
  connection guards.  Sockets, the runtime and hyper's connections are events and parameters; hyper's graceful shutdown
  returns once every connection it watches has ended.
\<close>

section \<open>The server handle\<close>

record 'sem server =
  sr_rt :: bool
  sr_svc :: "'sem svc"
  sr_port :: u16
  sr_stop :: bool
  sr_finished :: bool

text \<open>\<open>literal\<close>: whether the text is a literal ip:port; \<open>listen\<close>: the port the listener is bound to, or the error of a
  socket call; \<open>built\<close>, \<open>adopted\<close>: building the runtime for that many workers, and giving it the listener.\<close>

definition server_bind ::
  "('sem, 'z) semaphore_scheme \<Rightarrow> (bytes \<Rightarrow> bytes) \<Rightarrow> (bytes \<Rightarrow> bool) \<Rightarrow> (bytes \<Rightarrow> (bytes, u16) result) \<Rightarrow>
   (nat \<Rightarrow> (bytes, unit) result) \<Rightarrow> (bytes, unit) result \<Rightarrow>
   bytes \<Rightarrow> u64 \<Rightarrow> u64 \<Rightarrow> u64 \<Rightarrow> u64 \<Rightarrow> u64 \<Rightarrow> u64 \<Rightarrow> u64 \<Rightarrow> u64 \<Rightarrow> (http_error, 'sem server) result" where
  "server_bind L debug literal listen built adopted addr queue workers max_connections body_cap head_ms body_ms queue_wait_ms handler_ms =
     (if \<not> literal addr then Inl (httpd_error ''usage'' (''ADDR must be a literal ip:port, got '' @ debug addr))
      else (case listen addr of Inl e \<Rightarrow> Inl (httpd_io e) | Inr port \<Rightarrow>
           (case built (unat (clamp 1 64 workers)) of Inl e \<Rightarrow> Inl (httpd_error ''runtime'' e) | Inr _ \<Rightarrow>
           (case adopted of Inl e \<Rightarrow> Inl (httpd_io e) | Inr _ \<Rightarrow>
             Inr \<lparr>sr_rt = True, sr_svc = svc_bind L queue max_connections body_cap head_ms body_ms queue_wait_ms handler_ms,
                  sr_port = port, sr_stop = False, sr_finished = False\<rparr>))))"

definition server_port :: "'sem server \<Rightarrow> u64" where
  "server_port s = ucast (sr_port s)"

text \<open>\<^verbatim>\<open>stop\<close>: down, then the notification, then the drain; it returns what is to be answered 503.\<close>

definition server_stop :: "'sem server \<Rightarrow> parked list \<times> 'sem server" where
  "server_stop s =
     (let v = (sr_svc s)\<lparr>sv_down := True\<rparr>
      in case svc_drain v of (ps, v') \<Rightarrow> (ps, s\<lparr>sr_svc := v', sr_stop := True\<rparr>))"

definition server_stopped :: "bool \<Rightarrow> 'sem server \<Rightarrow> (http_error, bool) result" where
  "server_stopped in_runtime s = bindR (httpd_refuse_reentry in_runtime) (\<lambda>_. Inr (sr_finished s))"

text \<open>The wait for the accept loop changes nothing; a grace is milliseconds.\<close>

definition quiesce :: "'sem server \<Rightarrow> parked list \<times> 'sem server" where
  "quiesce s = (case server_stop s of (ps, s') \<Rightarrow> (ps, s'\<lparr>sr_rt := False\<rparr>))"

definition server_shutdown :: "bool \<Rightarrow> 'sem server \<Rightarrow> (http_error, parked list) result \<times> 'sem server" where
  "server_shutdown in_runtime s =
     (case httpd_refuse_reentry in_runtime of
        Inl e \<Rightarrow> (Inl e, s)
      | Inr _ \<Rightarrow> (case quiesce s of (ps, s') \<Rightarrow> (Inr ps, s')))"

definition server_drop :: "'sem server \<Rightarrow> parked list \<times> 'sem server" where
  "server_drop s = (case server_stop s of (ps, s') \<Rightarrow> (ps, s'\<lparr>sr_rt := False\<rparr>))"

text \<open>The registry of weak references, \<open>None\<close> one whose server is gone, and the dump hook on it.\<close>

definition shutdown_servers :: "'sem server option list \<Rightarrow> (parked list \<times> 'sem server) list" where
  "shutdown_servers reg = map quiesce (List.map_filter (\<lambda>w. w) reg)"

section \<open>The accept loop\<close>

datatype accept_pc = AcPermit | AcAccept | AcBackoff | AcCounted | AcClosing | AcFinished

text \<open>A connection before its first \<^verbatim>\<open>HEAD-MS\<close> are over, after that, and in its guard's drop.\<close>

datatype conn_pc = CnHead bool | CnServing | CnGuard | CnPermit | CnOver

record 'sem acceptor =
  ac_pc :: accept_pc
  ac_sem :: 'sem
  ac_connections :: u64
  ac_conns :: "conn_pc list"
  ac_stop :: bool

definition accept_start :: "('sem, 'z) semaphore_scheme \<Rightarrow> 'sem svc \<Rightarrow> 'sem acceptor" where
  "accept_start L v =
     \<lparr>ac_pc = AcPermit, ac_sem = sem_new L (sv_max_connections v), ac_connections = sv_connections v, ac_conns = [], ac_stop = False\<rparr>"

fun served :: "conn_pc \<Rightarrow> bool" where
  "served (CnHead seen) = True"
| "served CnServing = True"
| "served _ = False"

inductive accept_step :: "('sem, 'z) semaphore_scheme \<Rightarrow> 'sem acceptor \<Rightarrow> 'sem acceptor \<Rightarrow> bool" for L where
  notify: "accept_step L a (a\<lparr>ac_stop := True\<rparr>)"
| permit: "ac_pc a = AcPermit \<Longrightarrow> sem_try L (ac_sem a) = Some m \<Longrightarrow> accept_step L a (a\<lparr>ac_pc := AcAccept, ac_sem := m\<rparr>)"
| stop_permit: "ac_pc a = AcPermit \<Longrightarrow> ac_stop a \<Longrightarrow> accept_step L a (a\<lparr>ac_pc := AcClosing, ac_stop := False\<rparr>)"
| stop_accept: "ac_pc a = AcAccept \<Longrightarrow> ac_stop a \<Longrightarrow>
     accept_step L a (a\<lparr>ac_pc := AcClosing, ac_stop := False, ac_sem := sem_add L 1 (ac_sem a)\<rparr>)"
| accept_err: "ac_pc a = AcAccept \<Longrightarrow> accept_step L a (a\<lparr>ac_pc := AcBackoff\<rparr>)"
| backoff: "ac_pc a = AcBackoff \<Longrightarrow> accept_step L a (a\<lparr>ac_pc := AcPermit, ac_sem := sem_add L 1 (ac_sem a)\<rparr>)"
| accept_ok: "ac_pc a = AcAccept \<Longrightarrow> accept_step L a (a\<lparr>ac_pc := AcCounted, ac_connections := ac_connections a + 1\<rparr>)"
| spawn: "ac_pc a = AcCounted \<Longrightarrow> accept_step L a (a\<lparr>ac_pc := AcPermit, ac_conns := ac_conns a @ [CnHead False]\<rparr>)"
| call: "ac_conns a = xs @ CnHead seen # ys \<Longrightarrow> accept_step L a (a\<lparr>ac_conns := xs @ CnHead True # ys\<rparr>)"
| watchdog: "ac_conns a = xs @ CnHead seen # ys \<Longrightarrow>
     accept_step L a (a\<lparr>ac_conns := xs @ (if seen then CnServing else CnGuard) # ys\<rparr>)"
| conn_end: "ac_conns a = xs @ c # ys \<Longrightarrow> served c \<Longrightarrow> accept_step L a (a\<lparr>ac_conns := xs @ CnGuard # ys\<rparr>)"
| guard: "ac_conns a = xs @ CnGuard # ys \<Longrightarrow>
     accept_step L a (a\<lparr>ac_conns := xs @ CnPermit # ys, ac_connections := ac_connections a - 1\<rparr>)"
| drop_permit: "ac_conns a = xs @ CnPermit # ys \<Longrightarrow>
     accept_step L a (a\<lparr>ac_conns := xs @ CnOver # ys, ac_sem := sem_add L 1 (ac_sem a)\<rparr>)"
| graceful: "ac_pc a = AcClosing \<Longrightarrow> \<forall>c\<in>set (ac_conns a). \<not> served c \<Longrightarrow> accept_step L a (a\<lparr>ac_pc := AcFinished\<rparr>)"

inductive accept_reach :: "('sem, 'z) semaphore_scheme \<Rightarrow> 'sem svc \<Rightarrow> 'sem acceptor \<Rightarrow> bool" for L v where
  start: "accept_reach L v (accept_start L v)"
| step: "accept_reach L v a \<Longrightarrow> accept_step L a a' \<Longrightarrow> accept_reach L v a'"

inductive_cases accept_stepE: "accept_step L a a'"

text \<open>Connections that hold a permit, and those that are counted.\<close>

definition open_conns :: "'sem acceptor \<Rightarrow> nat" where
  "open_conns a = length (filter (\<lambda>c. c \<noteq> CnOver) (ac_conns a)) + of_bool (ac_pc a \<in> {AcAccept, AcBackoff, AcCounted})"

definition counted_conns :: "'sem acceptor \<Rightarrow> nat" where
  "counted_conns a = length (filter (\<lambda>c. c \<noteq> CnOver \<and> c \<noteq> CnPermit) (ac_conns a)) + of_bool (ac_pc a = AcCounted)"

definition accept_ok :: "('sem, 'z) semaphore_scheme \<Rightarrow> nat \<Rightarrow> 'sem acceptor \<Rightarrow> bool" where
  "accept_ok L n a \<longleftrightarrow>
     sem_available L (ac_sem a) + open_conns a = n \<and> ac_connections a = of_nat (counted_conns a) \<and>
     (ac_pc a = AcFinished \<longrightarrow> (\<forall>c\<in>set (ac_conns a). \<not> served c))"

lemma served_open: "served c \<Longrightarrow> c \<noteq> CnOver \<and> c \<noteq> CnPermit"
  by (cases c) auto

lemma accept_step_ok:
  assumes "sem_ok L" and "accept_step L a a'" and "accept_ok L n a"
  shows "accept_ok L n a'"
  using assms(2,3)
proof (induction rule: accept_step.induct)
  case (permit a m)
  then show ?case using sem_okD(3) [OF assms(1) permit(2)] by (auto simp: accept_ok_def open_conns_def counted_conns_def)
next
  case (conn_end a xs c ys)
  then show ?case using served_open by (auto simp: accept_ok_def open_conns_def counted_conns_def)
qed (auto simp: accept_ok_def open_conns_def counted_conns_def sem_okD(4) [OF assms(1)])

lemma accept_reach_ok:
  assumes "sem_ok L" and "accept_reach L v a" and "sv_connections v = 0"
  shows "accept_ok L (sv_max_connections v) a"
  using assms(2)
proof (induction rule: accept_reach.induct)
  case start
  show ?case
    using sem_okD(1) [OF assms(1)] assms(3) by (simp add: accept_ok_def open_conns_def counted_conns_def accept_start_def)
next
  case (step a a')
  then show ?case using accept_step_ok [OF assms(1)] by blast
qed

lemma counted_le_open: "counted_conns a \<le> open_conns a"
proof -
  have "length (filter (\<lambda>c. c \<noteq> CnOver \<and> c \<noteq> CnPermit) xs) \<le> length (filter (\<lambda>c. c \<noteq> CnOver) xs)" for xs
    by (induction xs) auto
  then show ?thesis unfolding counted_conns_def open_conns_def by (intro add_mono) auto
qed

section \<open>Properties\<close>

text \<open>
  (C33) The connection cap holds whatever connections do.  In every state of the accept loop the permits and the open
  connections add up to \<^verbatim>\<open>MAX-CONNECTIONS\<close>; \<^verbatim>\<open>connections\<close> counts exactly the connections whose guard has not run
  and never exceeds the cap; and \<^verbatim>\<open>stopped\<close> is true only when no connection is being served.
\<close>

theorem connections_bounded:
  assumes "sem_ok L" and "accept_reach L (svc_bind L queue max_connections body_cap head_ms body_ms queue_wait_ms handler_ms) a"
  shows "sem_available L (ac_sem a) + open_conns a = unat (clamp 1 1048576 max_connections) \<and>
    unat (ac_connections a) = counted_conns a \<and> counted_conns a \<le> unat (clamp 1 1048576 max_connections) \<and>
    (ac_pc a = AcFinished \<longrightarrow> (\<forall>c\<in>set (ac_conns a). \<not> served c))"
proof -
  let ?n = "unat (clamp 1 1048576 max_connections)"
  have ok: "accept_ok L ?n a"
    using accept_reach_ok [OF assms] by (simp add: svc_bind_def)
  then have n: "sem_available L (ac_sem a) + open_conns a = ?n" by (simp add: accept_ok_def)
  with counted_le_open [of a] have le: "counted_conns a \<le> ?n" by linarith
  have "clamp 1 1048576 max_connections \<le> (1048576 :: u64)" by (auto simp: clamp_def)
  then have "?n \<le> 1048576" by (simp add: word_le_nat_alt)
  with le have "counted_conns a < 2 ^ 64" by simp
  then have "unat (ac_connections a) = counted_conns a" using ok by (simp add: accept_ok_def unat_of_nat)
  with n le ok show ?thesis by (simp add: accept_ok_def)
qed

theorem connections_bounded_witness:
  "\<exists>a. accept_reach (plain_tokio :: (nat, nat, nat chan_view) tokio) (svc_bind (plain_tokio :: (nat, nat, nat chan_view) tokio) 1 1 1024 1 1 0 0) a \<and>
     ac_conns a = [CnHead False] \<and> unat (ac_connections a) = counted_conns a \<and> counted_conns a \<le> 1"
proof -
  let ?L = "plain_tokio :: (nat, nat, nat chan_view) tokio"
  let ?v = "svc_bind ?L 1 1 1024 1 1 0 0"
  have "accept_reach ?L ?v (accept_start ?L ?v)" by (rule accept_reach.start)
  then have 1: "accept_reach ?L ?v ((accept_start ?L ?v)\<lparr>ac_pc := AcAccept, ac_sem := 0\<rparr>)"
    by (rule accept_reach.step) (rule accept_step.permit, simp_all add: accept_start_def plain_tokio_def svc_bind_def clamp_def)
  have 2: "accept_reach ?L ?v ((accept_start ?L ?v)\<lparr>ac_pc := AcCounted, ac_sem := 0, ac_connections := 1\<rparr>)"
    using accept_reach.step [OF 1 accept_step.accept_ok] by (simp add: accept_start_def svc_bind_def)
  have 3: "accept_reach ?L ?v ((accept_start ?L ?v)\<lparr>ac_pc := AcPermit, ac_sem := 0, ac_connections := 1, ac_conns := [CnHead False]\<rparr>)"
    using accept_reach.step [OF 2 accept_step.spawn] by (simp add: accept_start_def)
  define a where "a = (accept_start ?L ?v)\<lparr>ac_pc := AcPermit, ac_sem := 0, ac_connections := 1, ac_conns := [CnHead False]\<rparr>"
  have r: "accept_reach ?L ?v a" "ac_conns a = [CnHead False]" using 3 by (simp_all add: a_def)
  have one: "unat (clamp 1 1048576 (1 :: u64)) = 1" by (simp add: clamp_def)
  have "unat (ac_connections a) = counted_conns a \<and> counted_conns a \<le> 1"
    using connections_bounded [OF tokio_okD(1) [OF plain_tokio_ok] r(1)] unfolding one by blast
  with r show ?thesis by blast
qed

end
