(* ===== verification/Httpd_Probe.thy ===== *)
theory Httpd_Probe
  imports Httpd_Response
begin

text \<open>
  \<^verbatim>\<open>examples/httpd/src/lib.rs\<close>: the probe, the byte-level HTTP client the server is tested with.  It cuts complete
  HTTP/1.1 responses off the stream of a connection, however the network cut that stream into reads.
\<close>

section \<open>Splitting\<close>

text \<open>\<^verbatim>\<open>hay.windows(needle.len()).position(|w| w == needle)\<close>, also \<^verbatim>\<open>str::contains\<close>.\<close>

definition find_sub :: "bytes \<Rightarrow> bytes \<Rightarrow> nat option" where
  "find_sub hay needle =
     position (\<lambda>i. take (length needle) (List.drop i hay) = needle) [0..<length hay + 1 - length needle]"

definition strip_prefix :: "bytes \<Rightarrow> bytes \<Rightarrow> bytes option" where
  "strip_prefix pre s = (if take (length pre) s = pre then Some (List.drop (length pre) s) else None)"

fun find_map :: "('a \<Rightarrow> 'b option) \<Rightarrow> 'a list \<Rightarrow> 'b option" where
  "find_map f [] = None"
| "find_map f (x # xs) = (case f x of Some y \<Rightarrow> Some y | None \<Rightarrow> find_map f xs)"

definition CRLF2 :: bytes where
  "CRLF2 = [CR, LF, CR, LF]"

definition head_text :: "bytes \<Rightarrow> bytes" where
  "head_text head = to_ascii_lowercase (from_utf8_lossy head)"

definition head_length :: "bytes \<Rightarrow> nat" where
  "head_length head =
     (case Option.bind (find_map (strip_prefix ''content-length:'') (str_lines (head_text head))) (\<lambda>v. parse_u64 (str_trim v)) of
        Some n \<Rightarrow> unat n
      | None \<Rightarrow> 0)"

definition chunked :: "bytes \<Rightarrow> bool" where
  "chunked head \<longleftrightarrow> find_sub (head_text head) ''transfer-encoding: chunked'' \<noteq> None"

text \<open>The end of the response that starts the buffer, if its head, and the end of a chunked body, are there.\<close>

definition response_end :: "bytes \<Rightarrow> nat option" where
  "response_end buf =
     (case find_sub buf CRLF2 of
        None \<Rightarrow> None
      | Some i \<Rightarrow>
          let head_end = i + 4; head = take head_end buf; rest = List.drop head_end buf
          in if chunked head then
               (case (if take 3 rest = [CHR ''0'', CR, LF] then Some 0
                      else map_option (\<lambda>z. z + 2) (find_sub rest [CR, LF, CHR ''0'', CR, LF])) of
                  None \<Rightarrow> None
                | Some z \<Rightarrow> map_option (\<lambda>k. head_end + k + z + 4) (find_sub (List.drop z rest) CRLF2))
             else Some (min (head_end + head_length head) (2 ^ 64 - 1)))"

definition split_response :: "bytes \<Rightarrow> (bytes \<times> bytes) option" where
  "split_response buf =
     (case response_end buf of
        None \<Rightarrow> None
      | Some e \<Rightarrow> if e \<le> length buf then Some (take e buf, List.drop e buf) else None)"

lemma find_sub_Some: "find_sub hay needle = Some i \<Longrightarrow> i + length needle < length hay + 1 \<and> take (length needle) (List.drop i hay) = needle"
  unfolding find_sub_def by (drule position_Some) auto

lemma split_response_shorter: "split_response buf = Some (r, rest) \<Longrightarrow> length rest < length buf"
  by (auto simp: split_response_def response_end_def Let_def dest!: find_sub_Some split: option.splits if_splits)

text \<open>\<^verbatim>\<open>while let Some(r) = split_response(&mut s.buf)\<close>\<close>

function split_all :: "bytes \<Rightarrow> bytes list \<times> bytes" where
  "split_all buf =
     (case split_response buf of
        None \<Rightarrow> ([], buf)
      | Some (r, rest) \<Rightarrow> (case split_all rest of (rs, left) \<Rightarrow> (r # rs, left)))"
  by pat_completeness auto
termination
  by (relation "measure length") (auto dest: split_response_shorter)

declare split_all.simps [simp del]

section \<open>Connections\<close>

record slot =
  sl_ready :: "bytes list"
  sl_buf :: bytes
  sl_closed :: bool
  sl_error :: "bytes option"

definition new_slot :: slot where
  "new_slot = \<lparr>sl_ready = [], sl_buf = [], sl_closed = False, sl_error = None\<rparr>"

datatype mode = Once | Hold | Drip u64

definition parse_mode :: "(bytes \<Rightarrow> bytes) \<Rightarrow> bytes \<Rightarrow> (http_error, mode) result" where
  "parse_mode debug m =
     (if m = ''once'' then Inr Once
      else if m = ''hold'' then Inr Hold
      else (case Option.bind (strip_prefix ''drip:'' m) parse_u64 of
              Some ms \<Rightarrow> Inr (Drip (max ms 1))
            | None \<Rightarrow> Inl (httpd_error ''usage'' (''unknown probe mode '' @ debug m))))"

definition slot_finish :: "bytes option \<Rightarrow> slot \<Rightarrow> slot" where
  "slot_finish err s =
     (let s' = (if sl_buf s = [] then s else s\<lparr>sl_buf := [], sl_ready := sl_ready s @ [sl_buf s]\<rparr>)
      in s'\<lparr>sl_closed := True, sl_error := (if err \<noteq> None then err else sl_error s)\<rparr>)"

text \<open>What is written before the first pause of a drip, and octet by octet after it.\<close>

definition drip_split :: "bytes \<Rightarrow> bytes \<times> bytes" where
  "drip_split raw =
     (let k = (case find_sub raw CRLF2 of Some i \<Rightarrow> i + 4 | None \<Rightarrow> 0) in (take k raw, List.drop k raw))"

text \<open>The read loop; \<open>write_error\<close> is what the writing failed with.  The flag tells that the task has ended.\<close>

datatype read_event = ReadEof | ReadErr bytes | ReadData bytes

definition on_read :: "mode \<Rightarrow> bytes option \<Rightarrow> read_event \<Rightarrow> slot \<Rightarrow> slot \<times> bool" where
  "on_read md write_error ev s =
     (case ev of
        ReadEof \<Rightarrow> (slot_finish write_error s, True)
      | ReadErr e \<Rightarrow> (slot_finish (Some (case write_error of Some w \<Rightarrow> w | None \<Rightarrow> e)) s, True)
      | ReadData bs \<Rightarrow>
          (case split_all (sl_buf s @ bs) of
             (rs, left) \<Rightarrow>
               let s' = s\<lparr>sl_buf := left, sl_ready := sl_ready s @ rs\<rparr>
               in if rs \<noteq> [] \<and> md = Once then (s'\<lparr>sl_closed := True\<rparr>, True) else (s', False)))"

fun run_reads :: "mode \<Rightarrow> bytes option \<Rightarrow> read_event list \<Rightarrow> slot \<Rightarrow> slot" where
  "run_reads md we [] s = s"
| "run_reads md we (ev # evs) s = (case on_read md we ev s of (s', over) \<Rightarrow> if over then s' else run_reads md we evs s')"

text \<open>\<open>connect\<close>: what connecting and then writing gave.\<close>

definition run_probe :: "(bytes, bytes option) result \<Rightarrow> mode \<Rightarrow> read_event list \<Rightarrow> slot \<Rightarrow> slot" where
  "run_probe connect md evs s =
     (case connect of Inl e \<Rightarrow> slot_finish (Some e) s | Inr write_error \<Rightarrow> run_reads md write_error evs s)"

definition run_h2c :: "(bytes, nat \<times> bytes) result \<Rightarrow> slot \<Rightarrow> slot" where
  "run_h2c answer s =
     (case answer of
        Inr (status, body) \<Rightarrow> slot_finish None (s\<lparr>sl_ready := sl_ready s @ [dec status @ CRLF2 @ body]\<rparr>)
      | Inl e \<Rightarrow> slot_finish (Some e) s)"

section \<open>The probe handle\<close>

record probe =
  pb_rt :: bool
  pb_conns :: "u64 \<rightharpoonup> slot"
  pb_next :: u64

definition probe_new :: "(bytes, unit) result \<Rightarrow> (http_error, probe) result" where
  "probe_new built =
     (case built of
        Inl e \<Rightarrow> Inl (httpd_error ''runtime'' e)
      | Inr _ \<Rightarrow> Inr \<lparr>pb_rt = True, pb_conns = Map.empty, pb_next = 0\<rparr>)"

definition probe_spawn :: "slot \<Rightarrow> probe \<Rightarrow> (http_error, u64) result \<times> probe" where
  "probe_spawn sl p =
     (if pb_rt p then
        let i = pb_next p + 1
        in (Inr i, p\<lparr>pb_next := i, pb_conns := (pb_conns p)(i \<mapsto> sl)\<rparr>)
      else (Inl (httpd_error ''usage'' ''probe is shut down''), p))"

definition no_connection :: "u64 \<Rightarrow> http_error" where
  "no_connection i = httpd_error ''usage'' (''no probe connection '' @ dec (unat i))"

definition probe_slot :: "probe \<Rightarrow> u64 \<Rightarrow> (http_error, slot) result" where
  "probe_slot p i = (case pb_conns p i of Some s \<Rightarrow> Inr s | None \<Rightarrow> Inl (no_connection i))"

definition probe_quiesce :: "probe \<Rightarrow> probe" where
  "probe_quiesce p = p\<lparr>pb_conns := (\<lambda>i. map_option (\<lambda>s. s\<lparr>sl_closed := True\<rparr>) (pb_conns p i)), pb_rt := False\<rparr>"

definition probe_drop :: "probe \<Rightarrow> probe" where
  "probe_drop p = p\<lparr>pb_conns := Map.empty, pb_rt := False\<rparr>"

definition probe_send :: "(bytes \<Rightarrow> bytes) \<Rightarrow> bytes \<Rightarrow> probe \<Rightarrow> (http_error, u64) result \<times> probe" where
  "probe_send debug m p =
     (case parse_mode debug m of Inl e \<Rightarrow> (Inl e, p) | Inr _ \<Rightarrow> probe_spawn new_slot p)"

definition probe_h2c :: "probe \<Rightarrow> (http_error, u64) result \<times> probe" where
  "probe_h2c p = probe_spawn new_slot p"

text \<open>\<^verbatim>\<open>poll\<close> and \<^verbatim>\<open>closed\<close> after their one capped wait.\<close>

definition slot_poll :: "slot \<Rightarrow> (http_error, bytes option) result \<times> slot" where
  "slot_poll s =
     (case sl_ready s of
        r # rs \<Rightarrow> (Inr (Some r), s\<lparr>sl_ready := rs\<rparr>)
      | [] \<Rightarrow>
          (case sl_error s of
             Some e \<Rightarrow> Inl (httpd_error ''io'' e)
           | None \<Rightarrow>
               if sl_closed s then Inl (httpd_error ''gone'' ''connection closed, nothing left to return'') else Inr None, s))"

definition probe_poll :: "bool \<Rightarrow> u64 \<Rightarrow> probe \<Rightarrow> (http_error, bytes option) result \<times> probe" where
  "probe_poll in_runtime i p =
     (case bindR (httpd_refuse_reentry in_runtime) (\<lambda>_. probe_slot p i) of
        Inl e \<Rightarrow> (Inl e, p)
      | Inr s \<Rightarrow> (case slot_poll s of (r, s') \<Rightarrow> (r, p\<lparr>pb_conns := (pb_conns p)(i \<mapsto> s')\<rparr>)))"

definition probe_closed :: "bool \<Rightarrow> u64 \<Rightarrow> probe \<Rightarrow> (http_error, bool) result" where
  "probe_closed in_runtime i p =
     bindR (httpd_refuse_reentry in_runtime) (\<lambda>_. bindR (probe_slot p i) (\<lambda>s. Inr (sl_closed s)))"

definition probe_close :: "u64 \<Rightarrow> probe \<Rightarrow> (http_error, unit) result \<times> probe" where
  "probe_close i p =
     (case pb_conns p i of
        None \<Rightarrow> (Inl (no_connection i), p)
      | Some _ \<Rightarrow> (Inr (), p\<lparr>pb_conns := (pb_conns p)(i := None)\<rparr>))"

definition probe_shutdown :: "bool \<Rightarrow> probe \<Rightarrow> (http_error, unit) result \<times> probe" where
  "probe_shutdown in_runtime p =
     (case httpd_refuse_reentry in_runtime of Inl e \<Rightarrow> (Inl e, p) | Inr _ \<Rightarrow> (Inr (), probe_quiesce p))"

definition probe_is_down :: "probe \<Rightarrow> bool" where
  "probe_is_down p \<longleftrightarrow> \<not> pb_rt p"

text \<open>The dump hook on the registry of probes, \<open>None\<close> one that is gone.\<close>

definition shutdown_probes :: "probe option list \<Rightarrow> probe list" where
  "shutdown_probes reg = map probe_quiesce (List.map_filter (\<lambda>w. w) reg)"

section \<open>Complete responses\<close>

text \<open>A response with a declared, or no, length: one head and exactly that many octets after it.\<close>

definition complete :: "bytes \<Rightarrow> bool" where
  "complete r \<longleftrightarrow>
     (case find_sub r CRLF2 of
        None \<Rightarrow> False
      | Some i \<Rightarrow> \<not> chunked (take (i + 4) r) \<and> length r = i + 4 + head_length (take (i + 4) r) \<and> length r < 2 ^ 64)"

lemma position_upt: "position p [k..<n] = Some i \<longleftrightarrow> k + i < n \<and> p (k + i) \<and> (\<forall>j<i. \<not> p (k + j))"
proof (induction "n - k" arbitrary: k i)
  case (Suc d)
  then have k: "k < n" "d = n - Suc k" by auto
  have all: "(\<forall>j<Suc m. \<not> p (k + j)) \<longleftrightarrow> \<not> p k \<and> (\<forall>j<m. \<not> p (Suc k + j))" for m
    by (auto simp: less_Suc_eq_0_disj)
  show ?case
    using Suc.hyps(1) [OF k(2)] k all by (cases i) (auto simp: upt_conv_Cons)
qed simp

lemma find_sub_iff:
  "find_sub hay needle = Some i \<longleftrightarrow>
   i + length needle \<le> length hay \<and> take (length needle) (List.drop i hay) = needle \<and>
   (\<forall>j<i. take (length needle) (List.drop j hay) \<noteq> needle)"
  by (auto simp: find_sub_def position_upt)

lemma find_sub_append: "find_sub hay needle = Some i \<Longrightarrow> find_sub (hay @ ys) needle = Some i"
  by (auto simp: find_sub_iff)

lemma response_end_plain:
  assumes "find_sub buf CRLF2 = Some i" and "\<not> chunked (take (i + 4) buf)"
    and "i + 4 + head_length (take (i + 4) buf) = n" and "n < 2 ^ 64"
  shows "response_end buf = Some n"
  using assms by (simp add: response_end_def)

lemma response_end_complete:
  assumes "complete r"
  shows "response_end (r @ rest) = Some (length r)"
proof -
  obtain i where i: "find_sub r CRLF2 = Some i" "\<not> chunked (take (i + 4) r)"
      "length r = i + 4 + head_length (take (i + 4) r)" "length r < 2 ^ 64"
    using assms by (auto simp: complete_def split: option.splits)
  have "i + 4 \<le> length r" using i(3) by linarith
  then have "take (i + 4) (r @ rest) = take (i + 4) r" by simp
  with i find_sub_append [OF i(1)] show ?thesis by (intro response_end_plain [of _ i]) simp_all
qed

lemma split_complete: "complete r \<Longrightarrow> split_response (r @ rest) = Some (r, rest)"
  by (simp add: split_response_def response_end_complete)

lemma split_incomplete:
  assumes "complete (p @ q)" and "q \<noteq> []"
  shows "split_response p = None"
proof (cases "find_sub p CRLF2")
  case None
  then show ?thesis by (simp add: split_response_def response_end_def)
next
  case (Some i)
  have whole: "find_sub (p @ q) CRLF2 = Some i" by (rule find_sub_append [OF Some])
  have "i + 4 \<le> length p" using find_sub_Some [OF Some] by (simp add: CRLF2_def)
  then have head: "take (i + 4) (p @ q) = take (i + 4) p" by simp
  have c: "\<not> chunked (take (i + 4) p)" "length (p @ q) = i + 4 + head_length (take (i + 4) p)" "length (p @ q) < 2 ^ 64"
    using assms(1) whole head by (auto simp: complete_def)
  have "response_end p = Some (length (p @ q))" using c by (intro response_end_plain [OF Some]) simp_all
  with assms(2) show ?thesis by (simp add: split_response_def)
qed

lemma complete_not_Nil: "complete r \<Longrightarrow> r \<noteq> []"
  by (auto simp: complete_def find_sub_def CRLF2_def)

text \<open>Cutting a prefix of a stream of complete responses leaves a proper prefix of the next one.\<close>

lemma split_all_stream:
  assumes "list_all complete rs" and "buf @ future = concat rs"
  shows "\<exists>k left. split_all buf = (take k rs, left) \<and> left @ future = concat (List.drop k rs) \<and>
    (List.drop k rs = [] \<or> length left < length (hd (List.drop k rs)))"
  using assms
proof (induction rs arbitrary: buf)
  case Nil
  then have "split_all buf = ([], [])"
    by (subst split_all.simps) (simp add: split_response_def response_end_def find_sub_def CRLF2_def)
  then show ?case using Nil by auto
next
  case (Cons r rs)
  have r: "complete r" using Cons.prems(1) by simp
  show ?case
  proof (cases "length r \<le> length buf")
    case True
    define buf' where "buf' = List.drop (length r) buf"
    have "take (length r) (buf @ future) = r" using Cons.prems(2) by simp
    with True have "take (length r) buf = r" by simp
    then have buf: "buf = r @ buf'" unfolding buf'_def by (metis append_take_drop_id)
    have "buf' @ future = concat rs" using Cons.prems(2) buf by simp
    then obtain k left where k: "split_all buf' = (take k rs, left)" "left @ future = concat (List.drop k rs)"
        "List.drop k rs = [] \<or> length left < length (hd (List.drop k rs))"
      using Cons.IH [of buf'] Cons.prems(1) by (metis list.pred_inject(2))
    have "split_all buf = (take (Suc k) (r # rs), left)"
      by (subst split_all.simps) (simp add: buf split_complete [OF r] k(1))
    with k(2,3) show ?thesis by (intro exI [of _ "Suc k"]) auto
  next
    case False
    then have "buf = take (length buf) r"
      using Cons.prems(2) by (auto simp: append_eq_append_conv_if)
    then have r': "r = buf @ List.drop (length buf) r" by (metis append_take_drop_id)
    have "List.drop (length buf) r \<noteq> []" using False by simp
    with r r' have "split_response buf = None" using split_incomplete by metis
    then have "split_all buf = ([], buf)" by (subst split_all.simps) simp
    with False Cons.prems(2) show ?thesis by (intro exI [of _ 0]) auto
  qed
qed

lemma run_reads_stream:
  assumes "list_all complete rs" and "sl_buf s @ concat cs = concat rs" and "rs = [] \<or> length (sl_buf s) < length (hd rs)"
  shows "run_reads Hold we (map ReadData cs @ evs) s = run_reads Hold we evs (s\<lparr>sl_buf := [], sl_ready := sl_ready s @ rs\<rparr>)"
  using assms
proof (induction cs arbitrary: s rs)
  case Nil
  then have "rs = []" by (cases rs) auto
  with Nil have "s = s\<lparr>sl_buf := [], sl_ready := sl_ready s @ rs\<rparr>" by simp
  then show ?case by (metis append_Nil list.map(1))
next
  case (Cons c cs)
  have "(sl_buf s @ c) @ concat cs = concat rs" using Cons.prems(2) by simp
  from split_all_stream [OF Cons.prems(1) this] obtain k left where
    k: "split_all (sl_buf s @ c) = (take k rs, left)" "left @ concat cs = concat (List.drop k rs)"
      "List.drop k rs = [] \<or> length left < length (hd (List.drop k rs))" by blast
  let ?s = "s\<lparr>sl_buf := left, sl_ready := sl_ready s @ take k rs\<rparr>"
  have rest: "list_all complete (List.drop k rs)" using Cons.prems(1) by (auto simp: list_all_iff dest: in_set_dropD)
  have "run_reads Hold we (map ReadData (c # cs) @ evs) s = run_reads Hold we (map ReadData cs @ evs) ?s"
    by (simp add: on_read_def k(1))
  also have "\<dots> = run_reads Hold we evs (?s\<lparr>sl_buf := [], sl_ready := sl_ready ?s @ List.drop k rs\<rparr>)"
    using Cons.IH [OF rest, of ?s] k by simp
  finally show ?case by simp
qed

section \<open>Properties\<close>


definition sample_response :: bytes where
  "sample_response = ''HTTP/1.1 200 OK'' @ [CR, LF] @ ''Content-Length: 2'' @ CRLF2 @ ''hi''"

lemma sample_complete: "complete sample_response"
proof -
  have "find_sub sample_response CRLF2 = Some 34" by code_simp
  moreover have "\<not> chunked (take 38 sample_response)" by code_simp
  moreover have "find_map (strip_prefix ''content-length:'') (str_lines (head_text (take 38 sample_response))) = Some '' 2''"
    by code_simp
  moreover have "str_trim '' 2'' = ''2''" by code_simp
  moreover have "parse_u64 ''2'' = Some 2" by (simp add: parse_u64_def is_digit_def undec_def)
  moreover have "length sample_response = 40" by code_simp
  ultimately show ?thesis by (simp add: complete_def head_length_def)
qed


end
