(* ===== verification/Wasm.thy ===== *)
theory Wasm
  imports Rulisp_Prelude
begin

text \<open>
  \<^verbatim>\<open>examples/wasm/src/lib.rs\<close>: the plain WebAssembly instance.  The engine (\<^verbatim>\<open>wasmi\<close>), its store and the module are a
  parameter: what an instance exports, a call into it, its linear memory and its fuel.  What the glue adds is
  here: the coercion of Lisp's 64-bit integers to and from the types of the guest, and bounds-checked copies in and out
  of the guest's memory.
\<close>

datatype wasm_error = WasmError bytes

definition wasm_error_string :: "wasm_error \<Rightarrow> bytes" where
  "wasm_error_string e = (case e of WasmError s \<Rightarrow> s)"

datatype val_type = I32 | I64 | OtherTy bytes

datatype val = VI32 i32 | VI64 i64 | VOther bytes

text \<open>
  \<open>en_func\<close>: parameter and result types of an exported function; \<open>en_call\<close>: a call and what it leaves of the
  store; \<open>en_memory\<close>: the exported memory; \<open>en_load\<close>: reading, compiling and instantiating a module with a
  fuel budget; \<open>en_debug\<close>: \<^verbatim>\<open>{:?}\<close> of a string.
\<close>

record ('g, 'cb) engine =
  en_load :: "bytes \<Rightarrow> u64 option \<Rightarrow> (bytes, 'g) result"
  en_exports :: "'g \<Rightarrow> (bytes \<times> bool) list"
  en_func :: "'g \<Rightarrow> bytes \<Rightarrow> (val_type list \<times> val_type list) option"
  en_call :: "bytes \<Rightarrow> val list \<Rightarrow> 'g \<Rightarrow> (bytes, val list) result \<times> 'g"
  en_memory :: "'g \<Rightarrow> bytes option"
  en_set_memory :: "bytes \<Rightarrow> 'g \<Rightarrow> 'g"
  en_set_fuel :: "u64 \<Rightarrow> 'g \<Rightarrow> (bytes, 'g) result"
  en_get_fuel :: "'g \<Rightarrow> (bytes, u64) result"
  en_set_host :: "'cb option \<Rightarrow> 'g \<Rightarrow> 'g"
  en_debug :: "bytes \<Rightarrow> bytes"

text \<open>Writing through \<^verbatim>\<open>data_mut\<close> is seen by the next look at the memory.\<close>

definition engine_ok :: "('g, 'cb) engine \<Rightarrow> bool" where
  "engine_ok E \<longleftrightarrow>
     (\<forall>g m m'. en_memory E g = Some m \<longrightarrow> length m' = length m \<longrightarrow> en_memory E (en_set_memory E m' g) = Some m')"

definition wasm_load :: "('g, 'cb) engine \<Rightarrow> bytes \<Rightarrow> u64 \<Rightarrow> (wasm_error, 'g) result" where
  "wasm_load E path fuel =
     (case en_load E path (if fuel > 0 then Some fuel else None) of Inl e \<Rightarrow> Inl (WasmError e) | Inr g \<Rightarrow> Inr g)"

text \<open>The guest-importable \<^verbatim>\<open>host.notify\<close>; \<open>invoke\<close> calls the stored callback.\<close>

definition host_notify :: "('cb \<Rightarrow> i64 \<Rightarrow> (unit, unit) result) \<Rightarrow> 'cb option \<Rightarrow> i64 \<Rightarrow> (bytes, unit) result" where
  "host_notify invoke data x =
     (case data of
        Some cb \<Rightarrow> (case invoke cb x of Inl _ \<Rightarrow> Inl ''lisp callback failed (see warnings)'' | Inr _ \<Rightarrow> Inr ())
      | None \<Rightarrow> Inl ''no host callback set (call wasm-on-notify first)'')"

definition exports :: "('g, 'cb) engine \<Rightarrow> 'g \<Rightarrow> bytes" where
  "exports E g = join '','' (map fst (filter snd (en_exports E g)))"

definition on_notify :: "('g, 'cb) engine \<Rightarrow> 'cb \<Rightarrow> 'g \<Rightarrow> 'g" where
  "on_notify E f g = en_set_host E (Some f) g"

section \<open>Memory\<close>

definition checked_add :: "u64 \<Rightarrow> nat \<Rightarrow> nat option" where
  "checked_add start n = (if unat start + n < 2 ^ 64 then Some (unat start + n) else None)"

definition no_memory :: wasm_error where
  "no_memory = WasmError (''module exports no '' @ [QUOTE] @ ''memory'' @ [QUOTE])"

definition out_of_bounds :: "bytes \<Rightarrow> nat \<Rightarrow> u64 \<Rightarrow> nat \<Rightarrow> wasm_error" where
  "out_of_bounds what n offset mem_len =
     WasmError (what @ '' of '' @ dec n @ '' byte(s) at offset '' @ dec (unat offset) @ '' exceeds memory size '' @ dec mem_len)"

definition memory_write :: "('g, 'cb) engine \<Rightarrow> u64 \<Rightarrow> bytes \<Rightarrow> 'g \<Rightarrow> (wasm_error, unit) result \<times> 'g" where
  "memory_write E offset data g =
     (case en_memory E g of
        None \<Rightarrow> (Inl no_memory, g)
      | Some mem \<Rightarrow>
          (case checked_add offset (length data) of
             Some e \<Rightarrow>
               if e \<le> length mem then
                 (Inr (), en_set_memory E (take (unat offset) mem @ data @ List.drop e mem) g)
               else (Inl (out_of_bounds ''write'' (length data) offset (length mem)), g)
           | None \<Rightarrow> (Inl (out_of_bounds ''write'' (length data) offset (length mem)), g)))"

text \<open>\<^verbatim>\<open>slice::get\<close> of a range.\<close>

definition get_range :: "nat \<Rightarrow> nat \<Rightarrow> bytes \<Rightarrow> bytes option" where
  "get_range start e mem = (if start \<le> e \<and> e \<le> length mem then Some (take (e - start) (List.drop start mem)) else None)"

definition memory_read :: "('g, 'cb) engine \<Rightarrow> u64 \<Rightarrow> u64 \<Rightarrow> 'g \<Rightarrow> (wasm_error, bytes) result" where
  "memory_read E offset len g =
     (case en_memory E g of
        None \<Rightarrow> Inl no_memory
      | Some mem \<Rightarrow>
          (case Option.bind (checked_add offset (unat len)) (\<lambda>e. get_range (unat offset) e mem) of
             Some bs \<Rightarrow> Inr bs
           | None \<Rightarrow> Inl (out_of_bounds ''read'' (unat len) offset (length mem))))"

definition refuel :: "('g, 'cb) engine \<Rightarrow> u64 \<Rightarrow> 'g \<Rightarrow> (wasm_error, unit) result \<times> 'g" where
  "refuel E fuel g = (case en_set_fuel E fuel g of Inl e \<Rightarrow> (Inl (WasmError e), g) | Inr g' \<Rightarrow> (Inr (), g'))"

definition fuel_left :: "('g, 'cb) engine \<Rightarrow> 'g \<Rightarrow> (wasm_error, u64) result" where
  "fuel_left E g = (case en_get_fuel E g of Inl e \<Rightarrow> Inl (WasmError e) | Inr n \<Rightarrow> Inr n)"

section \<open>Calls\<close>

fun type_debug :: "val_type \<Rightarrow> bytes" where
  "type_debug I32 = ''I32''"
| "type_debug I64 = ''I64''"
| "type_debug (OtherTy s) = s"

fun coerce_arg :: "('g, 'cb) engine \<Rightarrow> bytes \<Rightarrow> val_type \<times> i64 \<Rightarrow> (wasm_error, val) result" where
  "coerce_arg E name (I32, a) = Inr (VI32 (ucast a))"
| "coerce_arg E name (I64, a) = Inr (VI64 a)"
| "coerce_arg E name (OtherTy s, a) =
     Inl (WasmError (en_debug E name @ '': unsupported parameter type '' @ s @ '' (v1 speaks i32/i64)''))"

definition coerce_result :: "('g, 'cb) engine \<Rightarrow> bytes \<Rightarrow> val list \<Rightarrow> (wasm_error, i64) result" where
  "coerce_result E name results =
     (case results of
        [] \<Rightarrow> Inr 0
      | VI32 v # _ \<Rightarrow> Inr (scast v)
      | VI64 v # _ \<Rightarrow> Inr v
      | VOther s # _ \<Rightarrow>
          Inl (WasmError (en_debug E name @ '': unsupported result type '' @ s @ '' (v1 speaks i32/i64)'')))"

definition wasm_call :: "('g, 'cb) engine \<Rightarrow> bytes \<Rightarrow> i64 list \<Rightarrow> 'g \<Rightarrow> (wasm_error, i64) result \<times> 'g" where
  "wasm_call E name args g =
     (case en_func E g name of
        None \<Rightarrow> (Inl (WasmError (''no exported function '' @ en_debug E name)), g)
      | Some (params, results) \<Rightarrow>
          if length params \<noteq> length args then
            (Inl (WasmError (en_debug E name @ '' takes '' @ dec (length params) @ '' argument(s), got '' @ dec (length args))), g)
          else
            (case mapR (coerce_arg E name) (zip params args) of
               Inl e \<Rightarrow> (Inl e, g)
             | Inr vals \<Rightarrow>
                 (case en_call E name vals g of
                    (Inl e, g') \<Rightarrow> (Inl (WasmError e), g')
                  | (Inr rs, g') \<Rightarrow> (coerce_result E name rs, g'))))"

definition call0 :: "('g, 'cb) engine \<Rightarrow> bytes \<Rightarrow> 'g \<Rightarrow> (wasm_error, i64) result \<times> 'g" where
  "call0 E name = wasm_call E name []"

definition call1 :: "('g, 'cb) engine \<Rightarrow> bytes \<Rightarrow> i64 \<Rightarrow> 'g \<Rightarrow> (wasm_error, i64) result \<times> 'g" where
  "call1 E name a = wasm_call E name [a]"

definition call2 :: "('g, 'cb) engine \<Rightarrow> bytes \<Rightarrow> i64 \<Rightarrow> i64 \<Rightarrow> 'g \<Rightarrow> (wasm_error, i64) result \<times> 'g" where
  "call2 E name a b = wasm_call E name [a, b]"

section \<open>Typed calls\<close>

fun type_of_val :: "val \<Rightarrow> val_type" where
  "type_of_val (VI32 v) = I32"
| "type_of_val (VI64 v) = I64"
| "type_of_val (VOther s) = OtherTy s"

text \<open>An engine that refuses arguments which are not of the function's declared types.\<close>

definition strict :: "('g, 'cb) engine \<Rightarrow> ('g, 'cb) engine" where
  "strict E = E\<lparr>en_call := (\<lambda>name vals g.
     if map_option fst (en_func E g name) = Some (map type_of_val vals) then en_call E name vals g
     else (Inl ''type mismatch'', g))\<rparr>"

lemma strict_simps [simp]:
  "en_func (strict E) = en_func E" "en_debug (strict E) = en_debug E"
  "coerce_arg (strict E) = coerce_arg E" "coerce_result (strict E) = coerce_result E"
proof -
  show func: "en_func (strict E) = en_func E" and debug: "en_debug (strict E) = en_debug E" by (simp_all add: strict_def)
  show "coerce_arg (strict E) = coerce_arg E"
  proof (intro ext)
    fix name p
    show "coerce_arg (strict E) name p = coerce_arg E name p"
      by (cases p; cases "fst p") (simp_all add: debug)
  qed
  show "coerce_result (strict E) = coerce_result E" by (simp only: coerce_result_def [abs_def] debug)
qed

lemma coerce_arg_type: "coerce_arg E name (p, a) = Inr v \<Longrightarrow> type_of_val v = p"
  by (cases p) auto

lemma coerce_args_types:
  "mapR (coerce_arg E name) (zip ps as) = Inr vs \<Longrightarrow> length ps = length as \<Longrightarrow> map type_of_val vs = ps"
proof (induction ps as arbitrary: vs rule: list_induct2')
  case (4 p ps a as)
  then show ?case by (auto simp: bindR_eq_Inr dest: coerce_arg_type)
qed auto

lemma i32_round_trip:
  assumes "- (2 ^ 31) \<le> sint (a :: i64)" and "sint a < 2 ^ 31"
  shows "scast (ucast a :: i32) = a"
proof -
  have "sint (ucast a :: i32) = sint a"
  proof -
    have down: "(ucast a :: i32) = word_of_int (sint a)"
      using ucast_down_wi [where x = "sint a" and 'a = 64 and 'b = 32] by (simp add: is_down)
    show ?thesis
      unfolding down sint_sbintrunc' using assms by (simp add: signed_take_bit_int_eq_self)
  qed
  then show ?thesis by (simp add: scast_eq)
qed

lemma get_range_cong:
  assumes "length m' = length m" and "\<And>j. i \<le> j \<Longrightarrow> j < i + k \<Longrightarrow> j < length m \<Longrightarrow> m' ! j = m ! j"
  shows "get_range i (i + k) m' = get_range i (i + k) m"
proof -
  have "take k (List.drop i m') = take k (List.drop i m)"
    using assms by (intro nth_equalityI) auto
  then show ?thesis by (simp add: get_range_def assms(1))
qed

lemma get_range_splice:
  assumes "a + length data \<le> length mem" and "i + k \<le> a \<or> a + length data \<le> i"
  shows "get_range i (i + k) (take a mem @ data @ List.drop (a + length data) mem) = get_range i (i + k) mem"
  using assms by (intro get_range_cong) (auto simp: nth_append)

lemma memory_read_cong:
  assumes "en_memory E g = Some m" and "en_memory E g' = Some m'" and "length m' = length m"
    and "get_range (unat o1) (unat o1 + unat n) m' = get_range (unat o1) (unat o1 + unat n) m"
  shows "memory_read E o1 n g' = memory_read E o1 n g"
  using assms by (simp add: memory_read_def checked_add_def split: option.split)

section \<open>Properties\<close>

text \<open>An engine whose store is its memory and whose one export returns its argument.\<close>

definition plain_engine :: "(bytes, unit) engine" where
  "plain_engine =
     \<lparr>en_load = (\<lambda>path fuel. Inr path), en_exports = (\<lambda>g. [(''id'', True)]),
      en_func = (\<lambda>g name. if name = ''id'' then Some ([I32], [I32]) else None), en_call = (\<lambda>name vs g. (Inr vs, g)),
      en_memory = Some, en_set_memory = (\<lambda>m g. m), en_set_fuel = (\<lambda>n g. Inr g), en_get_fuel = (\<lambda>g. Inr 0),
      en_set_host = (\<lambda>cb g. g), en_debug = (\<lambda>s. s)\<rparr>"

lemma plain_engine_ok: "engine_ok plain_engine"
  by (simp add: engine_ok_def plain_engine_def)

text \<open>
  (C37) The guest is entered only with values of its own parameter types: an engine that refuses every other call
  cannot be told from the engine itself by what \<^verbatim>\<open>call0\<close>, \<^verbatim>\<open>call1\<close> and \<^verbatim>\<open>call2\<close> do.  The coercion to a 32-bit
  parameter and back loses nothing of a number that fits.
\<close>

theorem calls_well_typed:
  "call0 E name g = call0 (strict E) name g \<and> call1 E name a g = call1 (strict E) name a g \<and>
   call2 E name a b g = call2 (strict E) name a b g \<and>
   (\<forall>a. - (2 ^ 31) \<le> sint (a :: i64) \<and> sint a < 2 ^ 31 \<longrightarrow>
      (\<exists>v. coerce_arg E name (I32, a) = Inr v \<and> coerce_result E name [v] = Inr a))"
proof -
  have "wasm_call E name args g = wasm_call (strict E) name args g" for args
  proof (cases "en_func E g name")
    case None
    then show ?thesis by (simp add: wasm_call_def)
  next
    case (Some ty)
    obtain params results where ty: "ty = (params, results)" by (cases ty)
    show ?thesis
    proof (cases "length params = length args")
      case len: True
      show ?thesis
      proof (cases "mapR (coerce_arg E name) (zip params args)")
        case (Inr vals)
        then have "en_call (strict E) name vals g = en_call E name vals g"
          using coerce_args_types [OF Inr len] Some ty by (simp add: strict_def)
        then show ?thesis using Some ty len Inr by (auto simp: wasm_call_def split: prod.splits sum.splits)
      qed (use Some ty len in \<open>simp add: wasm_call_def\<close>)
    qed (use Some ty in \<open>simp add: wasm_call_def\<close>)
  qed
  moreover have "coerce_result E name [VI32 (ucast a)] = Inr a" if "- (2 ^ 31) \<le> sint a" "sint a < 2 ^ 31" for a :: i64
    using i32_round_trip [OF that] by (simp add: coerce_result_def)
  ultimately show ?thesis by (simp add: call0_def call1_def call2_def)
qed

theorem calls_well_typed_witness:
  "\<exists>v. coerce_arg plain_engine ''id'' (I32, - 7) = Inr v \<and> coerce_result plain_engine ''id'' [v] = Inr (- 7)"
proof -
  have "- (2 ^ 31) \<le> sint (- 7 :: i64)" "sint (- 7 :: i64) < 2 ^ 31" by code_simp+
  then show ?thesis using calls_well_typed [of plain_engine "''id''"] by blast
qed

text \<open>
  (C38) Copies into the guest stay inside its memory.  A write succeeds exactly when its range lies in the memory, with no
  wrap-around at the top of the address space; reading the range back gives the written octets; every read of a range
  that does not overlap it is unchanged; and a refused write changes nothing.
\<close>

theorem memory_copies_bounded:
  assumes "engine_ok E" and "en_memory E g = Some mem" and "length mem < 2 ^ 64"
    and "memory_write E offset data g = (res, g')"
  shows "(res = Inr () \<longleftrightarrow> unat offset + length data \<le> length mem) \<and> (res \<noteq> Inr () \<longrightarrow> g' = g) \<and>
    (res = Inr () \<longrightarrow> memory_read E offset (of_nat (length data)) g' = Inr data \<and>
       (\<forall>o1 n. unat o1 + unat n \<le> unat offset \<or> unat offset + length data \<le> unat o1 \<longrightarrow>
          memory_read E o1 n g' = memory_read E o1 n g))"
proof (cases "unat offset + length data \<le> length mem")
  case True
  let ?m = "take (unat offset) mem @ data @ List.drop (unat offset + length data) mem"
  have len: "length ?m = length mem" using True by simp
  have ca: "checked_add offset (length data) = Some (unat offset + length data)"
    using True assms(3) by (simp add: checked_add_def)
  have w: "res = Inr ()" "g' = en_set_memory E ?m g"
    using assms(4) True ca by (auto simp: memory_write_def assms(2))
  have m': "en_memory E g' = Some ?m" using assms(1,2) len unfolding w(2) engine_ok_def by blast
  have n: "unat (of_nat (length data) :: u64) = length data" using True assms(3) by (simp add: unat_of_nat)
  have "get_range (unat offset) (unat offset + length data) ?m = Some data" using True by (simp add: get_range_def)
  then have read_back: "memory_read E offset (of_nat (length data)) g' = Inr data"
    by (simp only: memory_read_def m' n ca option.case bind.bind_lunit)
  have same: "get_range (unat o1) (unat o1 + unat n) ?m = get_range (unat o1) (unat o1 + unat n) mem"
    if "unat o1 + unat n \<le> unat offset \<or> unat offset + length data \<le> unat o1" for o1 n :: u64
    using get_range_splice [OF True, of "unat o1" "unat n"] that by simp
  have "memory_read E o1 n g' = memory_read E o1 n g"
    if "unat o1 + unat n \<le> unat offset \<or> unat offset + length data \<le> unat o1" for o1 n
    by (rule memory_read_cong [OF assms(2) m' len same [OF that]])
  with w True read_back show ?thesis by blast
next
  case False
  then have "res = Inl (out_of_bounds ''write'' (length data) offset (length mem)) \<and> g' = g"
    using assms(4) by (auto simp: memory_write_def assms(2) checked_add_def split: if_splits)
  with False show ?thesis by auto
qed

theorem memory_copies_bounded_witness:
  "\<exists>g'. memory_write plain_engine 1 ''xy'' ''abcd'' = (Inr (), g') \<and> memory_read plain_engine 1 2 g' = Inr ''xy'' \<and>
     memory_read plain_engine 3 1 g' = memory_read plain_engine 3 1 ''abcd''"
proof -
  obtain res g' where w: "memory_write plain_engine 1 ''xy'' ''abcd'' = (res, g')" by fastforce
  have m: "en_memory plain_engine ''abcd'' = Some ''abcd''" by (simp add: plain_engine_def)
  have "length ''abcd'' < 2 ^ 64" by simp
  from memory_copies_bounded [OF plain_engine_ok m this w]
  have "res = Inr ()" and "memory_read plain_engine 1 (of_nat (length ''xy'')) g' = Inr ''xy''"
    and "\<forall>o1 n. unat o1 + unat n \<le> unat (1 :: u64) \<or> unat (1 :: u64) + length ''xy'' \<le> unat o1 \<longrightarrow>
      memory_read plain_engine o1 n g' = memory_read plain_engine o1 n ''abcd''" by simp_all
  then show ?thesis using w by (intro exI [of _ g']) simp
qed

end
