(* ===== verification/Wasi.thy ===== *)
theory Wasi
  imports Wasm
begin

text \<open>
  \<^verbatim>\<open>examples/wasm/src/lib.rs\<close>: the WASI sandbox.  The engine, wasi-common and the host's file system are parameters.
  A guest's run is the list of the host calls it makes, each with the time it takes, and how the run ends; since a
  property is shown for every such list it holds for every guest, whatever it makes of the answers.
\<close>

section \<open>Errors and captured output\<close>

datatype errno = Nospc | Mfile | Rofs | Acces | Badf | Notsup bytes | Errno bytes

datatype stream = Stdout | Stderr

record captured =
  cp_stdout :: bytes
  cp_stderr :: bytes
  cp_cap :: nat

definition stream_of :: "stream \<Rightarrow> captured \<Rightarrow> bytes" where
  "stream_of st c = (case st of Stdout \<Rightarrow> cp_stdout c | Stderr \<Rightarrow> cp_stderr c)"

definition extend_from :: "stream \<Rightarrow> bytes \<Rightarrow> captured \<Rightarrow> captured" where
  "extend_from st bs c =
     (case st of Stdout \<Rightarrow> c\<lparr>cp_stdout := cp_stdout c @ bs\<rparr> | Stderr \<Rightarrow> c\<lparr>cp_stderr := cp_stderr c @ bs\<rparr>)"

definition room :: "captured \<Rightarrow> nat" where
  "room c = cp_cap c - (length (cp_stdout c) + length (cp_stderr c))"

text \<open>The loop of \<^verbatim>\<open>write_vectored\<close>: \<open>n\<close> octets of the room are used.\<close>

fun write_bufs :: "stream \<Rightarrow> nat \<Rightarrow> bytes list \<Rightarrow> nat \<Rightarrow> captured \<Rightarrow> nat \<times> captured" where
  "write_bufs st r [] n c = (n, c)"
| "write_bufs st r (b # bs) n c =
     (let k = min (r - n) (length b); c' = extend_from st (take k b) c; n' = n + k
      in if n' = r then (n', c') else write_bufs st r bs n' c')"

definition write_vectored :: "stream \<Rightarrow> bytes list \<Rightarrow> captured \<Rightarrow> (errno, nat) result \<times> captured" where
  "write_vectored st bufs c =
     (if sum_list (map length bufs) = 0 then (Inr 0, c)
      else if room c = 0 then (Inl Nospc, c)
      else (case write_bufs st (room c) bufs 0 c of (n, c') \<Rightarrow> (Inr n, c')))"

definition capped_filetype :: bytes where
  "capped_filetype = ''Pipe''"

definition capped_fdflags :: bytes where
  "capped_fdflags = ''APPEND''"

section \<open>No waiting\<close>

definition poll_oneoff :: "(errno, unit) result" where
  "poll_oneoff = Inl (Notsup ''poll_oneoff is refused: a sandboxed run cannot wait'')"

definition sched_yield :: "(errno, unit) result" where
  "sched_yield = Inr ()"

definition sched_sleep :: "nat \<Rightarrow> (errno, unit) result" where
  "sched_sleep duration = Inl (Notsup ''sleep is refused: a sandboxed run cannot wait'')"

section \<open>Preopens\<close>

definition OPEN_DESCRIPTORS :: u64 where
  "OPEN_DESCRIPTORS = 256"

text \<open>\<^verbatim>\<open>Slot::take\<close> on the counter: add, and take back when the old value was at the bound.\<close>

definition slot_take :: "u64 \<Rightarrow> (errno, unit) result \<times> u64" where
  "slot_take live = (if OPEN_DESCRIPTORS \<le> live then (Inl Mfile, live + 1 - 1) else (Inr (), live + 1))"

definition slot_drop :: "u64 \<Rightarrow> u64" where
  "slot_drop live = live - 1"

datatype filetype = RegularFile | Directory | SymbolicLink | OtherFile

record oflags =
  of_create :: bool
  of_truncate :: bool
  of_exclusive :: bool

text \<open>
  What a guest may ask of a directory and of an open file without writing; cursors, offsets and lengths as it gives them.
\<close>

datatype dir_op = Readdir u64 | ReadLink bytes | GetFilestat | GetPathFilestat bytes bool

datatype file_op =
    Isatty
  | NumReadyBytes
  | GetFiletype
  | GetFdflags
  | SetFdflags bytes
  | FileFilestat
  | Advise u64 u64 bytes
  | ReadVectored "nat list"
  | ReadVectoredAt "nat list" u64
  | Seek bytes
  | Peek nat
  | Readable

text \<open>
  The directory below a preopen, over the state \<open>'h\<close> of the host's file system: \<open>hd_filestat\<close> and \<open>hd_open\<close>, whose
  arguments are the path, whether to follow a link, the flags, and the wish to read and to write; \<open>hd_read\<close> and \<open>hd_file\<close>,
  the reads of a directory and of a file that was opened.  Opening for reading only, without creating or truncating,
  changes nothing, and neither does a read of a file.
\<close>

record 'h host_dir =
  hd_filestat :: "'h \<Rightarrow> bytes \<Rightarrow> bool \<Rightarrow> (errno, filetype) result"
  hd_open :: "bytes \<Rightarrow> bool \<Rightarrow> oflags \<Rightarrow> bool \<Rightarrow> bool \<Rightarrow> 'h \<Rightarrow> (errno, unit) result \<times> 'h"
  hd_read :: "'h \<Rightarrow> dir_op \<Rightarrow> (errno, bytes) result"
  hd_file :: "file_op \<Rightarrow> 'h \<Rightarrow> (errno, bytes) result \<times> 'h"

definition modifies :: "oflags \<Rightarrow> bool \<Rightarrow> bool" where
  "modifies f write \<longleftrightarrow> write \<or> of_create f \<or> of_truncate f \<or> of_exclusive f"

definition host_dir_ok :: "'h host_dir \<Rightarrow> bool" where
  "host_dir_ok D \<longleftrightarrow>
     (\<forall>path follow f read write h. \<not> modifies f write \<longrightarrow> snd (hd_open D path follow f read write h) = h) \<and>
     (\<forall>op h. snd (hd_file D op h) = h)"

definition open_file ::
  "'h host_dir \<Rightarrow> bytes \<Rightarrow> bool \<Rightarrow> oflags \<Rightarrow> bool \<Rightarrow> bool \<Rightarrow> u64 \<Rightarrow> 'h \<Rightarrow> (errno, unit) result \<times> u64 \<times> 'h" where
  "open_file D path follow f read write live h =
     (if modifies f write then (Inl Rofs, live, h)
      else (case hd_filestat D h path follow of
              Inl e \<Rightarrow> (Inl e, live, h)
            | Inr kind \<Rightarrow>
                if kind \<noteq> RegularFile \<and> kind \<noteq> Directory \<and> kind \<noteq> SymbolicLink then (Inl Acces, live, h)
                else (case slot_take live of
                        (Inl e, live') \<Rightarrow> (Inl e, live', h)
                      | (Inr _, live') \<Rightarrow>
                          (case hd_open D path follow f read False h of
                             (Inl e, h') \<Rightarrow> (Inl e, slot_drop live', h')
                           | (Inr _, h') \<Rightarrow> (Inr (), live', h')))))"

text \<open>The reads of \<^verbatim>\<open>ReadOnlyDir\<close> and \<^verbatim>\<open>CountedFile\<close> are those of the directory and file inside.\<close>

definition dir_read :: "'h host_dir \<Rightarrow> dir_op \<Rightarrow> 'h \<Rightarrow> (errno, bytes) result" where
  "dir_read D op h =
     (case op of
        Readdir cursor \<Rightarrow> hd_read D h (Readdir cursor)
      | ReadLink path \<Rightarrow> hd_read D h (ReadLink path)
      | GetFilestat \<Rightarrow> hd_read D h GetFilestat
      | GetPathFilestat path follow_symlinks \<Rightarrow> hd_read D h (GetPathFilestat path follow_symlinks))"

definition counted_read :: "'h host_dir \<Rightarrow> file_op \<Rightarrow> 'h \<Rightarrow> (errno, bytes) result \<times> 'h" where
  "counted_read D op h =
     (case op of
        Isatty \<Rightarrow> hd_file D Isatty h
      | NumReadyBytes \<Rightarrow> hd_file D NumReadyBytes h
      | GetFiletype \<Rightarrow> hd_file D GetFiletype h
      | GetFdflags \<Rightarrow> hd_file D GetFdflags h
      | SetFdflags flags \<Rightarrow> hd_file D (SetFdflags flags) h
      | FileFilestat \<Rightarrow> hd_file D FileFilestat h
      | Advise offset len advice \<Rightarrow> hd_file D (Advise offset len advice) h
      | ReadVectored bufs \<Rightarrow> hd_file D (ReadVectored bufs) h
      | ReadVectoredAt bufs offset \<Rightarrow> hd_file D (ReadVectoredAt bufs offset) h
      | Seek pos \<Rightarrow> hd_file D (Seek pos) h
      | Peek len \<Rightarrow> hd_file D (Peek len) h
      | Readable \<Rightarrow> hd_file D Readable h)"

text \<open>Writing to a file is left to the trait's defaults.\<close>

datatype file_write = WriteVectored "bytes list" | WriteVectoredAt "bytes list" u64 | OtherWrite bytes

definition counted_write :: "file_write \<Rightarrow> (errno, unit) result" where
  "counted_write op = Inl Badf"

text \<open>Everything that would change a preopened directory.\<close>

datatype dir_change = CreateDir | Symlink | RemoveDir | UnlinkFile | Rename | HardLink | SetTimes

definition read_only :: "dir_change \<Rightarrow> (errno, unit) result" where
  "read_only op = Inl Rofs"

section \<open>Host time\<close>

text \<open>Durations in nanoseconds, saturating at the largest \<^verbatim>\<open>Duration\<close>.\<close>

definition DURATION_MAX :: nat where
  "DURATION_MAX = (2 ^ 64 - 1) * 1000000000 + 999999999"

record host_time =
  ht_budget :: nat
  ht_spent :: nat

definition for_fuel :: "u64 \<Rightarrow> host_time" where
  "for_fuel fuel = \<lparr>ht_budget = min (1000000000 + unat fuel * 1000) DURATION_MAX, ht_spent = 0\<rparr>"

definition host_time_exhausted :: bytes where
  "host_time_exhausted =
     ''host-call time budget exhausted: more than a second plus a microsecond per unit of fuel was spent inside WASI calls''"

text \<open>The hook on the return from a host call that took \<open>d\<close> nanoseconds.\<close>

definition returning :: "nat \<Rightarrow> host_time \<Rightarrow> (bytes, unit) result \<times> host_time" where
  "returning d t =
     (let t' = t\<lparr>ht_spent := min (ht_spent t + d) DURATION_MAX\<rparr>
      in (if ht_budget t' < ht_spent t' then Inl host_time_exhausted else Inr (), t'))"

section \<open>The sandbox\<close>

text \<open>\<open>wa_host\<close> is the state of the host's file system, \<open>wa_open\<close> how many descriptors the guest's table holds.\<close>

record 'h wasi =
  wa_captured :: captured
  wa_live :: u64
  wa_open :: nat
  wa_time :: host_time
  wa_host :: 'h
  wa_args :: "bytes list"
  wa_env :: "(bytes \<times> bytes) list"
  wa_preopens :: "(bytes \<times> bytes) list"
  wa_stdin :: bytes
  wa_ran :: bool
  wa_env_keys :: "bytes list"

definition no_nul :: "bytes \<Rightarrow> bytes \<Rightarrow> (wasm_error, unit) result" where
  "no_nul what s =
     (if CHR 0x00 \<in> set s then Inl (WasmError (what @ '': a NUL byte cannot be passed to the guest'')) else Inr ())"

datatype lock = Free | WouldBlock | Poisoned

definition try_lock :: "lock \<Rightarrow> bytes \<Rightarrow> (wasm_error, unit) result" where
  "try_lock l what =
     (case l of
        Free \<Rightarrow> Inr ()
      | WouldBlock \<Rightarrow> Inl (WasmError (what @ '': a run is in progress on another thread''))
      | Poisoned \<Rightarrow> Inl (WasmError (what @ '': this instance is poisoned by an earlier panic'')))"

definition not_run_yet :: "bytes \<Rightarrow> 'h wasi \<Rightarrow> (wasm_error, unit) result" where
  "not_run_yet what w =
     (if wa_ran w then
        Inl (WasmError (what @ '': this instance has already run; a Wasi runs _start once '' @ [CHR 0xE2, CHR 0x80, CHR 0x94] @ '' make another''))
      else Inr ())"

definition ready :: "lock \<Rightarrow> bytes \<Rightarrow> 'h wasi \<Rightarrow> (wasm_error, unit) result" where
  "ready l what w = bindR (try_lock l what) (\<lambda>_. not_run_yet what w)"

text \<open>\<open>pushed\<close>: the answer of the WASI context, whose own limits can refuse.\<close>

definition wasi_arg :: "(bytes, unit) result \<Rightarrow> lock \<Rightarrow> bytes \<Rightarrow> 'h wasi \<Rightarrow> (wasm_error, unit) result \<times> 'h wasi" where
  "wasi_arg pushed l arg w =
     (case bindR (ready l ''wasi-arg'' w) (\<lambda>_. no_nul ''wasi-arg'' arg) of
        Inl e \<Rightarrow> (Inl e, w)
      | Inr _ \<Rightarrow> (case pushed of Inl e \<Rightarrow> (Inl (WasmError e), w) | Inr _ \<Rightarrow> (Inr (), w\<lparr>wa_args := wa_args w @ [arg]\<rparr>)))"

definition wasi_env ::
  "(bytes \<Rightarrow> bytes) \<Rightarrow> (bytes, unit) result \<Rightarrow> lock \<Rightarrow> bytes \<Rightarrow> bytes \<Rightarrow> 'h wasi \<Rightarrow> (wasm_error, unit) result \<times> 'h wasi" where
  "wasi_env debug pushed l key value w =
     (case bindR (ready l ''wasi-env'' w) (\<lambda>_. bindR (no_nul ''wasi-env'' key) (\<lambda>_. no_nul ''wasi-env'' value)) of
        Inl e \<Rightarrow> (Inl e, w)
      | Inr _ \<Rightarrow>
          if key = [] \<or> CHR ''='' \<in> set key then
            (Inl (WasmError (''wasi-env: '' @ debug key @ '' is not a variable name'')), w)
          else if key \<in> set (wa_env_keys w) then (Inl (WasmError (''wasi-env: '' @ key @ '' is already set'')), w)
          else (case pushed of
                  Inl e \<Rightarrow> (Inl (WasmError e), w)
                | Inr _ \<Rightarrow> (Inr (), w\<lparr>wa_env := wa_env w @ [(key, value)], wa_env_keys := wa_env_keys w @ [key]\<rparr>)))"

definition wasi_preopen ::
  "(bytes \<Rightarrow> (bytes, unit) result) \<Rightarrow> (bytes, unit) result \<Rightarrow> lock \<Rightarrow> bytes \<Rightarrow> bytes \<Rightarrow> 'h wasi \<Rightarrow>
   (wasm_error, unit) result \<times> 'h wasi" where
  "wasi_preopen open_dir pushed l host_path guest_path w =
     (case ready l ''wasi-preopen'' w of
        Inl e \<Rightarrow> (Inl e, w)
      | Inr _ \<Rightarrow>
          (case open_dir host_path of
             Inl e \<Rightarrow> (Inl (WasmError (''cannot open '' @ host_path @ '': '' @ e)), w)
           | Inr _ \<Rightarrow>
               (case pushed of
                  Inl e \<Rightarrow> (Inl (WasmError e), w)
                | Inr _ \<Rightarrow> (Inr (), w\<lparr>wa_preopens := wa_preopens w @ [(guest_path, host_path)]\<rparr>))))"

definition wasi_stdin :: "lock \<Rightarrow> bytes \<Rightarrow> 'h wasi \<Rightarrow> (wasm_error, unit) result \<times> 'h wasi" where
  "wasi_stdin l data w =
     (case ready l ''wasi-stdin'' w of Inl e \<Rightarrow> (Inl e, w) | Inr _ \<Rightarrow> (Inr (), w\<lparr>wa_stdin := data\<rparr>))"

section \<open>The guest\<close>

datatype guest_call =
    FdWrite stream "bytes list"
  | PathOpen bytes bool oflags bool bool
  | FdClose
  | DirRead dir_op
  | FileRead file_op
  | FileWrite file_write
  | Change dir_change
  | PollOneoff
  | Sleep nat
  | OtherCall

text \<open>A host call, and its answer as the guest sees it; a guest with no preopens has no directory to open through.\<close>

definition host_call :: "'h host_dir \<Rightarrow> guest_call \<Rightarrow> 'h wasi \<Rightarrow> (errno, nat) result \<times> 'h wasi" where
  "host_call D gc w =
     (case gc of
        FdWrite st bufs \<Rightarrow> (case write_vectored st bufs (wa_captured w) of (r, c) \<Rightarrow> (r, w\<lparr>wa_captured := c\<rparr>))
      | PathOpen path follow f read write \<Rightarrow>
          if wa_preopens w = [] then (Inl Badf, w)
          else (case open_file D path follow f read write (wa_live w) (wa_host w) of
                  (Inl e, live, h) \<Rightarrow> (Inl e, w\<lparr>wa_live := live, wa_host := h\<rparr>)
                | (Inr _, live, h) \<Rightarrow> (Inr 0, w\<lparr>wa_live := live, wa_host := h, wa_open := Suc (wa_open w)\<rparr>))
      | FdClose \<Rightarrow>
          (case wa_open w of
             0 \<Rightarrow> (Inl Badf, w)
           | Suc n \<Rightarrow> (Inr 0, w\<lparr>wa_live := slot_drop (wa_live w), wa_open := n\<rparr>))
      | DirRead op \<Rightarrow>
          if wa_preopens w = [] then (Inl Badf, w) else (map_sum id length (dir_read D op (wa_host w)), w)
      | FileRead op \<Rightarrow>
          if wa_open w = 0 then (Inl Badf, w)
          else (case counted_read D op (wa_host w) of (r, h) \<Rightarrow> (map_sum id length r, w\<lparr>wa_host := h\<rparr>))
      | FileWrite op \<Rightarrow> (map_sum id (\<lambda>_. 0) (counted_write op), w)
      | Change op \<Rightarrow> (map_sum id (\<lambda>_. 0) (read_only op), w)
      | PollOneoff \<Rightarrow> (map_sum id (\<lambda>_. 0) poll_oneoff, w)
      | Sleep d \<Rightarrow> (map_sum id (\<lambda>_. 0) (sched_sleep d), w)
      | OtherCall \<Rightarrow> (Inr 0, w))"

text \<open>How the guest ends when no hook ends it first.\<close>

datatype guest_end = Returns | Exits int | Traps bytes

fun run_guest :: "'h host_dir \<Rightarrow> (guest_call \<times> nat) list \<Rightarrow> guest_end \<Rightarrow> 'h wasi \<Rightarrow> guest_end \<times> 'h wasi" where
  "run_guest D [] ge w = (ge, w)"
| "run_guest D ((gc, d) # calls) ge w =
     (let w1 = snd (host_call D gc w)
      in case returning d (wa_time w1) of
           (Inl e, t) \<Rightarrow> (Traps e, w1\<lparr>wa_time := t\<rparr>)
         | (Inr _, t) \<Rightarrow> run_guest D calls ge (w1\<lparr>wa_time := t\<rparr>))"

section \<open>Load and run\<close>

text \<open>
  A module that reads, validates and translates: the type of its \<^verbatim>\<open>_start\<close> (\<open>None\<close> when it exports none, else whether it
  has no parameters and no results) and what its \<^verbatim>\<open>(start)\<close> section does, \<open>([], Returns)\<close> when it has none.
\<close>

record wasi_module =
  wm_start :: "bool option"
  wm_section :: "(guest_call \<times> nat) list \<times> guest_end"

definition new_wasi :: "'h \<Rightarrow> u64 \<Rightarrow> u64 \<Rightarrow> 'h wasi" where
  "new_wasi h fuel memory_limit =
     \<lparr>wa_captured = \<lparr>cp_stdout = [], cp_stderr = [], cp_cap = unat memory_limit\<rparr>, wa_live = 0, wa_open = 0,
      wa_time = for_fuel fuel, wa_host = h, wa_args = [], wa_env = [], wa_preopens = [], wa_stdin = [],
      wa_ran = False, wa_env_keys = []\<rparr>"

definition wasi_load ::
  "'h host_dir \<Rightarrow> (bytes \<Rightarrow> (bytes, wasi_module) result) \<Rightarrow> 'h \<Rightarrow> bytes \<Rightarrow> u64 \<Rightarrow> u64 \<Rightarrow> (wasm_error, 'h wasi) result" where
  "wasi_load D loaded h path fuel memory_limit =
     (if fuel = 0 then
        Inl (WasmError ''fuel must be positive: a sandboxed run is synchronous and only its fuel budget makes it finite'')
      else (case loaded path of
              Inl e \<Rightarrow> Inl (WasmError e)
            | Inr m \<Rightarrow>
                (case wm_start m of
                   None \<Rightarrow> Inl (WasmError ''module exports no _start function: not a WASI command'')
                 | Some False \<Rightarrow>
                     Inl (WasmError ''module's _start is not a function of no parameters and no result: not a WASI command'')
                 | Some True \<Rightarrow>
                     (case run_guest D (fst (wm_section m)) (snd (wm_section m)) (new_wasi h fuel memory_limit) of
                        (Returns, w) \<Rightarrow> Inr w
                      | (Exits st, w) \<Rightarrow>
                          Inl (WasmError (''the module's (start) section exited with status '' @
                            (if st < 0 then CHR ''-'' # dec (nat (- st)) else dec (nat st)) @ '' before _start could run''))
                      | (Traps e, w) \<Rightarrow> Inl (WasmError e)))))"

text \<open>Dropping the descriptor table closes what it holds.\<close>

definition fresh_wasi :: "'h wasi \<Rightarrow> 'h wasi" where
  "fresh_wasi w =
     w\<lparr>wa_live := (slot_drop ^^ wa_open w) (wa_live w), wa_open := 0, wa_args := [], wa_env := [], wa_preopens := [], wa_stdin := []\<rparr>"

definition run_outcome :: "guest_end \<Rightarrow> (wasm_error, int) result" where
  "run_outcome ge = (case ge of Returns \<Rightarrow> Inr 0 | Exits n \<Rightarrow> Inr n | Traps e \<Rightarrow> Inl (WasmError e))"

definition wasi_run ::
  "'h host_dir \<Rightarrow> lock \<Rightarrow> (guest_call \<times> nat) list \<Rightarrow> guest_end \<Rightarrow> 'h wasi \<Rightarrow> (wasm_error, int) result \<times> 'h wasi" where
  "wasi_run D l calls ge w =
     (case ready l ''wasi-run'' w of
        Inl e \<Rightarrow> (Inl e, w)
      | Inr _ \<Rightarrow> (case run_guest D calls ge (w\<lparr>wa_ran := True\<rparr>) of (ended, w') \<Rightarrow> (run_outcome ended, fresh_wasi w')))"

definition wasi_stdout :: "lock \<Rightarrow> 'h wasi \<Rightarrow> (wasm_error, bytes) result" where
  "wasi_stdout l w = bindR (try_lock l ''wasi-stdout'') (\<lambda>_. Inr (stream_of Stdout (wa_captured w)))"

definition wasi_stderr :: "lock \<Rightarrow> 'h wasi \<Rightarrow> (wasm_error, bytes) result" where
  "wasi_stderr l w = bindR (try_lock l ''wasi-stderr'') (\<lambda>_. Inr (stream_of Stderr (wa_captured w)))"

text \<open>\<open>fuel\<close>: what the engine answers for the store.\<close>

definition wasi_fuel_left :: "lock \<Rightarrow> (bytes, u64) result \<Rightarrow> (wasm_error, u64) result" where
  "wasi_fuel_left l fuel = bindR (try_lock l ''wasi-fuel-left'') (\<lambda>_. map_sum WasmError id fuel)"

text \<open>The uses of one instance, from its load on.\<close>

inductive wasi_step :: "'h host_dir \<Rightarrow> 'h wasi \<Rightarrow> 'h wasi \<Rightarrow> bool" for D :: "'h host_dir" where
  arg: "wasi_step D w (snd (wasi_arg pushed l a w))"
| env: "wasi_step D w (snd (wasi_env debug pushed l k v w))"
| preopen: "wasi_step D w (snd (wasi_preopen open_dir pushed l host_path guest_path w))"
| stdin: "wasi_step D w (snd (wasi_stdin l data w))"
| run: "wasi_step D w (snd (wasi_run D l calls ge w))"

inductive wasi_reach :: "'h host_dir \<Rightarrow> 'h \<Rightarrow> u64 \<Rightarrow> u64 \<Rightarrow> 'h wasi \<Rightarrow> bool"
  for D :: "'h host_dir" and h :: 'h and fuel limit :: u64 where
  load: "wasi_load D loaded h path fuel limit = Inr w \<Longrightarrow> wasi_reach D h fuel limit w"
| step: "wasi_reach D h fuel limit w \<Longrightarrow> wasi_step D w w' \<Longrightarrow> wasi_reach D h fuel limit w'"

section \<open>Writes against their specification\<close>

text \<open>
  The specification of the two streams is one log of octets, each with its stream: a write appends, and the log is cut
  at the cap.
\<close>

definition tagged :: "stream \<Rightarrow> bytes list \<Rightarrow> (stream \<times> char) list" where
  "tagged st bufs = map (Pair st) (concat bufs)"

definition on_stream :: "stream \<Rightarrow> (stream \<times> char) list \<Rightarrow> bytes" where
  "on_stream st log = map snd (filter (\<lambda>p. fst p = st) log)"

fun written :: "(guest_call \<times> nat) list \<Rightarrow> (stream \<times> char) list" where
  "written [] = []"
| "written ((FdWrite st bufs, d) # calls) = tagged st bufs @ written calls"
| "written ((_, d) # calls) = written calls"

text \<open>\<open>c'\<close> is \<open>c\<close> with the part of \<open>log\<close> that fits.\<close>

definition appended :: "captured \<Rightarrow> (stream \<times> char) list \<Rightarrow> captured \<Rightarrow> bool" where
  "appended c log c' \<longleftrightarrow>
     cp_cap c' = cp_cap c \<and> (\<forall>st. stream_of st c' = stream_of st c @ on_stream st (take (room c) log))"

lemma on_stream_append [simp]: "on_stream st (a @ b) = on_stream st a @ on_stream st b"
  by (simp add: on_stream_def)

lemma on_stream_nil [simp]: "on_stream st [] = []"
  by (simp add: on_stream_def)

lemma on_stream_pair [simp]: "on_stream st (map (Pair st') bs) = (if st = st' then bs else [])"
  by (simp add: on_stream_def comp_def filter_map)

lemma extend_stream_of [simp]: "stream_of st (extend_from st' bs c) = stream_of st c @ (if st = st' then bs else [])"
  by (cases st; cases st') (simp_all add: stream_of_def extend_from_def)

lemma extend_from_cap [simp]: "cp_cap (extend_from st bs c) = cp_cap c"
  by (cases st) (simp_all add: extend_from_def)

lemma length_on_streams: "length (on_stream Stdout log) + length (on_stream Stderr log) = length log"
proof (induction log)
  case (Cons p log)
  then show ?case by (cases "fst p") (simp_all add: on_stream_def)
qed simp

lemma appended_length:
  assumes "appended c log c'"
  shows "cp_cap c' = cp_cap c"
    and "length (cp_stdout c') + length (cp_stderr c') =
      length (cp_stdout c) + length (cp_stderr c) + min (room c) (length log)"
proof -
  have "stream_of Stdout c' = stream_of Stdout c @ on_stream Stdout (take (room c) log)"
    and "stream_of Stderr c' = stream_of Stderr c @ on_stream Stderr (take (room c) log)"
    using assms by (simp_all add: appended_def)
  then show "length (cp_stdout c') + length (cp_stderr c') =
      length (cp_stdout c) + length (cp_stderr c) + min (room c) (length log)"
    using length_on_streams [of "take (room c) log"] by (simp add: stream_of_def)
qed (use assms in \<open>simp add: appended_def\<close>)

lemma room_appended: "appended c log c' \<Longrightarrow> room c' = room c - length log"
  using appended_length [of c log c'] by (simp add: room_def)

lemma appended_refl [simp]: "appended c [] c"
  by (simp add: appended_def)

lemma appended_trans:
  assumes "appended c a c1" and "appended c1 b c2"
  shows "appended c (a @ b) c2"
  using assms room_appended [OF assms(1)] by (simp add: appended_def)

text \<open>The loop over the buffers, with \<open>n\<close> octets of the room used.\<close>

lemma write_bufs_spec:
  assumes "n < r"
  shows "write_bufs st r bs n c = (min r (n + length (concat bs)), extend_from st (take (r - n) (concat bs)) c)"
  using assms
proof (induction bs arbitrary: n c)
  case Nil
  then show ?case by (cases st) (simp_all add: extend_from_def)
next
  case (Cons b bs)
  have ext: "extend_from st y (extend_from st x c) = extend_from st (x @ y) c" for x y c
    by (cases st) (simp_all add: extend_from_def)
  show ?case
  proof (cases "n + length b < r")
    case True
    then have "min (r - n) (length b) = length b" and "n + length b \<noteq> r" and "r - n - length b = r - (n + length b)" by simp_all
    with True show ?thesis using Cons.IH [OF True] by (simp add: Let_def ext add.assoc)
  next
    case False
    then have "min (r - n) (length b) = r - n" and "n + (r - n) = r" using Cons.prems by simp_all
    with False show ?thesis by (simp add: Let_def)
  qed
qed

lemma write_vectored_appended: "appended c (tagged st bufs) (snd (write_vectored st bufs c))"
proof (cases "concat bufs = [] \<or> room c = 0")
  case True
  then show ?thesis
    by (elim disjE)
      (simp_all add: write_vectored_def appended_def tagged_def length_concat [symmetric] del: concat_eq_Nil_conv)
next
  case False
  then have "write_vectored st bufs c = (Inr (min (room c) (length (concat bufs))), extend_from st (take (room c) (concat bufs)) c)"
    by (simp add: write_vectored_def write_bufs_spec length_concat [symmetric] del: concat_eq_Nil_conv)
  then show ?thesis by (simp add: appended_def tagged_def take_map)
qed

lemma host_call_appended: "appended (wa_captured w) (written [(gc, d)]) (wa_captured (snd (host_call D gc w)))"
proof (cases gc)
  case (FdWrite st bufs)
  then show ?thesis using write_vectored_appended [of "wa_captured w" st bufs]
    by (simp add: host_call_def case_prod_unfold)
qed (simp_all add: host_call_def split: prod.splits sum.splits nat.splits)

lemma host_call_time [simp]: "wa_time (snd (host_call D gc w)) = wa_time w"
  by (cases gc) (simp_all add: host_call_def split: prod.splits sum.splits nat.splits)

lemma written_Cons: "written (x # calls) = written [x] @ written calls"
  by (cases x; cases "fst x") simp_all

section \<open>The time budget\<close>

abbreviation spent_after :: "'h wasi \<Rightarrow> (guest_call \<times> nat) list \<Rightarrow> nat" where
  "spent_after w calls \<equiv> ht_spent (wa_time w) + sum_list (map snd calls)"

text \<open>
  The calls a run makes: \<open>k\<close> of them, every one but the last returning within the budget; the run ends as the guest
  ends it when the last one is within the budget too, and in a trap otherwise.
\<close>

definition metered :: "(guest_call \<times> nat) list \<Rightarrow> nat \<Rightarrow> guest_end \<Rightarrow> 'h wasi \<Rightarrow> guest_end \<Rightarrow> bool" where
  "metered calls k ge w ended \<longleftrightarrow>
     k \<le> length calls \<and> (\<forall>m < k. spent_after w (take m calls) \<le> ht_budget (wa_time w)) \<and>
     (if spent_after w (take k calls) \<le> ht_budget (wa_time w) then k = length calls \<and> ended = ge
      else ended = Traps host_time_exhausted)"

lemma metered_Suc:
  assumes "metered calls k ge w1 ended" and "spent_after w [(gc, d)] \<le> ht_budget (wa_time w)"
    and "wa_time w1 = (wa_time w)\<lparr>ht_spent := spent_after w [(gc, d)]\<rparr>" and "ht_spent (wa_time w) \<le> ht_budget (wa_time w)"
  shows "metered ((gc, d) # calls) (Suc k) ge w ended"
proof -
  have step: "spent_after w1 xs = spent_after w ((gc, d) # xs)" and budget: "ht_budget (wa_time w1) = ht_budget (wa_time w)" for xs
    using assms(3) by simp_all
  have "spent_after w (take m ((gc, d) # calls)) \<le> ht_budget (wa_time w)" if "m < Suc k" for m
  proof (cases m)
    case (Suc m')
    then have "spent_after w1 (take m' calls) \<le> ht_budget (wa_time w1)" using assms(1) that by (simp add: metered_def)
    with Suc show ?thesis by (simp only: step budget take_Suc_Cons)
  qed (use assms(4) in simp)
  then show ?thesis using assms(1) unfolding metered_def step budget by (simp only: take_Suc_Cons) (auto split: if_splits)
qed

lemma run_guest_metered:
  assumes "ht_spent (wa_time w) \<le> ht_budget (wa_time w)" and "ht_budget (wa_time w) < DURATION_MAX"
    and "run_guest D calls ge w = (ended, w')"
  shows "\<exists>k. metered calls k ge w ended \<and> appended (wa_captured w) (written (take k calls)) (wa_captured w')"
  using assms
proof (induction calls arbitrary: w)
  case Nil
  then show ?case by (auto simp: metered_def)
next
  case (Cons x calls)
  obtain gc d where x [simp]: "x = (gc, d)" by fastforce
  let ?w1 = "snd (host_call D gc w)"
  let ?t = "(wa_time w)\<lparr>ht_spent := min (ht_spent (wa_time w) + d) DURATION_MAX\<rparr>"
  show ?case
  proof (cases "spent_after w [x] \<le> ht_budget (wa_time w)")
    case True
    then have t: "?t = (wa_time w)\<lparr>ht_spent := spent_after w [x]\<rparr>" using Cons.prems(2) by simp
    have "run_guest D calls ge (?w1\<lparr>wa_time := ?t\<rparr>) = (ended, w')"
      using Cons.prems(3) True by (simp add: returning_def Let_def t)
    from Cons.IH [OF _ _ this] obtain k where k: "metered calls k ge (?w1\<lparr>wa_time := ?t\<rparr>) ended"
      and app: "appended (wa_captured ?w1) (written (take k calls)) (wa_captured w')"
      using True Cons.prems(2) by (auto simp: t)
    have "metered (x # calls) (Suc k) ge w ended"
      using metered_Suc [OF k, of w gc d] True Cons.prems(1) by (simp add: t)
    moreover have "appended (wa_captured w) (written (take (Suc k) (x # calls))) (wa_captured w')"
      using appended_trans [OF host_call_appended [of w gc d D] app] by (simp add: written_Cons [of _ "take k calls"])
    ultimately show ?thesis by blast
  next
    case False
    then have "ended = Traps host_time_exhausted" and "wa_captured w' = wa_captured ?w1"
      using Cons.prems(2,3) by (auto simp: returning_def Let_def)
    with False Cons.prems(1) have "metered (x # calls) 1 ge w ended \<and>
        appended (wa_captured w) (written (take 1 (x # calls))) (wa_captured w')"
      using host_call_appended [of w gc d D] by (simp add: metered_def)
    then show ?thesis by blast
  qed
qed

section \<open>Invariants\<close>

text \<open>What holds while a guest runs, and what holds between the operations of the handle.\<close>

definition contained :: "'h \<Rightarrow> u64 \<Rightarrow> 'h wasi \<Rightarrow> bool" where
  "contained h limit w \<longleftrightarrow>
     cp_cap (wa_captured w) = unat limit \<and>
     length (cp_stdout (wa_captured w)) + length (cp_stderr (wa_captured w)) \<le> unat limit \<and>
     wa_host w = h \<and> wa_open w \<le> 256 \<and> wa_live w = of_nat (wa_open w)"

definition valid_env :: "'h wasi \<Rightarrow> bool" where
  "valid_env w \<longleftrightarrow>
     distinct (wa_env_keys w) \<and> (\<forall>k \<in> set (wa_env_keys w). k \<noteq> [] \<and> CHR ''='' \<notin> set k \<and> CHR 0x00 \<notin> set k) \<and>
     (\<not> wa_ran w \<longrightarrow> map fst (wa_env w) = wa_env_keys w)"

definition in_budget :: "u64 \<Rightarrow> 'h wasi \<Rightarrow> bool" where
  "in_budget fuel w \<longleftrightarrow>
     ht_budget (wa_time w) = 1000000000 + unat fuel * 1000 \<and>
     (\<not> wa_ran w \<longrightarrow> ht_spent (wa_time w) \<le> ht_budget (wa_time w))"

definition at_rest :: "'h \<Rightarrow> u64 \<Rightarrow> u64 \<Rightarrow> 'h wasi \<Rightarrow> bool" where
  "at_rest h fuel limit w \<longleftrightarrow> contained h limit w \<and> wa_open w = 0 \<and> valid_env w \<and> in_budget fuel w"

lemma appended_within:
  assumes "appended c log c'" and "length (cp_stdout c) + length (cp_stderr c) \<le> cp_cap c"
  shows "length (cp_stdout c') + length (cp_stderr c') \<le> cp_cap c'"
  using appended_length [OF assms(1)] assms(2) by (simp add: room_def)

lemma contained_time [simp]: "contained h limit (w\<lparr>wa_time := t\<rparr>) = contained h limit w"
  by (simp add: contained_def)

lemma live_lt: "n \<le> 256 \<Longrightarrow> (OPEN_DESCRIPTORS \<le> (of_nat n :: u64)) = (n = 256)"
  by (simp add: OPEN_DESCRIPTORS_def word_le_nat_alt unat_of_nat)

lemma open_file_contained:
  assumes "host_dir_ok D" and "n \<le> 256" and "open_file D path follow f read write (of_nat n) h = (r, live, h')"
  shows "h' = h \<and> (case r of Inl e \<Rightarrow> live = of_nat n | Inr _ \<Rightarrow> n < 256 \<and> live = of_nat (Suc n))"
proof -
  have "snd (hd_open D path follow f read False h) = h" if "\<not> modifies f write"
    using assms(1) that unfolding host_dir_ok_def modifies_def by blast
  with assms(2,3) show ?thesis
    by (auto simp: open_file_def slot_take_def slot_drop_def live_lt split: if_splits sum.splits prod.splits)
qed

lemma host_call_contained:
  assumes "host_dir_ok D" and "contained h limit w"
  shows "contained h limit (snd (host_call D gc w))"
proof (cases gc)
  case (FdWrite st bufs)
  have "appended (wa_captured w) (tagged st bufs) (snd (write_vectored st bufs (wa_captured w)))"
    by (rule write_vectored_appended)
  moreover from this have "cp_cap (snd (write_vectored st bufs (wa_captured w))) = cp_cap (wa_captured w)"
    by (simp add: appended_def)
  ultimately show ?thesis using appended_within assms(2) FdWrite
    by (fastforce simp: contained_def host_call_def case_prod_unfold)
next
  case (PathOpen path follow f rd wr)
  obtain r live h' where r: "open_file D path follow f rd wr (wa_live w) (wa_host w) = (r, live, h')" by (metis prod_cases3)
  with assms open_file_contained [OF assms(1), of "wa_open w" path follow f rd wr h r live h'] PathOpen show ?thesis
    by (auto simp: contained_def host_call_def split: sum.splits)
next
  case (FileRead op)
  have "snd (hd_file D op' h) = h" for op' using assms(1) by (simp add: host_dir_ok_def)
  then have "snd (counted_read D op h) = h" by (cases op) (simp_all add: counted_read_def)
  with assms(2) FileRead show ?thesis by (simp add: contained_def host_call_def case_prod_unfold)
next
  case FdClose
  with assms(2) show ?thesis by (auto simp: contained_def host_call_def slot_drop_def split: nat.splits)
qed (use assms(2) in \<open>simp_all add: host_call_def\<close>)

lemma run_guest_keeps:
  assumes "run_guest D calls ge w = (ended, w')" and "P w"
    and "\<And>w gc t. P w \<Longrightarrow> P ((snd (host_call D gc w))\<lparr>wa_time := t\<rparr>)"
  shows "P w'"
  using assms(1,2)
proof (induction calls arbitrary: w)
  case (Cons x calls)
  then show ?case by (cases x) (auto simp: Let_def intro: assms(3) split: prod.splits sum.splits)
qed simp

lemma run_guest_contained:
  assumes "host_dir_ok D" and "run_guest D calls ge w = (ended, w')" and "contained h limit w"
  shows "contained h limit w'"
  using assms(2,3) by (rule run_guest_keeps) (simp add: host_call_contained [OF assms(1)])

text \<open>A guest changes nothing of its configuration, and opens nothing without a preopen.\<close>

definition same_setup :: "'h wasi \<Rightarrow> 'h wasi \<Rightarrow> bool" where
  "same_setup w w' \<longleftrightarrow>
     wa_ran w' = wa_ran w \<and> wa_env w' = wa_env w \<and> wa_env_keys w' = wa_env_keys w \<and> wa_preopens w' = wa_preopens w \<and>
     (wa_preopens w = [] \<longrightarrow> wa_open w' \<le> wa_open w)"

lemma host_call_same_setup: "same_setup w (snd (host_call D gc w))"
  by (cases gc) (auto simp: same_setup_def host_call_def split: prod.splits sum.splits nat.splits)

lemma run_guest_same_setup:
  assumes "run_guest D calls ge w = (ended, w')"
  shows "same_setup w w'"
  using assms
proof (rule run_guest_keeps)
  show "same_setup w w" by (simp add: same_setup_def)
  show "same_setup w ((snd (host_call D gc v))\<lparr>wa_time := t\<rparr>)" if "same_setup w v" for v gc t
    using that host_call_same_setup [of v D gc] by (auto simp: same_setup_def)
qed

lemma run_guest_budget:
  assumes "run_guest D calls ge w = (ended, w')"
  shows "ht_budget (wa_time w') = ht_budget (wa_time w)"
  using assms
proof (induction calls arbitrary: w)
  case (Cons x calls)
  then show ?case by (cases x) (auto simp: Let_def returning_def split: if_splits)
qed simp

lemma for_fuel_budget: "ht_budget (for_fuel fuel) = 1000000000 + unat fuel * 1000" "ht_budget (for_fuel fuel) < DURATION_MAX"
proof -
  have "1000000000 + unat fuel * 1000 < DURATION_MAX" using unsigned_less [of fuel, where ?'a = nat] by (simp add: DURATION_MAX_def)
  then show "ht_budget (for_fuel fuel) = 1000000000 + unat fuel * 1000" "ht_budget (for_fuel fuel) < DURATION_MAX"
    by (simp_all add: for_fuel_def)
qed

lemma run_guest_spent:
  assumes "run_guest D calls ge w = (ended, w')" and "ended \<noteq> Traps host_time_exhausted"
    and "ht_spent (wa_time w) \<le> ht_budget (wa_time w)"
  shows "ht_spent (wa_time w') \<le> ht_budget (wa_time w')"
  using assms
proof (induction calls arbitrary: w)
  case (Cons x calls)
  then show ?case by (cases x) (auto simp: Let_def returning_def split: if_splits)
qed simp

lemma at_rest_load:
  assumes "host_dir_ok D" and "wasi_load D loaded h path fuel limit = Inr w"
  shows "at_rest h fuel limit w"
proof -
  from assms(2) obtain calls ge where run: "run_guest D calls ge (new_wasi h fuel limit) = (Returns, w)"
    by (auto simp: wasi_load_def split: if_splits sum.splits option.splits bool.splits prod.splits guest_end.splits)
  have "contained h limit (new_wasi h fuel limit)" by (simp add: contained_def new_wasi_def)
  from run_guest_contained [OF assms(1) run this] have "contained h limit w" .
  moreover have "wa_open w = 0" and "valid_env w"
    using run_guest_same_setup [OF run] by (simp_all add: same_setup_def new_wasi_def valid_env_def)
  moreover have "in_budget fuel w"
    using run_guest_budget [OF run] run_guest_spent [OF run] for_fuel_budget [of fuel]
    by (simp add: in_budget_def new_wasi_def for_fuel_def)
  ultimately show ?thesis by (simp add: at_rest_def)
qed

lemma slot_drop_all: "(slot_drop ^^ n) (of_nat n) = 0"
  by (induction n) (simp_all add: funpow_swap1 [symmetric] slot_drop_def del: funpow.simps(2) add: funpow_Suc_right)

lemma ready_ok: "ready l what w = Inr u \<longleftrightarrow> l = Free \<and> \<not> wa_ran w"
  by (cases l) (simp_all add: ready_def try_lock_def not_run_yet_def)

lemma at_rest_run:
  assumes "host_dir_ok D" and "at_rest h fuel limit w"
  shows "at_rest h fuel limit (snd (wasi_run D l calls ge w))"
proof (cases "ready l ''wasi-run'' w")
  case (Inr u)
  obtain ended w' where run: "run_guest D calls ge (w\<lparr>wa_ran := True\<rparr>) = (ended, w')" by fastforce
  have "contained h limit (w\<lparr>wa_ran := True\<rparr>)" using assms(2) by (simp add: at_rest_def contained_def)
  from run_guest_contained [OF assms(1) run this] have "contained h limit (fresh_wasi w')" and "wa_open (fresh_wasi w') = 0"
    by (auto simp: contained_def fresh_wasi_def slot_drop_all)
  moreover have "valid_env (fresh_wasi w')" and "in_budget fuel (fresh_wasi w')"
    using run_guest_same_setup [OF run] run_guest_budget [OF run] assms(2)
    by (simp_all add: at_rest_def valid_env_def same_setup_def in_budget_def fresh_wasi_def)
  ultimately show ?thesis using Inr run by (simp add: at_rest_def wasi_run_def)
qed (use assms(2) in \<open>simp add: wasi_run_def\<close>)

lemma wasi_env_cases:
  "snd (wasi_env debug pushed l k v w) = w \<or>
   \<not> wa_ran w \<and> k \<noteq> [] \<and> CHR ''='' \<notin> set k \<and> CHR 0x00 \<notin> set k \<and> k \<notin> set (wa_env_keys w) \<and>
   snd (wasi_env debug pushed l k v w) = w\<lparr>wa_env := wa_env w @ [(k, v)], wa_env_keys := wa_env_keys w @ [k]\<rparr>"
proof (cases "bindR (ready l ''wasi-env'' w) (\<lambda>_. bindR (no_nul ''wasi-env'' k) (\<lambda>_. no_nul ''wasi-env'' v))")
  case (Inr u)
  then have "\<not> wa_ran w" and "CHR 0x00 \<notin> set k"
    by (auto simp: bindR_eq_Inr ready_ok no_nul_def split: if_splits)
  then show ?thesis by (simp add: wasi_env_def Inr split: sum.splits)
qed (simp add: wasi_env_def)

lemma at_rest_env:
  assumes "at_rest h fuel limit w"
  shows "at_rest h fuel limit (snd (wasi_env debug pushed l k v w))"
  using wasi_env_cases [of debug pushed l k v w]
proof (elim disjE conjE)
  assume "\<not> wa_ran w" and "k \<noteq> []" and "CHR ''='' \<notin> set k" and "CHR 0x00 \<notin> set k" and "k \<notin> set (wa_env_keys w)"
    and "snd (wasi_env debug pushed l k v w) = w\<lparr>wa_env := wa_env w @ [(k, v)], wa_env_keys := wa_env_keys w @ [k]\<rparr>"
  then show ?thesis using assms by (auto simp: at_rest_def contained_def valid_env_def in_budget_def)
qed (use assms in simp)

lemma at_rest_step:
  assumes "wasi_step D w w'" and "host_dir_ok D" and "at_rest h fuel limit w"
  shows "at_rest h fuel limit w'"
  using assms
proof cases
  case (env debug pushed l k v)
  with assms(3) show ?thesis by (simp add: at_rest_env)
next
  case (run l calls ge)
  with assms(2,3) show ?thesis by (simp add: at_rest_run)
qed (auto simp: wasi_arg_def wasi_preopen_def wasi_stdin_def at_rest_def contained_def valid_env_def in_budget_def
     split: sum.splits)

lemma reach_at_rest:
  assumes "wasi_reach D h fuel limit w" and "host_dir_ok D"
  shows "at_rest h fuel limit w"
  using assms by (induction) (auto intro: at_rest_load at_rest_step)

text \<open>A spent instance changes no more.\<close>

lemma spent_is_final:
  assumes "wasi_step D w w'" and "wa_ran w"
  shows "w' = w"
proof -
  have "\<exists>e. ready l what w = Inl e" for l what
    using ready_ok [of l what w] assms(2) by (cases "ready l what w") auto
  then obtain e where e: "ready l what w = Inl (e l what)" for l what by metis
  show ?thesis using assms(1)
    by cases (simp_all add: wasi_arg_def wasi_env_def wasi_preopen_def wasi_stdin_def wasi_run_def bindR_def e)
qed

section \<open>Properties\<close>

text \<open>
  (C35) The sandbox contains the guest.  However an instance is used, and whatever its guest calls: the captured
  output of both streams never exceeds the memory limit, the host's file system is as it was before the load,
  the environment names given are distinct and valid, and between the operations no descriptor is held.  During a run
  the counter of descriptors is exactly the number the guest holds, at most 256, and the output and the file system keep
  their bounds.  A run spends the instance: no later operation changes it.
\<close>

theorem sandbox_contains:
  assumes "host_dir_ok D" and "wasi_reach D h fuel limit w"
  shows "length (cp_stdout (wa_captured w)) + length (cp_stderr (wa_captured w)) \<le> unat limit \<and> wa_host w = h \<and>
    valid_env w \<and> wa_live w = 0 \<and>
    (\<forall>calls ge ended w'. run_guest D calls ge w = (ended, w') \<longrightarrow> contained h limit w') \<and>
    (\<forall>calls ge. wa_ran (snd (wasi_run D Free calls ge w))) \<and>
    (wa_ran w \<longrightarrow> (\<forall>w'. wasi_step D w w' \<longrightarrow> w' = w))"
proof -
  have rest: "contained h limit w" "wa_open w = 0" "valid_env w"
    using reach_at_rest [OF assms(2,1)] by (simp_all add: at_rest_def)
  have "contained h limit w'" if "run_guest D calls ge w = (ended, w')" for calls ge ended w'
    by (rule run_guest_contained [OF assms(1) that rest(1)])
  moreover have "wa_ran (snd (wasi_run D Free calls ge w))" for calls ge
    using run_guest_same_setup [of D calls ge "w\<lparr>wa_ran := True\<rparr>"]
    by (auto simp: wasi_run_def ready_def try_lock_def not_run_yet_def fresh_wasi_def same_setup_def
        split: sum.splits prod.splits)
  ultimately show ?thesis using rest spent_is_final by (auto simp: contained_def)
qed

text \<open>A directory of regular files whose state counts the changes, and an instance with it and three octets of memory.\<close>

definition plain_dir :: "nat host_dir" where
  "plain_dir =
     \<lparr>hd_filestat = (\<lambda>h path follow. Inr RegularFile),
      hd_open = (\<lambda>path follow f rd wr h. (Inr (), if modifies f wr then Suc h else h)),
      hd_read = (\<lambda>h op. Inr []), hd_file = (\<lambda>op h. (Inr ''x'', h))\<rparr>"

definition plain_wasi :: "nat wasi" where
  "plain_wasi = snd (wasi_preopen (\<lambda>_. Inr ()) (Inr ()) Free ''/srv'' ''/'' (new_wasi 0 1 3))"

lemma plain_dir_ok: "host_dir_ok plain_dir"
  by (simp add: host_dir_ok_def plain_dir_def)

lemma plain_wasi_reach: "wasi_reach plain_dir 0 1 3 plain_wasi"
proof -
  have "wasi_load plain_dir (\<lambda>_. Inr \<lparr>wm_start = Some True, wm_section = ([], Returns)\<rparr>) 0 ''m.wasm'' 1 3 = Inr (new_wasi 0 1 3)"
    by (simp add: wasi_load_def)
  from wasi_reach.step [OF wasi_reach.load [OF this] wasi_step.preopen] show ?thesis unfolding plain_wasi_def .
qed

lemmas plain_simps = plain_wasi_def wasi_preopen_def ready_def try_lock_def not_run_yet_def new_wasi_def for_fuel_def
  host_call_def counted_read_def write_vectored_def room_def extend_from_def returning_def plain_dir_def modifies_def open_file_def
  slot_take_def slot_drop_def OPEN_DESCRIPTORS_def DURATION_MAX_def Let_def

definition demo_calls :: "(guest_call \<times> nat) list" where
  "demo_calls =
     [(PathOpen ''a'' True \<lparr>of_create = False, of_truncate = False, of_exclusive = False\<rparr> True False, 5),
      (FileRead (ReadVectored [1]), 5), (FdWrite Stdout [''ab'', []], 5), (FdWrite Stderr [''xyz''], 5)]"

theorem sandbox_contains_witness:
  "\<exists>w'. run_guest plain_dir demo_calls Returns plain_wasi = (Returns, w') \<and> contained 0 3 w' \<and> wa_open w' = 1 \<and>
     wa_ran (snd (wasi_run plain_dir Free demo_calls Returns plain_wasi))"
proof -
  obtain ended w' where run: "run_guest plain_dir demo_calls Returns plain_wasi = (ended, w')" by fastforce
  moreover from this have "ended = Returns \<and> wa_open w' = 1"
    by (auto simp: demo_calls_def plain_simps)
  ultimately show ?thesis using sandbox_contains [OF plain_dir_ok plain_wasi_reach] by auto
qed

text \<open>
  (C36) A run against its specification.  On an instance that has not run, \<^verbatim>\<open>run\<close> makes some \<open>k\<close> of the guest's host
  calls: every one before the last returned within the time budget of a second plus a microsecond per unit of fuel;
  when the last one did too the guest's own end is the outcome and no call was cut off, else the run is a trap.  The
  output grows by what those calls wrote, as one log of both streams cut at the room the memory limit leaves.
\<close>

theorem run_meets_spec:
  assumes "host_dir_ok D" and "wasi_reach D h fuel limit w" and "\<not> wa_ran w"
    and "wasi_run D Free calls ge w = (res, w')"
  shows "ht_budget (wa_time w) = 1000000000 + unat fuel * 1000 \<and>
    (\<exists>k ended. metered calls k ge w ended \<and> res = run_outcome ended \<and>
      appended (wa_captured w) (written (take k calls)) (wa_captured w')) \<and>
    (\<forall>l what. ready l what w' \<noteq> Inr ())"
proof -
  have b: "in_budget fuel w" using reach_at_rest [OF assms(2,1)] by (simp add: at_rest_def)
  let ?w = "w\<lparr>wa_ran := True\<rparr>"
  obtain ended w1 where run: "run_guest D calls ge ?w = (ended, w1)" by fastforce
  have res: "res = run_outcome ended" and w': "w' = fresh_wasi w1"
    using assms(3,4) run by (simp_all add: wasi_run_def ready_def try_lock_def not_run_yet_def)
  have budget: "ht_budget (wa_time w) = 1000000000 + unat fuel * 1000" and "ht_spent (wa_time ?w) \<le> ht_budget (wa_time ?w)"
    and "ht_budget (wa_time ?w) < DURATION_MAX"
    using b assms(3) for_fuel_budget [of fuel] by (simp_all add: in_budget_def)
  from run_guest_metered [OF this(2,3) run] obtain k where "metered calls k ge ?w ended"
    and app: "appended (wa_captured ?w) (written (take k calls)) (wa_captured w1)" by blast
  then have "metered calls k ge w ended" by (auto simp: metered_def split: if_splits)
  moreover have "wa_captured w' = wa_captured w1" and "wa_ran w'"
    using run_guest_same_setup [OF run] by (simp_all add: w' fresh_wasi_def same_setup_def)
  ultimately show ?thesis using budget app res ready_ok by fastforce
qed

theorem run_meets_spec_witness:
  "\<exists>w' k ended. wasi_run plain_dir Free demo_calls (Exits 7) plain_wasi = (Inr 7, w') \<and>
     metered demo_calls k (Exits 7) plain_wasi ended \<and> run_outcome ended = Inr 7 \<and>
     appended (wa_captured plain_wasi) (written (take k demo_calls)) (wa_captured w') \<and>
     wasi_stdout Free w' = Inr ''ab'' \<and> wasi_stderr Free w' = Inr ''x''"
proof -
  obtain res w' where run: "wasi_run plain_dir Free demo_calls (Exits 7) plain_wasi = (res, w')" by fastforce
  have fresh: "\<not> wa_ran plain_wasi" by (simp add: plain_simps)
  have out: "res = Inr 7 \<and> wasi_stdout Free w' = Inr ''ab'' \<and> wasi_stderr Free w' = Inr ''x''"
    using run by (auto simp: wasi_run_def demo_calls_def plain_simps run_outcome_def fresh_wasi_def wasi_stdout_def
        wasi_stderr_def stream_of_def)
  with run_meets_spec [OF plain_dir_ok plain_wasi_reach fresh run] run show ?thesis by fastforce
qed

end
