(* ===== verification/Handle_Cell.thy ===== *)
theory Handle_Cell
  imports Shim_Exec Schedule
begin

text \<open>
  \<^verbatim>\<open>lisp/src/handle.lisp\<close>: the cells that own Rust objects on the Lisp side, and how calls, frees, finalizers and image
  restores on them interleave.  Each critical section under a cell's lock is one definition; the foreign calls happen
  outside the lock, on the runtime of the library generation they belong to.
\<close>

section \<open>Cells\<close>

datatype cell_state = Live | FreePending | Freed

text \<open>\<open>cl_free_fn\<close>: the free shim, named by the generation of the library it was resolved in.\<close>

record cell =
  cl_ptr :: ptr
  cl_state :: cell_state
  cl_generation :: nat
  cl_session :: nat
  cl_in_flight :: nat
  cl_free_fn :: nat

definition make_cell :: "ptr \<Rightarrow> nat \<Rightarrow> nat \<Rightarrow> nat \<Rightarrow> cell" where
  "make_cell p generation session free_fn =
     \<lparr>cl_ptr = p, cl_state = Live, cl_generation = generation, cl_session = session, cl_in_flight = 0, cl_free_fn = free_fn\<rparr>"

datatype handle_error = FreedHandle bytes | StaleHandle bytes nat nat | CrateNotLoaded | NoFreeShim bytes

definition cell_begin_call :: "nat \<Rightarrow> nat \<Rightarrow> bytes \<Rightarrow> cell \<Rightarrow> (handle_error, cell) result" where
  "cell_begin_call session birth_generation fn_name c =
     (if cl_state c \<in> {Freed, FreePending} then Inl (FreedHandle fn_name)
      else if cl_session c \<noteq> session then Inl (StaleHandle fn_name (cl_generation c) birth_generation)
      else if cl_generation c \<noteq> birth_generation then Inl (StaleHandle fn_name (cl_generation c) birth_generation)
      else Inr (c\<lparr>cl_in_flight := Suc (cl_in_flight c)\<rparr>))"

text \<open>What is to be freed after the lock is released: the object and its shim.  The slot's type has no number below 0.\<close>

definition cell_end_call :: "cell \<Rightarrow> (cell \<times> (ptr \<times> nat) option) option" where
  "cell_end_call c =
     (if cl_in_flight c = 0 then None
      else let n = cl_in_flight c - 1; c' = c\<lparr>cl_in_flight := n\<rparr>
           in if cl_state c' = FreePending \<and> n = 0 then Some (c'\<lparr>cl_state := Freed\<rparr>, Some (cl_ptr c', cl_free_fn c'))
              else Some (c', None))"

definition maybe_foreign_free :: "nat \<Rightarrow> cell \<Rightarrow> ptr \<times> nat \<Rightarrow> (ptr \<times> nat) option" where
  "maybe_foreign_free session c target = (if cl_session c = session then Some target else None)"

definition cell_free :: "cell \<Rightarrow> bool \<times> cell \<times> (ptr \<times> nat) option" where
  "cell_free c =
     (case cl_state c of
        Live \<Rightarrow>
          if cl_in_flight c = 0 then (True, c\<lparr>cl_state := Freed\<rparr>, Some (cl_ptr c, cl_free_fn c))
          else (True, c\<lparr>cl_state := FreePending\<rparr>, None)
      | _ \<Rightarrow> (False, c, None))"

section \<open>Wrappers\<close>

text \<open>
  From \<^verbatim>\<open>lisp/src/codegen.lisp\<close>: the context a wrapper was born with, its gate against an image that is no more, and
  the cell it makes for a returned handle.
\<close>

record gen_ctx =
  gx_generation :: nat
  gx_session :: nat
  gx_free_table :: "(bytes \<times> nat) list"

definition wrapper_gate :: "nat \<Rightarrow> gen_ctx \<Rightarrow> (handle_error, unit) result" where
  "wrapper_gate session x = (if gx_session x = session then Inr () else Inl CrateNotLoaded)"

definition make_crate_handle :: "gen_ctx \<Rightarrow> bytes \<Rightarrow> ptr \<Rightarrow> (handle_error, cell) result" where
  "make_crate_handle x rust_name p =
     (case map_of (gx_free_table x) rust_name of
        None \<Rightarrow> Inl (NoFreeShim rust_name)
      | Some fn \<Rightarrow> Inr (make_cell p (gx_generation x) (gx_session x) fn))"

text \<open>The loader resolves the free shims of a generation in that generation's library.\<close>

definition ctx_ok :: "gen_ctx \<Rightarrow> bool" where
  "ctx_ok x \<longleftrightarrow> (\<forall>e\<in>set (gx_free_table x). snd e = gx_generation x)"

section \<open>The image\<close>

text \<open>
  \<open>im_rt\<close>: the runtime of each library generation in this process.  \<open>im_calls\<close>: the foreign calls between
  \<open>cell_begin_call\<close> and \<open>cell_end_call\<close>, each with its cell and its wrapper's generation.  \<open>im_frees\<close>: the frees decided
  under a lock and not yet carried out.  \<open>im_freed\<close>: the cells whose free shim has been called.
\<close>

record 'h image =
  im_session :: nat
  im_rt :: "nat \<Rightarrow> 'h runtime"
  im_cells :: "cell list"
  im_calls :: "(nat \<times> nat) list"
  im_frees :: "(nat \<times> ptr \<times> nat) list"
  im_freed :: "nat list"

definition later :: "nat \<Rightarrow> (ptr \<times> nat) option \<Rightarrow> (nat \<times> ptr \<times> nat) list" where
  "later i out = (case out of None \<Rightarrow> [] | Some target \<Rightarrow> [(i, target)])"

definition restore_image :: "'h image \<Rightarrow> 'h image" where
  "restore_image s = s\<lparr>im_session := Suc (im_session s), im_rt := (\<lambda>_. init_runtime), im_calls := [], im_frees := []\<rparr>"

text \<open>
  A destructor may use the runtime, but no handle is reachable from it.  \<open>foreign\<close> stands for everything a library does
  that leaves its table of handles alone; \<open>method_call\<close> for a method that changes the object it was called on.
\<close>

definition dtor_ok :: "('h, unit) destructor \<Rightarrow> bool" where
  "dtor_ok dtor \<longleftrightarrow> (\<forall>v s. handles (snd (dtor v s)) = handles s)"

inductive cell_step :: "('h, unit) destructor \<Rightarrow> 'h image \<Rightarrow> 'h image \<Rightarrow> bool" for dtor where
  construct: "wrapper_gate (im_session s) x = Inr () \<Longrightarrow> ctx_ok x \<Longrightarrow> make_crate_handle x rust_name p = Inr c \<Longrightarrow>
     p \<noteq> 0 \<Longrightarrow> handles (im_rt s (gx_generation x)) p = None \<Longrightarrow>
     cell_step dtor s (s\<lparr>im_rt := (im_rt s)(gx_generation x := snd (handle_new p v (im_rt s (gx_generation x)))),
        im_cells := im_cells s @ [c]\<rparr>)"
| begin_call: "i < length (im_cells s) \<Longrightarrow> wrapper_gate (im_session s) x = Inr () \<Longrightarrow>
     cell_begin_call (im_session s) (gx_generation x) fn_name (im_cells s ! i) = Inr c \<Longrightarrow>
     cell_step dtor s (s\<lparr>im_cells := (im_cells s)[i := c], im_calls := (i, gx_generation x) # im_calls s\<rparr>)"
| method_call: "(i, g) \<in> set (im_calls s) \<Longrightarrow> handle_ref (cl_ptr (im_cells s ! i)) (im_rt s g) = Some v \<Longrightarrow>
     cell_step dtor s (s\<lparr>im_rt := (im_rt s)(g := (im_rt s g)\<lparr>handles := (handles (im_rt s g))(cl_ptr (im_cells s ! i) \<mapsto> v')\<rparr>)\<rparr>)"
| foreign: "handles r = handles (im_rt s g) \<Longrightarrow> cell_step dtor s (s\<lparr>im_rt := (im_rt s)(g := r)\<rparr>)"
| end_call: "im_calls s = xs @ (i, g) # ys \<Longrightarrow> cell_end_call (im_cells s ! i) = Some (c, out) \<Longrightarrow>
     cell_step dtor s (s\<lparr>im_cells := (im_cells s)[i := c], im_calls := xs @ ys, im_frees := im_frees s @ later i out\<rparr>)"
| free: "i < length (im_cells s) \<Longrightarrow> cell_free (im_cells s ! i) = (ret, c, out) \<Longrightarrow>
     cell_step dtor s (s\<lparr>im_cells := (im_cells s)[i := c], im_frees := im_frees s @ later i out\<rparr>)"
| foreign_free: "im_frees s = xs @ (i, target) # ys \<Longrightarrow> maybe_foreign_free (im_session s) (im_cells s ! i) target = Some (p, fn) \<Longrightarrow>
     free_shim dtor p (im_rt s fn) = Some (panicked, r) \<Longrightarrow>
     cell_step dtor s (s\<lparr>im_rt := (im_rt s)(fn := r), im_frees := xs @ ys, im_freed := i # im_freed s\<rparr>)"
| no_foreign_free: "im_frees s = xs @ (i, target) # ys \<Longrightarrow> maybe_foreign_free (im_session s) (im_cells s ! i) target = None \<Longrightarrow>
     cell_step dtor s (s\<lparr>im_frees := xs @ ys\<rparr>)"
| restore: "cell_step dtor s (restore_image s)"

definition image_init :: "'h image" where
  "image_init = \<lparr>im_session = 0, im_rt = (\<lambda>_. init_runtime), im_cells = [], im_calls = [], im_frees = [], im_freed = []\<rparr>"

inductive cell_reach :: "('h, unit) destructor \<Rightarrow> 'h image \<Rightarrow> bool" for dtor where
  start: "cell_reach dtor image_init"
| step: "cell_reach dtor s \<Longrightarrow> cell_step dtor s s' \<Longrightarrow> cell_reach dtor s'"

section \<open>Ownership\<close>

abbreviation calls_on :: "'h image \<Rightarrow> nat \<Rightarrow> nat" where
  "calls_on s i \<equiv> count_list (map fst (im_calls s)) i"

abbreviation frees_of :: "'h image \<Rightarrow> nat \<Rightarrow> nat" where
  "frees_of s i \<equiv> count_list (map fst (im_frees s)) i"

abbreviation freed_of :: "'h image \<Rightarrow> nat \<Rightarrow> nat" where
  "freed_of s i \<equiv> count_list (im_freed s) i"

text \<open>What holds of a cell of this session.\<close>

definition owns :: "'h image \<Rightarrow> nat \<Rightarrow> cell \<Rightarrow> bool" where
  "owns s i c \<longleftrightarrow>
     cl_free_fn c = cl_generation c \<and> cl_ptr c \<noteq> 0 \<and> cl_in_flight c = calls_on s i \<and>
     frees_of s i + freed_of s i = of_bool (cl_state c = Freed) \<and>
     (cl_state c = FreePending \<longrightarrow> calls_on s i \<noteq> 0) \<and> (cl_state c = Freed \<longrightarrow> calls_on s i = 0) \<and>
     (freed_of s i = 0 \<longrightarrow> handles (im_rt s (cl_generation c)) (cl_ptr c) \<noteq> None)"

definition cell_ok :: "'h image \<Rightarrow> nat \<Rightarrow> bool" where
  "cell_ok s i \<longleftrightarrow>
     (let c = im_cells s ! i
      in cl_session c \<le> im_session s \<and> freed_of s i \<le> 1 \<and> (cl_session c = im_session s \<longrightarrow> owns s i c))"

definition entries_ok :: "'h image \<Rightarrow> bool" where
  "entries_ok s \<longleftrightarrow>
     (\<forall>(i, g)\<in>set (im_calls s). i < length (im_cells s) \<and> cl_session (im_cells s ! i) = im_session s \<and>
        cl_generation (im_cells s ! i) = g) \<and>
     (\<forall>(i, p, fn)\<in>set (im_frees s). i < length (im_cells s) \<and> p = cl_ptr (im_cells s ! i) \<and> fn = cl_free_fn (im_cells s ! i)) \<and>
     (\<forall>i\<in>set (im_freed s). i < length (im_cells s))"

text \<open>No two cells of this session own the same object.\<close>

definition holds :: "'h image \<Rightarrow> nat \<Rightarrow> (nat \<times> ptr) option" where
  "holds s i =
     (if i < length (im_cells s) \<and> cl_session (im_cells s ! i) = im_session s \<and> freed_of s i = 0
      then Some (cl_generation (im_cells s ! i), cl_ptr (im_cells s ! i)) else None)"

definition unique_owner :: "'h image \<Rightarrow> bool" where
  "unique_owner s \<longleftrightarrow> (\<forall>i j. holds s i \<noteq> None \<longrightarrow> holds s i = holds s j \<longrightarrow> i = j)"

definition image_ok :: "'h image \<Rightarrow> bool" where
  "image_ok s \<longleftrightarrow> (\<forall>i < length (im_cells s). cell_ok s i) \<and> entries_ok s \<and> unique_owner s"

lemma image_okD:
  assumes "image_ok s"
  shows "i < length (im_cells s) \<Longrightarrow> cell_ok s i"
    and "(i, g) \<in> set (im_calls s) \<Longrightarrow>
      i < length (im_cells s) \<and> cl_session (im_cells s ! i) = im_session s \<and> cl_generation (im_cells s ! i) = g"
    and "(i, p, fn) \<in> set (im_frees s) \<Longrightarrow> i < length (im_cells s) \<and> p = cl_ptr (im_cells s ! i) \<and> fn = cl_free_fn (im_cells s ! i)"
    and "i \<in> set (im_freed s) \<Longrightarrow> i < length (im_cells s)"
    and "holds s i \<noteq> None \<Longrightarrow> holds s i = holds s j \<Longrightarrow> i = j"
  using assms by (auto simp: image_ok_def entries_ok_def unique_owner_def)

lemma unique_cong: "holds s' = holds s \<Longrightarrow> unique_owner s \<Longrightarrow> unique_owner s'"
  by (simp only: unique_owner_def)

lemma entries_okI:
  assumes "\<And>i g. (i, g) \<in> set (im_calls s) \<Longrightarrow>
      i < length (im_cells s) \<and> cl_session (im_cells s ! i) = im_session s \<and> cl_generation (im_cells s ! i) = g"
    and "\<And>i p fn. (i, p, fn) \<in> set (im_frees s) \<Longrightarrow>
      i < length (im_cells s) \<and> p = cl_ptr (im_cells s ! i) \<and> fn = cl_free_fn (im_cells s ! i)"
    and "\<And>i. i \<in> set (im_freed s) \<Longrightarrow> i < length (im_cells s)"
  shows "entries_ok s"
  unfolding entries_ok_def using assms by blast

lemma cell_okD:
  assumes "image_ok s" and "i < length (im_cells s)"
  shows "cl_session (im_cells s ! i) \<le> im_session s" and "freed_of s i \<le> 1"
    and "cl_session (im_cells s ! i) = im_session s \<Longrightarrow> owns s i (im_cells s ! i)"
  using image_okD(1) [OF assms] by (simp_all add: cell_ok_def Let_def)

lemma fresh_index:
  assumes "image_ok s"
  shows "calls_on s (length (im_cells s)) = 0" and "frees_of s (length (im_cells s)) = 0" and "freed_of s (length (im_cells s)) = 0"
  using image_okD(2-4) [OF assms] by (fastforce simp: count_list_0_iff)+

lemma owns_mono:
  assumes "owns s i c" and "calls_on s' i = calls_on s i" and "frees_of s' i = frees_of s i" and "freed_of s' i = freed_of s i"
    and "handles (im_rt s (cl_generation c)) (cl_ptr c) \<noteq> None \<Longrightarrow> handles (im_rt s' (cl_generation c)) (cl_ptr c) \<noteq> None"
  shows "owns s' i c"
  using assms unfolding owns_def by simp

text \<open>A step that leaves every cell, its counts and its object alone.\<close>

definition quiet :: "'h image \<Rightarrow> 'h image \<Rightarrow> bool" where
  "quiet s s' \<longleftrightarrow>
     im_session s' = im_session s \<and> im_cells s' = im_cells s \<and> im_calls s' = im_calls s \<and> im_frees s' = im_frees s \<and>
     im_freed s' = im_freed s \<and> (\<forall>g p. handles (im_rt s g) p \<noteq> None \<longrightarrow> handles (im_rt s' g) p \<noteq> None)"

lemma quiet_ok:
  assumes "quiet s s'" and "image_ok s"
  shows "image_ok s'"
proof -
  note q = assms(1) [unfolded quiet_def]
  have "cell_ok s' i" if "i < length (im_cells s)" for i
    using image_okD(1) [OF assms(2) that] owns_mono [of s i "im_cells s ! i" s'] q by (simp add: cell_ok_def Let_def)
  moreover have "entries_ok s'" using assms(2) q by (simp add: image_ok_def entries_ok_def)
  moreover have "holds s' = holds s" using q by (auto simp: holds_def)
  with assms(2) have "unique_owner s'" using unique_cong image_ok_def by blast
  ultimately show ?thesis using q by (simp add: image_ok_def)
qed

lemma construct_ok:
  assumes "image_ok s" and "gx_session x = im_session s" and "ctx_ok x" and "make_crate_handle x rust_name p = Inr c"
    and "p \<noteq> 0" and "handles (im_rt s (gx_generation x)) p = None"
  shows "image_ok (s\<lparr>im_rt := (im_rt s)(gx_generation x := snd (handle_new p v (im_rt s (gx_generation x)))),
    im_cells := im_cells s @ [c]\<rparr>)" (is "image_ok ?s")
proof -
  let ?n = "length (im_cells s)"
  have c: "c = make_cell p (gx_generation x) (im_session s) (gx_generation x)"
    using assms(2-4) by (force simp: make_crate_handle_def ctx_ok_def dest: map_of_SomeD split: option.splits)
  have mono: "handles (im_rt s g) q \<noteq> None \<Longrightarrow> handles (im_rt ?s g) q \<noteq> None" for g q by (auto simp: handle_new_def)
  have "cell_ok ?s i" if "i < length (im_cells ?s)" for i
  proof (cases "i = ?n")
    case True
    then show ?thesis using fresh_index [OF assms(1)] assms(5) by (simp add: cell_ok_def owns_def c make_cell_def handle_new_def)
  next
    case False
    then have "i < ?n" using that by simp
    with image_okD(1) [OF assms(1) this] owns_mono [of s i "im_cells s ! i" ?s] mono show ?thesis
      by (simp add: cell_ok_def Let_def nth_append)
  qed
  moreover have "entries_ok ?s"
  proof (rule entries_okI)
    fix i g assume "(i, g) \<in> set (im_calls ?s)"
    with image_okD(2) [OF assms(1), of i g] show "i < length (im_cells ?s) \<and>
        cl_session (im_cells ?s ! i) = im_session ?s \<and> cl_generation (im_cells ?s ! i) = g" by (simp add: nth_append)
  next
    fix i p fn assume "(i, p, fn) \<in> set (im_frees ?s)"
    with image_okD(3) [OF assms(1), of i p fn] show "i < length (im_cells ?s) \<and>
        p = cl_ptr (im_cells ?s ! i) \<and> fn = cl_free_fn (im_cells ?s ! i)" by (simp add: nth_append)
  next
    fix i assume "i \<in> set (im_freed ?s)"
    with image_okD(4) [OF assms(1), of i] show "i < length (im_cells ?s)" by simp
  qed
  moreover have "unique_owner ?s"
  proof -
    have old: "holds ?s i = holds s i" if "i \<noteq> ?n" for i
      using that by (auto simp: holds_def nth_append)
    have new: "holds ?s ?n = Some (gx_generation x, p)"
      using fresh_index(3) [OF assms(1)] by (simp add: holds_def c make_cell_def)
    have "holds s i \<noteq> Some (gx_generation x, p)" for i
      using cell_okD(3) [OF assms(1), of i] assms(6) by (auto simp: holds_def owns_def split: if_splits)
    note new_only = this
    show ?thesis
      unfolding unique_owner_def
    proof (intro allI impI)
      fix i j assume h: "holds ?s i \<noteq> None" "holds ?s i = holds ?s j"
      show "i = j"
      proof (cases "i = ?n \<or> j = ?n")
        case True
        with h(2) new new_only old show ?thesis by (cases "i = ?n"; cases "j = ?n") auto
      next
        case False
        with h old have "holds s i \<noteq> None" "holds s i = holds s j" by simp_all
        then show ?thesis by (rule image_okD(5) [OF assms(1)])
      qed
    qed
  qed
  ultimately show ?thesis by (simp add: image_ok_def)
qed

text \<open>A step at one cell, which keeps what it is a cell of.\<close>

definition same_cell :: "cell \<Rightarrow> cell \<Rightarrow> bool" where
  "same_cell c c' \<longleftrightarrow>
     cl_ptr c' = cl_ptr c \<and> cl_generation c' = cl_generation c \<and> cl_session c' = cl_session c \<and> cl_free_fn c' = cl_free_fn c"

lemma at_cell_ok:
  assumes "image_ok s" and "i < length (im_cells s)" and "same_cell (im_cells s ! i) c"
    and "cl_session c = im_session s \<Longrightarrow> owns s i (im_cells s ! i) \<Longrightarrow>
      owns (s\<lparr>im_cells := (im_cells s)[i := c], im_calls := calls, im_frees := frees\<rparr>) i c"
    and "\<And>j. j \<noteq> i \<Longrightarrow> count_list (map fst calls) j = calls_on s j \<and> count_list (map fst frees) j = frees_of s j"
    and "\<And>j g. (j, g) \<in> set calls \<Longrightarrow> (j, g) \<in> set (im_calls s) \<or> j = i \<and> g = cl_generation c \<and> cl_session c = im_session s"
    and "\<And>j p fn. (j, p, fn) \<in> set frees \<Longrightarrow> (j, p, fn) \<in> set (im_frees s) \<or> j = i \<and> p = cl_ptr c \<and> fn = cl_free_fn c"
  shows "image_ok (s\<lparr>im_cells := (im_cells s)[i := c], im_calls := calls, im_frees := frees\<rparr>)" (is "image_ok ?s")
proof -
  have keep: "same_cell (im_cells s ! j) (im_cells ?s ! j)" if "j < length (im_cells s)" for j
    using assms(2,3) that by (cases "j = i") (simp_all add: same_cell_def)
  have "cell_ok ?s j" if j: "j < length (im_cells s)" for j
  proof (cases "j = i")
    case True
    with assms(2,3) cell_okD [OF assms(1,2)] assms(4) show ?thesis by (simp add: cell_ok_def Let_def same_cell_def)
  next
    case False
    with cell_okD [OF assms(1) j] assms(5) [OF False] owns_mono [of s j "im_cells s ! j" ?s] show ?thesis
      by (simp add: cell_ok_def Let_def)
  qed
  moreover have "entries_ok ?s"
  proof (rule entries_okI)
    fix j g assume "(j, g) \<in> set (im_calls ?s)"
    with assms(6) [of j g] image_okD(2) [OF assms(1), of j g] keep [of j] assms(2)
    show "j < length (im_cells ?s) \<and> cl_session (im_cells ?s ! j) = im_session ?s \<and> cl_generation (im_cells ?s ! j) = g"
      by (auto simp: same_cell_def)
  next
    fix j p fn assume "(j, p, fn) \<in> set (im_frees ?s)"
    then consider "(j, p, fn) \<in> set (im_frees s)" | "j = i" "p = cl_ptr c" "fn = cl_free_fn c" using assms(7) by auto
    then show "j < length (im_cells ?s) \<and> p = cl_ptr (im_cells ?s ! j) \<and> fn = cl_free_fn (im_cells ?s ! j)"
    proof cases
      case 1
      from image_okD(3) [OF assms(1) this] keep [of j] show ?thesis unfolding same_cell_def by simp
    qed (use assms(2) in simp)
  next
    fix j assume "j \<in> set (im_freed ?s)"
    with image_okD(4) [OF assms(1), of j] show "j < length (im_cells ?s)" by simp
  qed
  moreover have "holds ?s j = holds s j" for j using keep [of j] by (cases "j < length (im_cells s)") (simp_all add: holds_def same_cell_def)
  then have "holds ?s = holds s" by blast
  with assms(1) have "unique_owner ?s" using unique_cong image_ok_def by blast
  ultimately show ?thesis by (simp add: image_ok_def)
qed

lemma count_later [simp]: "count_list (map fst (later i out)) j = of_bool (out \<noteq> None \<and> i = j)"
  by (simp add: later_def split: option.splits)

lemma begin_ok:
  assumes "image_ok s" and "i < length (im_cells s)" and "cell_begin_call (im_session s) g fn_name (im_cells s ! i) = Inr c"
  shows "image_ok (s\<lparr>im_cells := (im_cells s)[i := c], im_calls := (i, g) # im_calls s\<rparr>)"
proof -
  let ?c = "im_cells s ! i"
  have c: "c = ?c\<lparr>cl_in_flight := Suc (cl_in_flight ?c)\<rparr>" "cl_state ?c = Live" "cl_session ?c = im_session s" "cl_generation ?c = g"
    using assms(3) by (cases "cl_state ?c"; auto simp: cell_begin_call_def split: if_splits)+
  have "image_ok (s\<lparr>im_cells := (im_cells s)[i := c], im_calls := (i, g) # im_calls s, im_frees := im_frees s\<rparr>)"
    using assms(1,2) by (rule at_cell_ok) (use c in \<open>auto simp: same_cell_def owns_def\<close>)
  then show ?thesis by simp
qed

lemma end_ok:
  assumes "image_ok s" and "im_calls s = xs @ (i, g) # ys" and "cell_end_call (im_cells s ! i) = Some (c, out)"
  shows "image_ok (s\<lparr>im_cells := (im_cells s)[i := c], im_calls := xs @ ys, im_frees := im_frees s @ later i out\<rparr>)"
proof -
  let ?c = "im_cells s ! i" and ?n = "cl_in_flight (im_cells s ! i) - 1"
  have i: "i < length (im_cells s)" using image_okD(2) [OF assms(1), of i g] assms(2) by simp
  have c: "c = ?c\<lparr>cl_in_flight := ?n, cl_state := (if cl_state ?c = FreePending \<and> ?n = 0 then Freed else cl_state ?c)\<rparr>"
    and out: "out = (if cl_state ?c = FreePending \<and> ?n = 0 then Some (cl_ptr ?c, cl_free_fn ?c) else None)"
    using assms(3) by (auto simp: cell_end_call_def Let_def split: if_splits)
  have count: "calls_on s j = count_list (map fst (xs @ ys)) j + of_bool (j = i)" for j by (simp add: assms(2))
  show ?thesis
    using assms(1) i
  proof (rule at_cell_ok)
    show "same_cell ?c c" by (simp add: c same_cell_def)
    show "owns (s\<lparr>im_cells := (im_cells s)[i := c], im_calls := xs @ ys, im_frees := im_frees s @ later i out\<rparr>) i c"
      if "owns s i ?c"
      using that count [of i] by (auto simp: owns_def c out)
    show "count_list (map fst (xs @ ys)) j = calls_on s j \<and> count_list (map fst (im_frees s @ later i out)) j = frees_of s j"
      if "j \<noteq> i" for j using that count [of j] by simp
  qed (auto simp: assms(2) later_def c out split: if_splits)
qed

lemma free_ok:
  assumes "image_ok s" and "i < length (im_cells s)" and "cell_free (im_cells s ! i) = (ret, c, out)"
  shows "image_ok (s\<lparr>im_cells := (im_cells s)[i := c], im_frees := im_frees s @ later i out\<rparr>)"
proof -
  let ?c = "im_cells s ! i"
  have c: "c = ?c\<lparr>cl_state := (if cl_state ?c = Live then if cl_in_flight ?c = 0 then Freed else FreePending else cl_state ?c)\<rparr>"
    and out: "out = (if cl_state ?c = Live \<and> cl_in_flight ?c = 0 then Some (cl_ptr ?c, cl_free_fn ?c) else None)"
    using assms(3) by (auto simp: cell_free_def split: cell_state.splits if_splits)
  have "image_ok (s\<lparr>im_cells := (im_cells s)[i := c], im_calls := im_calls s, im_frees := im_frees s @ later i out\<rparr>)"
    using assms(1,2)
  proof (rule at_cell_ok)
    show "same_cell ?c c" by (simp add: c same_cell_def)
    show "owns (s\<lparr>im_cells := (im_cells s)[i := c], im_calls := im_calls s, im_frees := im_frees s @ later i out\<rparr>) i c"
      if "owns s i ?c"
      using that by (cases "cl_state ?c") (auto simp: owns_def c out)
  qed (auto simp: later_def c out split: if_splits)
  then show ?thesis by simp
qed

text \<open>A free decided in this session finds its object, and no call is in flight on it.\<close>

lemma pending_free:
  assumes "image_ok s" and "(i, p, fn) \<in> set (im_frees s)" and "cl_session (im_cells s ! i) = im_session s"
  shows "p \<noteq> 0" and "handles (im_rt s fn) p \<noteq> None" and "calls_on s i = 0" and "holds s i = Some (fn, p)" and "frees_of s i = 1"
proof -
  have i: "i < length (im_cells s)" "p = cl_ptr (im_cells s ! i)" "fn = cl_free_fn (im_cells s ! i)"
    using image_okD(3) [OF assms(1,2)] by simp_all
  have owns: "owns s i (im_cells s ! i)" by (rule cell_okD(3) [OF assms(1) i(1) assms(3)])
  have "i \<in> set (map fst (im_frees s))" using assms(2) by force
  then have "frees_of s i \<noteq> 0" using count_list_0_iff by metis
  moreover have "frees_of s i + freed_of s i = of_bool (cl_state (im_cells s ! i) = Freed)" using owns by (simp add: owns_def)
  ultimately have f: "cl_state (im_cells s ! i) = Freed" "freed_of s i = 0" "frees_of s i = 1"
    by (cases "cl_state (im_cells s ! i) = Freed"; simp)+
  with owns i show "p \<noteq> 0" "handles (im_rt s fn) p \<noteq> None" "calls_on s i = 0" "frees_of s i = 1" by (simp_all add: owns_def)
  show "holds s i = Some (fn, p)" using owns i f assms(3) by (simp add: holds_def owns_def)
qed

lemma free_shim_handles:
  assumes "dtor_ok dtor" and "p \<noteq> 0" and "free_shim dtor p r = Some (panicked, r')"
  shows "handles r' = (handles r)(p := None)"
proof -
  from assms(2,3) obtain v x where "dtor v (r\<lparr>handles := (handles r)(p := None)\<rparr>) = (x, r')"
    by (auto simp: free_shim_def handle_free_def split: option.splits)
  moreover have "handles (snd (dtor v (r\<lparr>handles := (handles r)(p := None)\<rparr>))) = (handles r)(p := None)"
    using assms(1) by (simp add: dtor_ok_def)
  ultimately show ?thesis by simp
qed

lemma foreign_free_ok:
  assumes "image_ok s" and "dtor_ok dtor" and "im_frees s = xs @ (i, target) # ys"
    and "maybe_foreign_free (im_session s) (im_cells s ! i) target = Some (p, fn)"
    and "free_shim dtor p (im_rt s fn) = Some (panicked, r)"
  shows "image_ok (s\<lparr>im_rt := (im_rt s)(fn := r), im_frees := xs @ ys, im_freed := i # im_freed s\<rparr>)" (is "image_ok ?s")
proof -
  have target: "target = (p, fn)" and session: "cl_session (im_cells s ! i) = im_session s"
    using assms(4) by (simp_all add: maybe_foreign_free_def split: if_splits)
  have entry: "(i, p, fn) \<in> set (im_frees s)" by (simp add: assms(3) target)
  note pend = pending_free [OF assms(1) entry session]
  have i: "i < length (im_cells s)" using image_okD(3) [OF assms(1) entry] by simp
  have r: "handles r = (handles (im_rt s fn))(p := None)" by (rule free_shim_handles [OF assms(2) pend(1) assms(5)])
  have frees: "frees_of s j = count_list (map fst (xs @ ys)) j + of_bool (j = i)" for j by (simp add: assms(3))
  have owns: "owns s i (im_cells s ! i)" by (rule cell_okD(3) [OF assms(1) i session])
  have freed: "freed_of s i = 0" using pend(4) by (simp add: holds_def split: if_splits)
  have "cell_ok ?s j" if j: "j < length (im_cells s)" for j
  proof (cases "j = i")
    case True
    with cell_okD [OF assms(1) i] frees [of i] freed pend(5) show ?thesis
      by (simp add: cell_ok_def Let_def owns_def)
  next
    case False
    have "owns ?s j (im_cells s ! j)" if cur: "cl_session (im_cells s ! j) = im_session s"
    proof -
      have o: "owns s j (im_cells s ! j)" by (rule cell_okD(3) [OF assms(1) j cur])
      have "holds s j \<noteq> Some (fn, p)" using image_okD(5) [OF assms(1), of i j] pend(4) False by auto
      then have "freed_of s j = 0 \<Longrightarrow> (cl_generation (im_cells s ! j), cl_ptr (im_cells s ! j)) \<noteq> (fn, p)"
        using j cur by (simp add: holds_def)
      then show ?thesis using o frees [of j] False by (auto simp: owns_def r)
    qed
    with cell_okD [OF assms(1) j] False show ?thesis by (simp add: cell_ok_def Let_def)
  qed
  moreover have "entries_ok ?s"
    using assms(1,3) i unfolding image_ok_def entries_ok_def by auto
  moreover have "unique_owner ?s"
    unfolding unique_owner_def
  proof (intro allI impI)
    fix j k assume h: "holds ?s j \<noteq> None" "holds ?s j = holds ?s k"
    have same: "holds ?s j = holds s j" if "j \<noteq> i" for j using that by (simp add: holds_def)
    have gone: "holds ?s i = None" by (simp add: holds_def)
    have "j \<noteq> i" "k \<noteq> i" using h gone by auto
    with h same have "holds s j \<noteq> None" "holds s j = holds s k" by simp_all
    then show "j = k" by (rule image_okD(5) [OF assms(1)])
  qed
  ultimately show ?thesis by (simp add: image_ok_def)
qed

lemma no_foreign_free_ok:
  assumes "image_ok s" and "im_frees s = xs @ (i, target) # ys"
    and "maybe_foreign_free (im_session s) (im_cells s ! i) target = None"
  shows "image_ok (s\<lparr>im_frees := xs @ ys\<rparr>)" (is "image_ok ?s")
proof -
  have old: "cl_session (im_cells s ! i) \<noteq> im_session s"
    using assms(3) by (auto simp: maybe_foreign_free_def split: if_splits)
  have "cell_ok ?s j" if "j < length (im_cells s)" for j
    using cell_okD [OF assms(1) that] old assms(2) owns_mono [of s j "im_cells s ! j" ?s]
    by (cases "j = i") (simp_all add: cell_ok_def Let_def)
  moreover have "entries_ok ?s" using assms(1,2) unfolding image_ok_def entries_ok_def by auto
  moreover have "holds ?s = holds s" by (auto simp: holds_def)
  with assms(1) have "unique_owner ?s" using unique_cong image_ok_def by blast
  ultimately show ?thesis by (simp add: image_ok_def)
qed

lemma restore_ok:
  assumes "image_ok s"
  shows "image_ok (restore_image s)"
proof -
  have "cell_ok (restore_image s) j" if "j < length (im_cells s)" for j
    using cell_okD [OF assms that] by (simp add: cell_ok_def Let_def restore_image_def)
  moreover have "entries_ok (restore_image s)"
    using assms by (simp add: image_ok_def entries_ok_def restore_image_def)
  moreover have "holds (restore_image s) j = None" for j
    using cell_okD(1) [OF assms, of j] by (auto simp: holds_def restore_image_def)
  then have "unique_owner (restore_image s)" by (simp add: unique_owner_def)
  ultimately show ?thesis by (simp add: image_ok_def restore_image_def)
qed

lemma cell_step_ok:
  assumes "cell_step dtor s s'" and "dtor_ok dtor" and "image_ok s"
  shows "image_ok s'"
  using assms
proof (induction rule: cell_step.induct)
  case (construct s x rust_name p c v)
  then show ?case by (intro construct_ok) (simp_all add: wrapper_gate_def split: if_splits)
next
  case (method_call i g s v v')
  then show ?case by (intro quiet_ok [OF _ method_call.prems(2)]) (simp add: quiet_def)
next
  case (foreign r s g)
  then show ?case by (intro quiet_ok [OF _ foreign.prems(2)]) (simp add: quiet_def)
qed (auto intro: begin_ok end_ok free_ok foreign_free_ok no_foreign_free_ok restore_ok)

lemma cell_reach_ok:
  assumes "cell_reach dtor s" and "dtor_ok dtor"
  shows "image_ok s"
  using assms(1)
proof (induction rule: cell_reach.induct)
  case start
  show ?case by (simp add: image_ok_def image_init_def entries_ok_def unique_owner_def holds_def)
next
  case (step s s')
  from cell_step_ok [OF step(2) assms(2) step(3)] show ?case .
qed

section \<open>What has been asked for is done\<close>

lemma free_shim_succeeds:
  assumes "p \<noteq> 0" and "handles r p \<noteq> None"
  shows "\<exists>x r'. free_shim dtor p r = Some (x, r')"
proof -
  obtain v where v: "handles r p = Some v" using assms(2) by blast
  obtain x r' where "dtor v (r\<lparr>handles := (handles r)(p := None)\<rparr>) = (x, r')" by fastforce
  then show ?thesis using assms(1) v by (simp add: free_shim_def handle_free_def)
qed

lemma end_call_returns: "cl_in_flight c \<noteq> 0 \<Longrightarrow> \<exists>c' out. cell_end_call c = Some (c', out)"
  by (simp add: cell_end_call_def Let_def)

text \<open>A step towards the free of a cell: a call on it returns, or the free that was decided is carried out.\<close>

lemma towards_free:
  assumes "image_ok s" and "dtor_ok dtor" and "i < length (im_cells s)" and "cl_session (im_cells s ! i) = im_session s"
    and "cl_state (im_cells s ! i) \<noteq> Live" and "freed_of s i = 0"
  shows "\<exists>s'. cell_step dtor s s' \<and> i < length (im_cells s') \<and> cl_session (im_cells s' ! i) = im_session s' \<and>
    cl_state (im_cells s' ! i) \<noteq> Live \<and> calls_on s' i + (1 - freed_of s' i) < calls_on s i + (1 - freed_of s i)"
proof (cases "calls_on s i = 0")
  case False
  then obtain g where "(i, g) \<in> set (im_calls s)" by (auto simp: count_list_0_iff)
  then obtain xs ys where calls: "im_calls s = xs @ (i, g) # ys" by (meson split_list)
  have "owns s i (im_cells s ! i)" by (rule cell_okD(3) [OF assms(1,3,4)])
  then obtain c out where e: "cell_end_call (im_cells s ! i) = Some (c, out)"
    using False end_call_returns [of "im_cells s ! i"] by (auto simp: owns_def)
  have "cl_session c = cl_session (im_cells s ! i)" "cl_state c \<noteq> Live"
    using e assms(5) by (auto simp: cell_end_call_def Let_def split: if_splits)
  with cell_step.end_call [OF calls e, of dtor] assms(3,4,6) calls show ?thesis by fastforce
next
  case True
  have "owns s i (im_cells s ! i)" by (rule cell_okD(3) [OF assms(1,3,4)])
  with True assms(5,6) have "frees_of s i = 1" by (cases "cl_state (im_cells s ! i)") (auto simp: owns_def)
  then have "frees_of s i \<noteq> 0" by simp
  then obtain p fn where entry: "(i, p, fn) \<in> set (im_frees s)" by (auto simp: count_list_0_iff)
  then obtain xs ys where frees: "im_frees s = xs @ (i, p, fn) # ys" by (meson split_list)
  note pend = pending_free [OF assms(1) entry assms(4)]
  obtain x r where "free_shim dtor p (im_rt s fn) = Some (x, r)" using free_shim_succeeds [OF pend(1,2)] by blast
  with cell_step.foreign_free [OF frees] assms(4)
  have "cell_step dtor s (s\<lparr>im_rt := (im_rt s)(fn := r), im_frees := xs @ ys, im_freed := i # im_freed s\<rparr>)"
    by (simp add: maybe_foreign_free_def)
  then show ?thesis using assms(3-6) by fastforce
qed

lemma eventually_freed:
  assumes "image_ok s" and "dtor_ok dtor" and "i < length (im_cells s)" and "cl_session (im_cells s ! i) = im_session s"
    and "cl_state (im_cells s ! i) \<noteq> Live"
  shows "\<exists>s'. (cell_step dtor)\<^sup>*\<^sup>* s s' \<and> freed_of s' i = 1"
  using assms
proof (induction "calls_on s i + (1 - freed_of s i)" arbitrary: s rule: less_induct)
  case less
  show ?case
  proof (cases "freed_of s i = 0")
    case True
    from towards_free [OF less.prems True] obtain s1 where s1: "cell_step dtor s s1" "i < length (im_cells s1)"
      "cl_session (im_cells s1 ! i) = im_session s1" "cl_state (im_cells s1 ! i) \<noteq> Live"
      "calls_on s1 i + (1 - freed_of s1 i) < calls_on s i + (1 - freed_of s i)" by blast
    have "image_ok s1" by (rule cell_step_ok [OF s1(1) less.prems(2,1)])
    from less.hyps [OF s1(5) this less.prems(2) s1(2-4)] s1(1) show ?thesis
      by (blast intro: converse_rtranclp_into_rtranclp)
  next
    case False
    with cell_okD(2) [OF less.prems(1,3)] have "freed_of s i = 1" by simp
    then show ?thesis by blast
  qed
qed

text \<open>A cell of an earlier image is never freed.\<close>

definition outlived :: "'h image \<Rightarrow> nat \<Rightarrow> nat \<Rightarrow> bool" where
  "outlived s i n \<longleftrightarrow> i < length (im_cells s) \<and> cl_session (im_cells s ! i) < im_session s \<and> freed_of s i = n"

lemma outlived_step:
  assumes "cell_step dtor s s'" and "image_ok s" and "outlived s i n"
  shows "outlived s' i n"
  using assms(1,3)
proof (induction rule: cell_step.induct)
  case (construct s x rust_name p c v)
  then show ?case by (simp add: outlived_def nth_append)
next
  case (begin_call j s x fn_name c)
  then show ?case by (cases "i = j") (auto simp: outlived_def cell_begin_call_def split: if_splits)
next
  case (end_call s xs j g ys c out)
  then show ?case by (cases "i = j") (auto simp: outlived_def cell_end_call_def Let_def split: if_splits)
next
  case (free j s ret c out)
  then show ?case by (cases "i = j") (auto simp: outlived_def cell_free_def split: if_splits cell_state.splits)
next
  case (foreign_free s xs j target ys p fn panicked r)
  then show ?case by (cases "i = j") (auto simp: outlived_def maybe_foreign_free_def split: if_splits)
qed (auto simp: outlived_def restore_image_def)

lemma outlived_steps: "(cell_step dtor)\<^sup>*\<^sup>* s s' \<Longrightarrow> dtor_ok dtor \<Longrightarrow> image_ok s \<Longrightarrow> outlived s i n \<Longrightarrow> outlived s' i n \<and> image_ok s'"
  by (induction rule: rtranclp_induct) (auto intro: outlived_step cell_step_ok)

section \<open>Running the steps\<close>

datatype 'h cell_op =
    OConstruct gen_ctx bytes ptr 'h
  | OBegin nat gen_ctx bytes
  | OEnd nat
  | OFree nat
  | OForeignFree nat
  | ORestore

text \<open>The index of an entry, of a call that returns or a free that is carried out.\<close>

fun exec_cell :: "('h, unit) destructor \<Rightarrow> 'h cell_op \<Rightarrow> 'h image \<Rightarrow> 'h image option" where
  "exec_cell dtor (OConstruct x rust_name p v) s =
     (case make_crate_handle x rust_name p of
        Inl e \<Rightarrow> None
      | Inr c \<Rightarrow>
          if wrapper_gate (im_session s) x = Inr () \<and> ctx_ok x \<and> p \<noteq> 0 \<and> handles (im_rt s (gx_generation x)) p = None
          then Some (s\<lparr>im_rt := (im_rt s)(gx_generation x := snd (handle_new p v (im_rt s (gx_generation x)))),
                 im_cells := im_cells s @ [c]\<rparr>)
          else None)"
| "exec_cell dtor (OBegin i x fn_name) s =
     (if i < length (im_cells s) \<and> wrapper_gate (im_session s) x = Inr ()
      then (case cell_begin_call (im_session s) (gx_generation x) fn_name (im_cells s ! i) of
              Inl e \<Rightarrow> None
            | Inr c \<Rightarrow> Some (s\<lparr>im_cells := (im_cells s)[i := c], im_calls := (i, gx_generation x) # im_calls s\<rparr>))
      else None)"
| "exec_cell dtor (OEnd k) s =
     (case List.drop k (im_calls s) of
        [] \<Rightarrow> None
      | (i, g) # ys \<Rightarrow>
          (case cell_end_call (im_cells s ! i) of
             None \<Rightarrow> None
           | Some (c, out) \<Rightarrow>
               Some (s\<lparr>im_cells := (im_cells s)[i := c], im_calls := take k (im_calls s) @ ys,
                 im_frees := im_frees s @ later i out\<rparr>)))"
| "exec_cell dtor (OFree i) s =
     (if i < length (im_cells s)
      then (case cell_free (im_cells s ! i) of
              (ret, c, out) \<Rightarrow> Some (s\<lparr>im_cells := (im_cells s)[i := c], im_frees := im_frees s @ later i out\<rparr>))
      else None)"
| "exec_cell dtor (OForeignFree k) s =
     (case List.drop k (im_frees s) of
        [] \<Rightarrow> None
      | (i, target) # ys \<Rightarrow>
          (case maybe_foreign_free (im_session s) (im_cells s ! i) target of
             None \<Rightarrow> Some (s\<lparr>im_frees := take k (im_frees s) @ ys\<rparr>)
           | Some (p, fn) \<Rightarrow>
               (case free_shim dtor p (im_rt s fn) of
                  None \<Rightarrow> None
                | Some (panicked, r) \<Rightarrow>
                    Some (s\<lparr>im_rt := (im_rt s)(fn := r), im_frees := take k (im_frees s) @ ys, im_freed := i # im_freed s\<rparr>))))"
| "exec_cell dtor ORestore s = Some (restore_image s)"

lemma drop_split: "List.drop k xs = y # ys \<Longrightarrow> xs = take k xs @ y # ys"
  by (metis append_take_drop_id)

lemma exec_cell_sound:
  assumes "exec_cell dtor op s = Some s'"
  shows "cell_step dtor s s'"
proof (cases op)
  case (OEnd k)
  with assms obtain i g ys where d: "List.drop k (im_calls s) = (i, g) # ys" by (auto split: list.splits)
  from cell_step.end_call [OF drop_split [OF d]] OEnd assms d show ?thesis by (auto split: option.splits)
next
  case (OForeignFree k)
  with assms obtain i target ys where d: "List.drop k (im_frees s) = (i, target) # ys" by (auto split: list.splits)
  from cell_step.foreign_free [OF drop_split [OF d]] cell_step.no_foreign_free [OF drop_split [OF d]] OForeignFree assms d
  show ?thesis by (auto split: option.splits)
next
  case (OConstruct x rust_name p v)
  with assms show ?thesis by (auto intro: cell_step.construct split: sum.splits if_splits)
next
  case (OBegin i x fn_name)
  with assms show ?thesis by (auto intro: cell_step.begin_call split: sum.splits if_splits)
next
  case (OFree i)
  with assms show ?thesis by (auto intro: cell_step.free split: prod.splits if_splits)
next
  case ORestore
  with assms show ?thesis by (auto intro: cell_step.restore)
qed

interpretation cell_schedule: schedule "cell_step dtor" "exec_cell dtor" for dtor
  by unfold_locales (rule exec_cell_sound)

section \<open>Properties\<close>

text \<open>
  (C15) A foreign call never meets a freed object.  In every interleaving of constructors, calls, frees, finalizers and
  image restores: each call in flight is on a cell of this image, its wrapper belongs to the generation that made
  the object, and the object is in that library's table; each free that will be made finds its object in the table of
  the library it belongs to, with no call in flight on it; and no two cells own one object.
\<close>

theorem no_use_after_free:
  assumes "dtor_ok dtor" and "cell_reach dtor s"
  shows "(\<forall>(i, g)\<in>set (im_calls s).
      cl_session (im_cells s ! i) = im_session s \<and> cl_generation (im_cells s ! i) = g \<and>
      handle_ref (cl_ptr (im_cells s ! i)) (im_rt s g) \<noteq> None) \<and>
    (\<forall>(i, target)\<in>set (im_frees s). \<forall>p fn. maybe_foreign_free (im_session s) (im_cells s ! i) target = Some (p, fn) \<longrightarrow>
      fn = cl_generation (im_cells s ! i) \<and> free_shim dtor p (im_rt s fn) \<noteq> None \<and> i \<notin> fst ` set (im_calls s)) \<and>
    unique_owner s"
proof -
  have ok: "image_ok s" by (rule cell_reach_ok [OF assms(2,1)])
  have call: "cl_session (im_cells s ! i) = im_session s \<and> cl_generation (im_cells s ! i) = g \<and>
      handle_ref (cl_ptr (im_cells s ! i)) (im_rt s g) \<noteq> None" if "(i, g) \<in> set (im_calls s)" for i g
  proof -
    have i: "i < length (im_cells s)" "cl_session (im_cells s ! i) = im_session s" "cl_generation (im_cells s ! i) = g"
      using image_okD(2) [OF ok that] by simp_all
    have "i \<in> set (map fst (im_calls s))" using that by force
    then have "calls_on s i \<noteq> 0" using count_list_0_iff by metis
    with cell_okD(3) [OF ok i(1,2)] have "freed_of s i = 0" by (cases "cl_state (im_cells s ! i) = Freed") (simp_all add: owns_def)
    with cell_okD(3) [OF ok i(1,2)] i show ?thesis by (simp add: owns_def handle_ref_def)
  qed
  have free: "fn = cl_generation (im_cells s ! i) \<and> free_shim dtor p (im_rt s fn) \<noteq> None \<and> i \<notin> fst ` set (im_calls s)"
    if "(i, target) \<in> set (im_frees s)" "maybe_foreign_free (im_session s) (im_cells s ! i) target = Some (p, fn)" for i target p fn
  proof -
    have t: "target = (p, fn)" "cl_session (im_cells s ! i) = im_session s"
      using that(2) by (simp_all add: maybe_foreign_free_def split: if_splits)
    note pend = pending_free [OF ok that(1) [unfolded t(1)] t(2)]
    obtain x r where "free_shim dtor p (im_rt s fn) = Some (x, r)" using free_shim_succeeds [OF pend(1,2)] by blast
    then show ?thesis using pend(3,4) by (auto simp: holds_def count_list_0_iff split: if_splits)
  qed
  have "unique_owner s" using ok by (simp add: image_ok_def)
  with call free show ?thesis by blast
qed

text \<open>
  (C16) A free that is asked for happens exactly once.  For a cell of this image: \<^verbatim>\<open>%cell-free\<close> answers T exactly while
  the cell is live; until then its object is not freed; from then on, whatever has happened, the calls in flight can
  return and the pending free be made so that the shim has been called, and it is called at most once.  For a cell of an
  earlier image the shim is never called again, although \<^verbatim>\<open>%cell-free\<close> still answers T for it once.
\<close>

theorem freed_exactly_once:
  assumes "dtor_ok dtor" and "cell_reach dtor s" and "i < length (im_cells s)"
  shows "freed_of s i \<le> 1 \<and> (fst (cell_free (im_cells s ! i)) \<longleftrightarrow> cl_state (im_cells s ! i) = Live) \<and>
    (if cl_session (im_cells s ! i) = im_session s
     then if cl_state (im_cells s ! i) = Live then freed_of s i = 0
       else (\<exists>s'. (cell_step dtor)\<^sup>*\<^sup>* s s' \<and> freed_of s' i = 1)
     else \<forall>s'. (cell_step dtor)\<^sup>*\<^sup>* s s' \<longrightarrow> freed_of s' i = freed_of s i)"
proof -
  have ok: "image_ok s" by (rule cell_reach_ok [OF assms(2,1)])
  have "fst (cell_free (im_cells s ! i)) \<longleftrightarrow> cl_state (im_cells s ! i) = Live"
    by (simp add: cell_free_def split: cell_state.splits)
  moreover have "freed_of s i = 0" if "cl_session (im_cells s ! i) = im_session s" "cl_state (im_cells s ! i) = Live"
    using cell_okD(3) [OF ok assms(3) that(1)] that(2) by (simp add: owns_def)
  moreover have "freed_of s' i = freed_of s i" if "cl_session (im_cells s ! i) \<noteq> im_session s" "(cell_step dtor)\<^sup>*\<^sup>* s s'" for s'
    using outlived_steps [OF that(2) assms(1) ok, of i "freed_of s i"] cell_okD(1) [OF ok assms(3)] assms(3) that(1)
    by (simp add: outlived_def)
  moreover have "\<exists>s'. (cell_step dtor)\<^sup>*\<^sup>* s s' \<and> freed_of s' i = 1"
    if "cl_session (im_cells s ! i) = im_session s" "cl_state (im_cells s ! i) \<noteq> Live"
    by (rule eventually_freed [OF ok assms(1,3) that])
  ultimately show ?thesis using cell_okD(2) [OF ok assms(3)] by presburger
qed

text \<open>An object of generation 3; it is freed while a call on it runs, and a second object lives through a restore.\<close>

definition plain_dtor :: "(nat, unit) destructor" where
  "plain_dtor v s = (None, s)"

definition sample_ctx :: gen_ctx where
  "sample_ctx = \<lparr>gx_generation = 3, gx_session = 0, gx_free_table = [(''Bag'', 3)]\<rparr>"

definition freed_in_call :: "nat cell_op list" where
  "freed_in_call =
     [OConstruct sample_ctx ''Bag'' 64 5, OConstruct sample_ctx ''Bag'' 128 6, OBegin 0 sample_ctx ''len'', OFree 0, OEnd 0]"

lemma plain_dtor_ok: "dtor_ok plain_dtor"
  by (simp add: dtor_ok_def plain_dtor_def)

lemma run_cells_reach:
  assumes "run_ops (exec_cell plain_dtor) ops image_init = Some s"
  shows "cell_reach plain_dtor s"
  using assms cell_reach.start by (rule cell_schedule.run_invariant) (rule cell_reach.step)

lemmas run_cells_simps = freed_in_call_def sample_ctx_def image_init_def init_runtime_def make_crate_handle_def make_cell_def
  wrapper_gate_def ctx_ok_def handle_new_def cell_begin_call_def cell_free_def cell_end_call_def later_def Let_def
  restore_image_def

theorem no_use_after_free_witness:
  "\<exists>s p fn. run_ops (exec_cell plain_dtor) freed_in_call image_init = Some s \<and> im_frees s = [(0, p, fn)] \<and>
     free_shim plain_dtor p (im_rt s fn) \<noteq> None"
proof -
  obtain s where s: "run_ops (exec_cell plain_dtor) freed_in_call image_init = Some s" "im_frees s = [(0, 64, 3)]"
    "maybe_foreign_free (im_session s) (im_cells s ! 0) (64, 3) = Some (64, 3)"
    by (simp add: run_cells_simps maybe_foreign_free_def)
  from no_use_after_free [OF plain_dtor_ok run_cells_reach [OF s(1)]] s show ?thesis by auto
qed

theorem freed_exactly_once_witness:
  "\<exists>s s'. run_ops (exec_cell plain_dtor) freed_in_call image_init = Some s \<and> (cell_step plain_dtor)\<^sup>*\<^sup>* s s' \<and> freed_of s' 0 = 1"
proof -
  obtain s where s: "run_ops (exec_cell plain_dtor) freed_in_call image_init = Some s" "0 < length (im_cells s)"
    "cl_session (im_cells s ! 0) = im_session s" "cl_state (im_cells s ! 0) = Freed"
    by (simp add: run_cells_simps)
  from freed_exactly_once [OF plain_dtor_ok run_cells_reach [OF s(1)] s(2)] s show ?thesis by auto
qed

end
