(* ===== verification/Stored_Registry.thy ===== *)
theory Stored_Registry
  imports Callback
begin

text \<open>
  \<^verbatim>\<open>lisp/src/stored-callback.lisp\<close> and the trampoline of \<^verbatim>\<open>codegen.lisp\<close> that reaches it: Lisp closures under numeric ids
  that Rust keeps and calls later.  The registry lives beside the runtime's state; a closure \<open>'f\<close> is what \<open>apply\<close> runs.
\<close>

section \<open>The registry\<close>

record ('h, 'f) lisp_runtime = "'h runtime" +
  stored_callbacks :: "nat \<rightharpoonup> 'f"
  next_callback_id :: nat

record callback_token =
  ct_id :: nat
  ct_registered :: bool

definition token_string :: "callback_token \<Rightarrow> bytes" where
  "token_string tok = ''id '' @ dec (ct_id tok) @ (if ct_registered tok then [] else '' (unregistered)'')"

definition register_callback :: "'f \<Rightarrow> ('h, 'f) lisp_runtime \<Rightarrow> callback_token \<times> ('h, 'f) lisp_runtime" where
  "register_callback f s =
     (let i = next_callback_id s + 1
      in (\<lparr>ct_id = i, ct_registered = True\<rparr>,
          s\<lparr>next_callback_id := i, stored_callbacks := (stored_callbacks s)(i \<mapsto> f)\<rparr>))"

text \<open>What the finalizer of a token does.\<close>

definition finalize_token :: "callback_token \<Rightarrow> ('h, 'f) lisp_runtime \<Rightarrow> ('h, 'f) lisp_runtime" where
  "finalize_token tok s = s\<lparr>stored_callbacks := (stored_callbacks s)(ct_id tok := None)\<rparr>"

definition unregister_callback ::
  "callback_token \<Rightarrow> ('h, 'f) lisp_runtime \<Rightarrow> bool \<times> callback_token \<times> ('h, 'f) lisp_runtime" where
  "unregister_callback tok s =
     (stored_callbacks s (ct_id tok) \<noteq> None, tok\<lparr>ct_registered := False\<rparr>,
      s\<lparr>stored_callbacks := (stored_callbacks s)(ct_id tok := None)\<rparr>)"

definition stored_callback_lookup :: "nat \<Rightarrow> ('h, 'f) lisp_runtime \<Rightarrow> 'f option" where
  "stored_callback_lookup i s = stored_callbacks s i"

section \<open>The trampoline\<close>

text \<open>
  \<open>apply\<close>: whether the closure returned, or signalled a condition, and the state it leaves; it runs without the
  registry's lock and may use the registry.  An argument that cannot be decoded is a condition too.
\<close>

definition stored_trampoline ::
  "('f \<Rightarrow> lisp_arg \<Rightarrow> ('h, 'f) lisp_runtime \<Rightarrow> bool \<times> ('h, 'f) lisp_runtime) \<Rightarrow> mem \<Rightarrow> bytes \<Rightarrow>
   nat \<Rightarrow> u64 \<Rightarrow> wire list \<Rightarrow> ('h, 'f) lisp_runtime \<Rightarrow> i32 \<times> ('h, 'f) lisp_runtime" where
  "stored_trampoline apply m tok fnptr i ws s =
     (case stored_callback_lookup (unat i) s of
        None \<Rightarrow> (2, s)
      | Some f \<Rightarrow>
          (case trampoline_arg m tok ws of
             None \<Rightarrow> (1, s)
           | Some arg \<Rightarrow> (case apply f arg s of (returned, s') \<Rightarrow> (if returned then 0 else 1, s'))))"

text \<open>The id a wrapper puts on the wire; a number that is no \<^verbatim>\<open>uint64\<close> is refused by the foreign call.\<close>

definition stored_argument :: "callback_token \<Rightarrow> u64 option" where
  "stored_argument tok = (if ct_id tok < 2 ^ 64 then Some (of_nat (ct_id tok)) else None)"

section \<open>Every use of the registry\<close>

text \<open>\<open>other\<close>: whatever does not touch the registry.  Any id may be removed: a token may be a copy, or finalized twice.\<close>

inductive registry_step :: "('h, 'f) lisp_runtime \<Rightarrow> ('h, 'f) lisp_runtime \<Rightarrow> bool" where
  register: "registry_step s (snd (register_callback f s))"
| unregister: "registry_step s (snd (snd (unregister_callback tok s)))"
| finalize: "registry_step s (finalize_token tok s)"
| other: "stored_callbacks s' = stored_callbacks s \<Longrightarrow> next_callback_id s' = next_callback_id s \<Longrightarrow> registry_step s s'"

definition registry_init :: "'h runtime \<Rightarrow> ('h, 'f) lisp_runtime" where
  "registry_init r = runtime.extend r \<lparr>stored_callbacks = Map.empty, next_callback_id = 0\<rparr>"

definition registry_ok :: "('h, 'f) lisp_runtime \<Rightarrow> bool" where
  "registry_ok s \<longleftrightarrow> (\<forall>i. next_callback_id s < i \<longrightarrow> stored_callbacks s i = None)"

lemma registry_init_ok: "registry_ok (registry_init r)"
  by (simp add: registry_ok_def registry_init_def runtime.extend_def)

lemmas registry_defs = register_callback_def unregister_callback_def finalize_token_def Let_def

lemma registry_step_ok: "registry_step s s' \<Longrightarrow> registry_ok s \<Longrightarrow> registry_ok s'"
  by (induction rule: registry_step.induct) (simp_all add: registry_ok_def registry_defs)

lemma registry_steps_ok: "registry_step\<^sup>*\<^sup>* s s' \<Longrightarrow> registry_ok s \<Longrightarrow> registry_ok s'"
  by (induction rule: rtranclp_induct) (auto intro: registry_step_ok)

text \<open>An id that has been given out means what it meant, or nothing.\<close>

lemma used_id_step:
  assumes "registry_step s s'" and "i \<le> next_callback_id s"
  shows "i \<le> next_callback_id s' \<and> (stored_callbacks s' i = stored_callbacks s i \<or> stored_callbacks s' i = None)"
  using assms by (induction rule: registry_step.induct) (auto simp: registry_defs)

lemma used_id_steps:
  assumes "registry_step\<^sup>*\<^sup>* s s'" and "i \<le> next_callback_id s"
  shows "i \<le> next_callback_id s' \<and> (stored_callbacks s' i = stored_callbacks s i \<or> stored_callbacks s' i = None)"
  using assms
proof (induction rule: rtranclp_induct)
  case (step t u)
  with used_id_step [OF step(2), of i] show ?case by auto
qed simp

section \<open>Properties\<close>

text \<open>
  (C18) A stored callback never reaches a wrong or dead closure.  The id a closure is registered under was no other's, and
  whatever happens to the registry it finds that closure or nothing, and once it finds nothing it always will; removing it by its
  token or finalizer makes it find nothing.  A call from Rust with the id runs exactly that closure, on exactly
  the argument Rust passed, and fails when it signals; with a dead id it fails and changes nothing.
\<close>

theorem stored_callback_never_dangles:
  assumes "registry_step\<^sup>*\<^sup>* (registry_init r) s0" and "register_callback f s0 = (tok, s1)" and "registry_step\<^sup>*\<^sup>* s1 s"
    and "arg_readable m arg"
  shows "stored_callback_lookup (ct_id tok) s0 = None \<and> stored_callback_lookup (ct_id tok) s \<in> {None, Some f} \<and>
    (stored_callback_lookup (ct_id tok) s = None \<longrightarrow> (\<forall>s'. registry_step\<^sup>*\<^sup>* s s' \<longrightarrow> stored_callback_lookup (ct_id tok) s' = None)) \<and>
    stored_callback_lookup (ct_id tok) (snd (snd (unregister_callback tok s))) = None \<and>
    stored_callback_lookup (ct_id tok) (finalize_token tok s) = None \<and>
    (\<forall>i fnptr. stored_argument tok = Some i \<longrightarrow>
       stored_call (stored_trampoline apply m (cb_tok arg)) (stored_from_raw fnptr i) arg s =
         (case stored_callback_lookup (ct_id tok) s of
            None \<Rightarrow> (Inl CallbackError, s)
          | Some _ \<Rightarrow> (case apply f (lisp_of_arg arg) s of (returned, s') \<Rightarrow> (if returned then Inr () else Inl CallbackError, s'))))"
proof -
  have s1: "ct_id tok \<le> next_callback_id s1" "stored_callbacks s1 (ct_id tok) = Some f"
    using assms(2) by (auto simp: register_callback_def Let_def)
  note now = used_id_steps [OF assms(3) s1(1)]
  have found: "stored_callback_lookup (ct_id tok) s \<in> {None, Some f}"
    using now s1(2) by (auto simp: stored_callback_lookup_def)
  have decode: "trampoline_arg m (cb_tok arg) (cb_encode arg) = Some (lisp_of_arg arg)"
    using assms(4) by (cases arg) (auto simp: arg_readable_def bytes_arg_def)
  have "stored_call (stored_trampoline apply m (cb_tok arg)) (stored_from_raw fnptr i) arg s =
      (case stored_callback_lookup (ct_id tok) s of
         None \<Rightarrow> (Inl CallbackError, s)
       | Some _ \<Rightarrow> (case apply f (lisp_of_arg arg) s of (returned, s') \<Rightarrow> (if returned then Inr () else Inl CallbackError, s')))"
    if "stored_argument tok = Some i" for i fnptr
  proof -
    have "unat i = ct_id tok"
      using that by (auto simp: stored_argument_def unat_of_nat split: if_splits)
    with found decode show ?thesis
      by (auto simp: stored_call_def stored_from_raw_def invoke_def stored_trampoline_def split: prod.splits)
  qed
  moreover have "stored_callback_lookup (ct_id tok) s' = None"
    if "stored_callback_lookup (ct_id tok) s = None" "registry_step\<^sup>*\<^sup>* s s'" for s'
    using used_id_steps [OF that(2) now [THEN conjunct1]] that(1) by (auto simp: stored_callback_lookup_def)
  moreover have "stored_callback_lookup (ct_id tok) s0 = None"
    using registry_steps_ok [OF assms(1) registry_init_ok] assms(2)
    by (auto simp: registry_ok_def register_callback_def Let_def stored_callback_lookup_def)
  ultimately show ?thesis
    using found by (simp add: stored_callback_lookup_def unregister_callback_def finalize_token_def)
qed

text \<open>A closure that is a number, and returns when it is called with that number.\<close>

definition sample_registry :: "(nat, nat) lisp_runtime" where
  "sample_registry = snd (register_callback 7 (registry_init init_runtime))"

theorem stored_callback_never_dangles_witness:
  "stored_call (stored_trampoline (\<lambda>f arg s. (arg = LByte (of_nat f), s)) Map.empty '':u8'') (stored_from_raw 0 1) (ArgU8 7) sample_registry =
     (Inr (), sample_registry) \<and>
   stored_callback_lookup 1 (finalize_token \<lparr>ct_id = 1, ct_registered = True\<rparr> sample_registry) = None"
proof -
  let ?tok = "\<lparr>ct_id = 1, ct_registered = True\<rparr>"
  have reg: "register_callback 7 (registry_init init_runtime) = (?tok, sample_registry)"
    by (simp add: sample_registry_def register_callback_def Let_def registry_init_def runtime.extend_def)
  have look: "stored_callback_lookup (ct_id ?tok) sample_registry = Some 7"
    by (simp add: sample_registry_def register_callback_def Let_def stored_callback_lookup_def registry_init_def runtime.extend_def)
  have "arg_readable Map.empty (ArgU8 7)" by (simp add: arg_readable_def)
  from stored_callback_never_dangles [OF rtranclp.rtrancl_refl reg rtranclp.rtrancl_refl this,
      of "\<lambda>f arg s. (arg = LByte (of_nat f), s)"] look
  show ?thesis by (simp add: stored_argument_def)
qed

end
