(* ===== verification/Artifact.thy ===== *)
theory Artifact
  imports Rulisp_Prelude
begin

text \<open>
  \<^verbatim>\<open>%check-artifact-shape\<close> of \<^verbatim>\<open>lisp/src/crate.lisp\<close>: an object file whose own headers place a region past its end is refused
  before it is handed to the host's loader.  An index outside a vector is an error of its own, so that its absence
  can be stated.
\<close>

section \<open>Reading octets\<close>

datatype shape_error = Refused bytes | BadIndex

definition octets_at :: "bytes \<Rightarrow> nat \<Rightarrow> nat \<Rightarrow> bytes option" where
  "octets_at f start count =
     (let v = take count (List.drop start f) in if length v = count then Some v else None)"

definition aref :: "bytes \<Rightarrow> nat \<Rightarrow> (shape_error, nat) result" where
  "aref v i = (if i < length v then Inr (code (v ! i)) else Inl BadIndex)"

text \<open>\<^verbatim>\<open>%le\<close>: the little-endian integer of \<open>width\<close> octets.\<close>

fun le_from :: "bytes \<Rightarrow> nat \<Rightarrow> nat \<Rightarrow> nat \<Rightarrow> (shape_error, nat) result" where
  "le_from v offset i 0 = Inr 0"
| "le_from v offset i (Suc w) =
     bindR (aref v (offset + i)) (\<lambda>b. bindR (le_from v offset (Suc i) w) (\<lambda>n. Inr (b * 2 ^ (8 * i) + n)))"

definition le :: "bytes \<Rightarrow> nat \<Rightarrow> nat \<Rightarrow> (shape_error, nat) result" where
  "le v offset width = le_from v offset 0 width"

definition c_name :: "bytes \<Rightarrow> nat \<Rightarrow> nat \<Rightarrow> (shape_error, bytes) result" where
  "c_name v start count =
     (if start + count \<le> length v then Inr (filter (\<lambda>c. code c \<noteq> 0) (take count (List.drop start v))) else Inl BadIndex)"

definition refuse :: "bytes \<Rightarrow> bytes \<Rightarrow> shape_error" where
  "refuse f detail = Refused (''artifact is truncated or corrupt: '' @ detail @ '' ('' @ dec (length f) @ '' bytes)'')"

definition fits :: "bytes \<Rightarrow> nat \<Rightarrow> bytes \<Rightarrow> (shape_error, unit) result" where
  "fits f e what = (if length f < e then Inl (refuse f (what @ '' ends at byte '' @ dec e)) else Inr ())"

definition octets :: "bytes \<Rightarrow> nat \<Rightarrow> nat \<Rightarrow> bytes \<Rightarrow> (shape_error, bytes) result" where
  "octets f start count what =
     bindR (fits f (start + count) what) (\<lambda>_.
       case octets_at f start count of
         Some v \<Rightarrow> Inr v
       | None \<Rightarrow> Inl (refuse f (what @ '' could not be read'')))"

section \<open>The three formats\<close>

fun pt_loads :: "bytes \<Rightarrow> bytes \<Rightarrow> nat \<Rightarrow> nat list \<Rightarrow> (shape_error, unit) result" where
  "pt_loads f ph phentsize [] = Inr ()"
| "pt_loads f ph phentsize (i # is) =
     (let p = i * phentsize
      in bindR (le ph p 4) (\<lambda>ty.
         bindR (if ty = 1
           then bindR (le ph (p + 8) 8) (\<lambda>offset. bindR (le ph (p + 32) 8) (\<lambda>filesz.
                  fits f (offset + filesz) (''PT_LOAD segment '' @ dec i)))
           else Inr ()) (\<lambda>_.
         pt_loads f ph phentsize is)))"

definition elf :: "bytes \<Rightarrow> (shape_error, unit) result" where
  "elf f =
     bindR (octets f 0 64 ''the ELF header'') (\<lambda>h.
     bindR (aref h 4) (\<lambda>cls. bindR (aref h 5) (\<lambda>data.
     if cls = 2 \<and> data = 1
     then bindR (le h 32 8) (\<lambda>phoff. bindR (le h 40 8) (\<lambda>shoff.
       bindR (le h 54 2) (\<lambda>phentsize. bindR (le h 56 2) (\<lambda>phnum.
       bindR (le h 58 2) (\<lambda>shentsize. bindR (le h 60 2) (\<lambda>shnum.
       bindR (if 0 < shnum then fits f (shoff + shnum * shentsize) ''the section header table'' else Inr ()) (\<lambda>_.
       bindR (if 0 < phnum \<and> phentsize < 56
              then Inl (refuse f (''e_phentsize is '' @ dec phentsize @ '', below a 64-bit entry'')) else Inr ()) (\<lambda>_.
       bindR (octets f phoff (phnum * phentsize) ''the program header table'') (\<lambda>ph.
       pt_loads f ph phentsize [0..<phnum])))))))))
     else Inr ())))"

fun macho_cmds :: "bytes \<Rightarrow> bytes \<Rightarrow> nat \<Rightarrow> nat \<Rightarrow> (shape_error, unit) result" where
  "macho_cmds f cmds pos 0 = Inr ()"
| "macho_cmds f cmds pos (Suc n) =
     bindR (if length cmds < pos + 8 then Inl (refuse f ''a load command lies past sizeofcmds'') else Inr ()) (\<lambda>_.
     bindR (le cmds pos 4) (\<lambda>cmd. bindR (le cmds (pos + 4) 4) (\<lambda>cmdsize.
     bindR (if cmdsize < 8 then Inl (refuse f ''a load command has cmdsize below 8'') else Inr ()) (\<lambda>_.
     bindR (if cmd = 0x19
       then bindR (if length cmds < pos + 56 then Inl (refuse f ''an LC_SEGMENT_64 lies past sizeofcmds'') else Inr ()) (\<lambda>_.
              bindR (le cmds (pos + 40) 8) (\<lambda>fileoff. bindR (le cmds (pos + 48) 8) (\<lambda>filesize.
              bindR (c_name cmds (pos + 8) 16) (\<lambda>name. fits f (fileoff + filesize) (''segment '' @ name)))))
       else Inr ()) (\<lambda>_.
     macho_cmds f cmds (pos + cmdsize) n)))))"

definition macho :: "bytes \<Rightarrow> (shape_error, unit) result" where
  "macho f =
     bindR (octets f 0 32 ''the Mach-O header'') (\<lambda>h.
     bindR (le h 16 4) (\<lambda>ncmds. bindR (le h 20 4) (\<lambda>sizeofcmds.
     bindR (octets f 32 sizeofcmds ''the load command table'') (\<lambda>cmds.
     macho_cmds f cmds 0 ncmds))))"

fun pe_sections :: "bytes \<Rightarrow> bytes \<Rightarrow> nat list \<Rightarrow> (shape_error, unit) result" where
  "pe_sections f table [] = Inr ()"
| "pe_sections f table (i # is) =
     (let s = i * 40
      in bindR (le table (s + 16) 4) (\<lambda>raw.
         bindR (if 0 < raw
           then bindR (le table (s + 20) 4) (\<lambda>p. bindR (c_name table s 8) (\<lambda>name.
                  fits f (p + raw) (''section '' @ name)))
           else Inr ()) (\<lambda>_.
         pe_sections f table is)))"

definition pe :: "bytes \<Rightarrow> (shape_error, unit) result" where
  "pe f =
     bindR (octets f 0 64 ''the DOS header'') (\<lambda>dos.
     bindR (le dos 60 4) (\<lambda>lfanew.
     bindR (octets f lfanew 24 ''the PE header'') (\<lambda>coff.
     bindR (if take 4 coff = [CHR ''P'', CHR ''E'', CHR 0x00, CHR 0x00] then Inr ()
            else Inl (refuse f ''no PE signature where e_lfanew points'')) (\<lambda>_.
     bindR (le coff 6 2) (\<lambda>nsections. bindR (le coff 20 2) (\<lambda>optsize.
     bindR (octets f (lfanew + 24 + optsize) (nsections * 40) ''the section table'') (\<lambda>table.
     pe_sections f table [0..<nsections])))))))"

definition ELF_MAGIC :: bytes where
  "ELF_MAGIC = [CHR 0x7F, CHR ''E'', CHR ''L'', CHR ''F'']"

definition MACHO_MAGIC :: bytes where
  "MACHO_MAGIC = [CHR 0xCF, CHR 0xFA, CHR 0xED, CHR 0xFE]"

definition check_artifact_shape :: "bytes \<Rightarrow> (shape_error, unit) result" where
  "check_artifact_shape f =
     (case octets_at f 0 4 of
        None \<Rightarrow> Inr ()
      | Some magic \<Rightarrow>
          if magic = ELF_MAGIC then elf f
          else if magic = MACHO_MAGIC then macho f
          else if take 2 magic = [CHR ''M'', CHR ''Z''] then pe f
          else Inr ())"

section \<open>What the headers say, read off the file\<close>

definition field :: "bytes \<Rightarrow> nat \<Rightarrow> nat \<Rightarrow> nat" where
  "field f start width = foldr (\<lambda>c n. code c + 256 * n) (take width (List.drop start f)) 0"

definition inside :: "bytes \<Rightarrow> nat \<times> nat \<Rightarrow> bool" where
  "inside f r \<longleftrightarrow> fst r + snd r \<le> length f"

text \<open>Of an ELF file: the section header table, the program header table and the loaded segments, as start and length.\<close>

definition elf_segment :: "bytes \<Rightarrow> nat \<Rightarrow> nat" where
  "elf_segment f i = field f 32 8 + i * field f 54 2"

definition elf_regions :: "bytes \<Rightarrow> (nat \<times> nat) list" where
  "elf_regions f =
     (if field f 60 2 = 0 then [] else [(field f 40 8, field f 60 2 * field f 58 2)]) @
     (field f 32 8, field f 56 2 * field f 54 2) #
     map (\<lambda>i. (field f (elf_segment f i + 8) 8, field f (elf_segment f i + 32) 8))
       (filter (\<lambda>i. field f (elf_segment f i) 4 = 1) [0..<field f 56 2])"

definition elf_ok :: "bytes \<Rightarrow> bool" where
  "elf_ok f \<longleftrightarrow>
     64 \<le> length f \<and>
     (field f 4 1 = 2 \<and> field f 5 1 = 1 \<longrightarrow>
       (0 < field f 56 2 \<longrightarrow> 56 \<le> field f 54 2) \<and> list_all (inside f) (elf_regions f))"

text \<open>Of a Mach-O file: where its load commands stand.\<close>

fun cmd_positions :: "bytes \<Rightarrow> nat \<Rightarrow> nat \<Rightarrow> nat list" where
  "cmd_positions f p 0 = []"
| "cmd_positions f p (Suc n) = p # cmd_positions f (p + field f (p + 4) 4) n"

definition cmd_ok :: "bytes \<Rightarrow> nat \<Rightarrow> nat \<Rightarrow> bool" where
  "cmd_ok f e p \<longleftrightarrow>
     p + 8 \<le> e \<and> 8 \<le> field f (p + 4) 4 \<and>
     (field f p 4 = 0x19 \<longrightarrow> p + 56 \<le> e \<and> inside f (field f (p + 40) 8, field f (p + 48) 8))"

definition macho_ok :: "bytes \<Rightarrow> bool" where
  "macho_ok f \<longleftrightarrow>
     32 \<le> length f \<and> inside f (32, field f 20 4) \<and>
     list_all (cmd_ok f (32 + field f 20 4)) (cmd_positions f 32 (field f 16 4))"

text \<open>Of a PE file: the section table, and the raw data of its entries.\<close>

definition pe_table :: "bytes \<Rightarrow> nat" where
  "pe_table f = field f 60 4 + 24 + field f (field f 60 4 + 20) 2"

definition pe_ok :: "bytes \<Rightarrow> bool" where
  "pe_ok f \<longleftrightarrow>
     64 \<le> length f \<and> inside f (field f 60 4, 24) \<and>
     take 4 (List.drop (field f 60 4) f) = [CHR ''P'', CHR ''E'', CHR 0x00, CHR 0x00] \<and>
     inside f (pe_table f, field f (field f 60 4 + 6) 2 * 40) \<and>
     list_all (\<lambda>i. 0 < field f (pe_table f + i * 40 + 16) 4 \<longrightarrow>
         inside f (field f (pe_table f + i * 40 + 20) 4, field f (pe_table f + i * 40 + 16) 4))
       [0..<field f (field f 60 4 + 6) 2]"

definition shape_ok :: "bytes \<Rightarrow> bool" where
  "shape_ok f \<longleftrightarrow>
     length f < 4 \<or>
     (if take 4 f = ELF_MAGIC then elf_ok f
      else if take 4 f = MACHO_MAGIC then macho_ok f
      else take 2 f = [CHR ''M'', CHR ''Z''] \<longrightarrow> pe_ok f)"

section \<open>The readers read the fields\<close>

lemma field_Suc: "start < length f \<Longrightarrow> field f start (Suc w) = code (f ! start) + 256 * field f (Suc start) w"
  by (simp add: field_def Cons_nth_drop_Suc [symmetric])

lemma le_from_field:
  "le_from v offset i w =
     (if w = 0 \<or> offset + i + w \<le> length v then Inr (2 ^ (8 * i) * field v (offset + i) w) else Inl BadIndex)"
proof (induction w arbitrary: i)
  case (Suc w)
  show ?case
  proof (cases "offset + i < length v")
    case True
    then show ?thesis by (auto simp: Suc aref_def field_Suc field_def [of _ _ 0] algebra_simps power_add)
  qed (simp add: aref_def)
qed (simp add: field_def)

lemma le_field: "0 < w \<Longrightarrow> le v offset w = (if offset + w \<le> length v then Inr (field v offset w) else Inl BadIndex)"
  by (simp add: le_def le_from_field)

lemma aref_field: "aref v i = (if i < length v then Inr (field v i 1) else Inl BadIndex)"
  using field_Suc [of i v 0] by (simp add: aref_def field_def [of _ _ 0])

lemma octets_at_length: "octets_at f start count = (if start + count \<le> length f \<or> count = 0 then Some (take count (List.drop start f)) else None)"
  by (auto simp: octets_at_def Let_def)

lemma octets_inside:
  "inside f (start, count) \<Longrightarrow> octets f start count what = Inr (take count (List.drop start f))"
  by (simp add: octets_def fits_def octets_at_length inside_def)

lemma field_part:
  "offset + w \<le> count \<Longrightarrow> field (take count (List.drop start f)) offset w = field f (start + offset) w"
  by (simp add: field_def drop_take min_def add.commute)

lemma le_part:
  assumes "inside f (start, count)" and "0 < w" and "offset + w \<le> count"
  shows "le (take count (List.drop start f)) offset w = Inr (field f (start + offset) w)"
proof -
  have "length (take count (List.drop start f)) = count" using assms(1) by (simp add: inside_def)
  with assms(3) show ?thesis unfolding le_field [OF assms(2)] by (simp only: field_part if_True)
qed

lemma c_name_part:
  assumes "inside f (start, count)" and "offset + w \<le> count"
  shows "\<exists>name. c_name (take count (List.drop start f)) offset w = Inr name"
proof -
  have "length (take count (List.drop start f)) = count" using assms(1) by (simp add: inside_def)
  with assms(2) show ?thesis unfolding c_name_def by simp
qed

text \<open>\<open>r\<close> decides \<open>P\<close>: it accepts where \<open>P\<close> holds and otherwise refuses.\<close>

definition decides :: "(shape_error, unit) result \<Rightarrow> bool \<Rightarrow> bool" where
  "decides r P \<longleftrightarrow> (if P then r = Inr () else \<exists>d. r = Inl (Refused d))"

lemma decides_fits: "decides (fits f e what) (e \<le> length f)"
  by (auto simp: decides_def fits_def refuse_def)

lemma decides_bind: "decides r P \<Longrightarrow> (P \<Longrightarrow> decides (k ()) Q) \<Longrightarrow> decides (bindR r k) (P \<and> Q)"
  by (auto simp: decides_def split: if_splits)

lemma decides_guard: "decides (if P then Inl (refuse f d) else Inr ()) (\<not> P)"
  "decides (if P then Inr () else Inl (refuse f d)) P"
  by (auto simp: decides_def refuse_def)

lemma decides_if: "(P \<Longrightarrow> decides r Q) \<Longrightarrow> decides (if P then r else Inr ()) (P \<longrightarrow> Q)"
  by (simp add: decides_def)

lemma decides_octets:
  assumes "inside f (start, count) \<Longrightarrow> decides (k (take count (List.drop start f))) Q"
  shows "decides (bindR (octets f start count what) k) (inside f (start, count) \<and> Q)"
proof (cases "inside f (start, count)")
  case True
  with assms show ?thesis by (simp add: octets_inside)
next
  case False
  then show ?thesis by (auto simp: octets_def fits_def inside_def decides_def refuse_def)
qed

lemma decides_cong: "decides r P \<Longrightarrow> P = Q \<Longrightarrow> decides r Q"
  by simp

section \<open>Each format is decided\<close>

lemma pt_loads_decides:
  assumes "inside f (o1, n * es)" and "56 \<le> es" and "\<forall>i\<in>set is. i < n"
  shows "decides (pt_loads f (take (n * es) (List.drop o1 f)) es is)
    (list_all (inside f) (map (\<lambda>i. (field f (o1 + i * es + 8) 8, field f (o1 + i * es + 32) 8))
      (filter (\<lambda>i. field f (o1 + i * es) 4 = 1) is)))"
  using assms(3)
proof (induction "is")
  case (Cons i js)
  let ?ph = "take (n * es) (List.drop o1 f)"
  have "Suc i * es \<le> n * es" using Cons.prems by (intro mult_le_mono1) simp
  then have room: "i * es + 56 \<le> n * es" using assms(2) by simp
  have reads: "le ?ph (i * es) 4 = Inr (field f (o1 + i * es) 4)"
    "le ?ph (i * es + 8) 8 = Inr (field f (o1 + i * es + 8) 8)"
    "le ?ph (i * es + 32) 8 = Inr (field f (o1 + i * es + 32) 8)"
    using le_part [OF assms(1) zero_less_numeral] room by (simp_all add: add.assoc)
  have "decides (fits f (field f (o1 + i * es + 8) 8 + field f (o1 + i * es + 32) 8) what)
      (inside f (field f (o1 + i * es + 8) 8, field f (o1 + i * es + 32) 8))" for what
    by (rule decides_cong [OF decides_fits]) (simp add: inside_def)
  note step = decides_bind [OF decides_if [OF this] Cons.IH]
  show ?case
    unfolding pt_loads.simps(2) Let_def reads bindR_simps
    by (rule decides_cong [OF step]) (use Cons.prems in auto)
qed (simp add: decides_def)

lemma elf_decides: "decides (elf f) (elf_ok f)"
proof -
  let ?h = "take 64 f"
  have reads: "aref ?h 4 = Inr (field f 4 1)" "aref ?h 5 = Inr (field f 5 1)"
    "le ?h 32 8 = Inr (field f 32 8)" "le ?h 40 8 = Inr (field f 40 8)" "le ?h 54 2 = Inr (field f 54 2)"
    "le ?h 56 2 = Inr (field f 56 2)" "le ?h 58 2 = Inr (field f 58 2)" "le ?h 60 2 = Inr (field f 60 2)"
    if "64 \<le> length f"
    using that field_part [of _ _ 64 0 f] by (simp_all add: aref_field le_field)
  let ?segs = "map (\<lambda>i. (field f (elf_segment f i + 8) 8, field f (elf_segment f i + 32) 8))
       (filter (\<lambda>i. field f (elf_segment f i) 4 = 1) [0..<field f 56 2])"
  have segs: "decides (pt_loads f (take (field f 56 2 * field f 54 2) (List.drop (field f 32 8) f)) (field f 54 2) [0..<field f 56 2])
      (list_all (inside f) ?segs)"
    if "inside f (field f 32 8, field f 56 2 * field f 54 2)" "\<not> (0 < field f 56 2 \<and> field f 54 2 < 56)"
  proof (cases "field f 56 2 = 0")
    case True
    then show ?thesis by (simp add: decides_def)
  next
    case False
    with that have "56 \<le> field f 54 2" by simp
    from pt_loads_decides [OF that(1) this, of "[0..<field f 56 2]"] show ?thesis
      by (simp add: elf_segment_def add.assoc)
  qed
  have table: "decides (fits f (field f 40 8 + field f 60 2 * field f 58 2) what) (inside f (field f 40 8, field f 60 2 * field f 58 2))"
    for what
    by (rule decides_cong [OF decides_fits]) (simp add: inside_def)
  show ?thesis
    unfolding elf_def
    apply (rule decides_cong [OF decides_octets])
     apply (simp only: List.drop_0 drop0 reads inside_def fst_conv snd_conv add_0 bindR_simps)
     apply (rule decides_if)
     apply (rule decides_bind [OF decides_if [OF table]])
     apply (rule decides_bind [OF decides_guard(1)])
     apply (rule decides_octets, rule segs, assumption, assumption)
    apply (auto simp: elf_ok_def inside_def elf_regions_def)
    done
qed

lemma macho_cmds_decides:
  assumes "inside f (32, count)"
  shows "decides (macho_cmds f (take count (List.drop 32 f)) pos n) (list_all (cmd_ok f (32 + count)) (cmd_positions f (32 + pos) n))"
proof (induction n arbitrary: pos)
  case (Suc n)
  let ?cmds = "take count (List.drop 32 f)"
  have len: "length ?cmds = count" using assms by (simp add: inside_def)
  have head: "le ?cmds pos 4 = Inr (field f (32 + pos) 4)" "le ?cmds (pos + 4) 4 = Inr (field f (32 + pos + 4) 4)"
    if "\<not> count < pos + 8"
    using le_part [OF assms zero_less_numeral] that by (simp_all add: add.assoc)
  have segment: "le ?cmds (pos + 40) 8 = Inr (field f (32 + pos + 40) 8)" "le ?cmds (pos + 48) 8 = Inr (field f (32 + pos + 48) 8)"
    if "\<not> count < pos + 56"
    using le_part [OF assms zero_less_numeral] that by (simp_all add: add.assoc)
  have place: "decides (fits f (a + b) what) (inside f (a, b))" for a b what
    by (rule decides_cong [OF decides_fits]) (simp add: inside_def)
  have seg: "decides (bindR (le ?cmds (pos + 40) 8) (\<lambda>fileoff. bindR (le ?cmds (pos + 48) 8) (\<lambda>filesize.
        bindR (c_name ?cmds (pos + 8) 16) (\<lambda>name. fits f (fileoff + filesize) (''segment '' @ name)))))
      (inside f (field f (32 + pos + 40) 8, field f (32 + pos + 48) 8))" if "\<not> count < pos + 56"
  proof -
    have "pos + 8 + 16 \<le> count" using that by simp
    then obtain name where "c_name ?cmds (pos + 8) 16 = Inr name" using c_name_part [OF assms] by blast
    then show ?thesis using segment [OF that] place by simp
  qed
  show ?case
    unfolding macho_cmds.simps(2) len
    apply (rule decides_cong [OF decides_bind [OF decides_guard(1)]])
     apply (simp only: head bindR_simps not_False_eq_True)
     apply (rule decides_bind [OF decides_guard(1)])
     apply (rule decides_bind [OF decides_if])
      apply (rule decides_bind [OF decides_guard(1) seg], assumption)
     apply (rule Suc)
    apply (auto simp: cmd_ok_def add.assoc)
    done
qed (simp add: decides_def)

lemma macho_decides: "decides (macho f) (macho_ok f)"
proof -
  have reads: "le (take 32 f) 16 4 = Inr (field f 16 4)" "le (take 32 f) 20 4 = Inr (field f 20 4)" if "32 \<le> length f"
    using that field_part [of _ _ 32 0 f] by (simp_all add: le_field)
  have cmds: "decides (macho_cmds f (take n (List.drop 32 f)) 0 m) (list_all (cmd_ok f (32 + n)) (cmd_positions f 32 m))"
    if "inside f (32, n)" for n m
    using macho_cmds_decides [OF that, of 0 m] by simp
  show ?thesis
    unfolding macho_def
    apply (rule decides_cong [OF decides_octets])
     apply (simp only: drop0 reads inside_def fst_conv snd_conv add_0 bindR_simps)
     apply (rule decides_octets, rule cmds, assumption)
    apply (simp add: macho_ok_def inside_def)
    done
qed

lemma pe_sections_decides:
  assumes "inside f (o1, n * 40)" and "\<forall>i\<in>set is. i < n"
  shows "decides (pe_sections f (take (n * 40) (List.drop o1 f)) is)
    (list_all (\<lambda>i. 0 < field f (o1 + i * 40 + 16) 4 \<longrightarrow>
       inside f (field f (o1 + i * 40 + 20) 4, field f (o1 + i * 40 + 16) 4)) is)"
  using assms(2)
proof (induction "is")
  case (Cons i js)
  let ?t = "take (n * 40) (List.drop o1 f)"
  have room: "i * 40 + 40 \<le> n * 40" using Cons.prems by simp
  have reads: "le ?t (i * 40 + 16) 4 = Inr (field f (o1 + i * 40 + 16) 4)"
    "le ?t (i * 40 + 20) 4 = Inr (field f (o1 + i * 40 + 20) 4)"
    using le_part [OF assms(1) zero_less_numeral] room by (simp_all add: add.assoc)
  obtain name where name: "c_name ?t (i * 40) 8 = Inr name"
    using c_name_part [OF assms(1), of "i * 40" 8] room by auto
  have place: "decides (fits f (a + b) what) (inside f (a, b))" for a b what
    by (rule decides_cong [OF decides_fits]) (simp add: inside_def)
  note step = decides_bind [OF decides_if [OF place] Cons.IH]
  show ?case
    unfolding pe_sections.simps(2) Let_def reads(1,2) name bindR_simps
    by (rule decides_cong [OF step]) (use Cons.prems in auto)
qed (simp add: decides_def)

lemma pe_decides: "decides (pe f) (pe_ok f)"
proof -
  let ?l = "field f 60 4"
  have dos: "le (take 64 f) 60 4 = Inr ?l" if "64 \<le> length f"
    using that field_part [of _ _ 64 0 f] by (simp add: le_field)
  have coff: "le (take 24 (List.drop ?l f)) 6 2 = Inr (field f (?l + 6) 2)"
    "le (take 24 (List.drop ?l f)) 20 2 = Inr (field f (?l + 20) 2)" if "?l + 24 \<le> length f"
    using that by (simp_all add: le_field field_part)
  have sections: "decides (pe_sections f (take (n * 40) (List.drop a f)) [0..<n])
      (list_all (\<lambda>i. 0 < field f (a + i * 40 + 16) 4 \<longrightarrow>
         inside f (field f (a + i * 40 + 20) 4, field f (a + i * 40 + 16) 4)) [0..<n])" if "inside f (a, n * 40)" for a n
    using pe_sections_decides [OF that, of "[0..<n]"] by simp
  show ?thesis
    unfolding pe_def
    apply (rule decides_cong [OF decides_octets])
     apply (simp only: drop0 dos inside_def fst_conv snd_conv add_0 bindR_simps)
     apply (rule decides_octets)
     apply (rule decides_bind [OF decides_guard(2)])
     apply (simp only: coff inside_def fst_conv snd_conv bindR_simps)
     apply (rule decides_octets, rule sections, assumption)
    apply (simp add: pe_ok_def inside_def pe_table_def)
    done
qed

lemma check_decides: "decides (check_artifact_shape f) (shape_ok f)"
proof (cases "length f < 4")
  case True
  then show ?thesis by (simp add: check_artifact_shape_def octets_at_length shape_ok_def decides_def)
next
  case False
  then have "check_artifact_shape f =
      (if take 4 f = ELF_MAGIC then elf f else if take 4 f = MACHO_MAGIC then macho f
       else if take 2 f = [CHR ''M'', CHR ''Z''] then pe f else Inr ())"
    by (simp add: check_artifact_shape_def octets_at_length min_def)
  then show ?thesis
    using False elf_decides [of f] macho_decides [of f] pe_decides [of f] decides_if [of _ "pe f" "pe_ok f"]
    by (simp add: shape_ok_def)
qed

text \<open>A cut does not change the fields before it.\<close>

lemma field_cut: "start + width \<le> n \<Longrightarrow> field (take n f) start width = field f start width"
  by (simp add: field_def drop_take)

lemma elf_cut:
  assumes "64 \<le> n" and "field f 4 1 = 2" and "field f 5 1 = 1" and "elf_ok (take n f)"
  shows "list_all (inside (take n f)) (elf_regions f)"
proof -
  let ?g = "take n f"
  have head: "field ?g o1 w = field f o1 w" if "o1 + w \<le> 64" for o1 w
    using field_cut that assms(1) by simp
  have regions: "list_all (inside ?g) (elf_regions ?g)" and size: "0 < field f 56 2 \<Longrightarrow> 56 \<le> field f 54 2"
    using assms head by (auto simp: elf_ok_def)
  have table: "field f 32 8 + field f 56 2 * field f 54 2 \<le> n"
    using regions by (simp add: elf_regions_def inside_def head)
  have entry: "field ?g (elf_segment f i + k) w = field f (elf_segment f i + k) w" if "i < field f 56 2" "k + w \<le> 56" for i k w
  proof (rule field_cut)
    have "Suc i * field f 54 2 \<le> field f 56 2 * field f 54 2" using that(1) by (intro mult_le_mono1) simp
    then show "elf_segment f i + k + w \<le> n" using table size that by (simp add: elf_segment_def)
  qed
  have segment: "elf_segment ?g i = elf_segment f i" for i
    by (simp add: elf_segment_def head)
  have "elf_regions ?g = elf_regions f"
    using entry [of _ 0 4] entry [of _ 8 8] entry [of _ 32 8] by (auto simp: elf_regions_def head segment intro!: map_cong filter_cong)
  with regions show ?thesis by simp
qed

section \<open>Property\<close>

text \<open>
  (C19) The check is exactly what the headers say.  It accepts a file if and only if every region its ELF, Mach-O or PE
  headers place ends within the file and the headers are well formed, it never indexes outside a vector it has read,
  and an ELF file that has been cut before the end of one of its regions, and keeps its magic number, is refused.
\<close>

theorem artifact_check_exact:
  "(check_artifact_shape f = Inr () \<longleftrightarrow> shape_ok f) \<and> check_artifact_shape f \<noteq> Inl BadIndex \<and>
   (4 \<le> n \<and> take 4 f = ELF_MAGIC \<and> field f 4 1 = 2 \<and> field f 5 1 = 1 \<and> \<not> list_all (inside (take n f)) (elf_regions f) \<longrightarrow>
     (\<exists>why. check_artifact_shape (take n f) = Inl (Refused why)))"
proof -
  have "\<not> shape_ok (take n f)"
    if "4 \<le> n" "take 4 f = ELF_MAGIC" "field f 4 1 = 2" "field f 5 1 = 1" "\<not> list_all (inside (take n f)) (elf_regions f)"
  proof -
    have "length (take 4 f) = 4" unfolding that(2) by (simp add: ELF_MAGIC_def)
    then have "\<not> length (take n f) < 4" using that(1) by simp
    moreover have "take 4 (take n f) = ELF_MAGIC" using that(1,2) by (simp add: min_def)
    moreover have "\<not> elf_ok (take n f)"
    proof
      assume ok: "elf_ok (take n f)"
      then have "64 \<le> n" by (simp add: elf_ok_def)
      from elf_cut [OF this that(3,4) ok] that(5) show False by blast
    qed
    ultimately show ?thesis by (simp add: shape_ok_def)
  qed
  then show ?thesis
    using check_decides [of f] check_decides [of "take n f"] by (auto simp: decides_def split: if_splits)
qed

text \<open>A file of a header and one octet, at whose end an empty program header table is placed; and the same file cut.\<close>

definition small_elf :: bytes where
  "small_elf =
    [CHR 0x7F, CHR 0x45, CHR 0x4C, CHR 0x46, CHR 0x02, CHR 0x01, CHR 0x00, CHR 0x00, CHR 0x00, CHR 0x00,
     CHR 0x00, CHR 0x00, CHR 0x00, CHR 0x00, CHR 0x00, CHR 0x00, CHR 0x00, CHR 0x00, CHR 0x00, CHR 0x00,
     CHR 0x00, CHR 0x00, CHR 0x00, CHR 0x00, CHR 0x00, CHR 0x00, CHR 0x00, CHR 0x00, CHR 0x00, CHR 0x00,
     CHR 0x00, CHR 0x00, CHR 0x41, CHR 0x00, CHR 0x00, CHR 0x00, CHR 0x00, CHR 0x00, CHR 0x00, CHR 0x00,
     CHR 0x00, CHR 0x00, CHR 0x00, CHR 0x00, CHR 0x00, CHR 0x00, CHR 0x00, CHR 0x00, CHR 0x00, CHR 0x00,
     CHR 0x00, CHR 0x00, CHR 0x00, CHR 0x00, CHR 0x00, CHR 0x00, CHR 0x00, CHR 0x00, CHR 0x00, CHR 0x00,
     CHR 0x00, CHR 0x00, CHR 0x00, CHR 0x00, CHR 0x00]"

theorem artifact_check_exact_witness:
  "check_artifact_shape small_elf = Inr () \<and> (\<exists>why. check_artifact_shape (take 64 small_elf) = Inl (Refused why))"
proof -
  have fields: "field small_elf 4 1 = 2" "field small_elf 5 1 = 1" "field small_elf 32 8 = 65" "field small_elf 40 8 = 0"
    "field small_elf 54 2 = 0" "field small_elf 56 2 = 0" "field small_elf 58 2 = 0" "field small_elf 60 2 = 0"
    by (simp_all add: field_def small_elf_def)
  have len: "length small_elf = 65" "take 4 small_elf = ELF_MAGIC" by (simp_all add: small_elf_def ELF_MAGIC_def)
  have regions: "elf_regions small_elf = [(65, 0)]" by (simp add: elf_regions_def fields)
  have "shape_ok small_elf" by (simp add: shape_ok_def elf_ok_def len regions fields inside_def)
  moreover have "\<not> list_all (inside (take 64 small_elf)) (elf_regions small_elf)" by (simp add: regions inside_def len)
  ultimately show ?thesis using artifact_check_exact [of small_elf 64] len(2) fields(1,2) by simp
qed

end
