(* ===== verification/Loader.thy ===== *)
theory Loader
  imports Shim Artifact
begin

text \<open>
  \<^verbatim>\<open>lisp/src/crate.lisp\<close>: loading, reloading and restoring crates.  A loaded library is a mapping with a number of its own,
  never unmapped while the process lives; a foreign pointer is a mapping and the symbol it was resolved from.  The file
  system, the host's loader and what a library's functions answer are parameters.  All operations hold the registry's
  lock, so each is one definition.  Names are ASCII, and a package uses no other package.
\<close>

section \<open>What a crate exports\<close>

text \<open>\<^verbatim>\<open>#[rulisp::export]\<close> on an item, and the entry points that \<^verbatim>\<open>module!\<close> adds.\<close>

datatype rust_item = ItemFn item_fn | ItemImpl ty "item_fn option list" | OtherItem

datatype export_error = Rejected macro_error | NotExportable

definition export_item :: "rust_item \<Rightarrow> (export_error, exported_fn list) result" where
  "export_item item =
     (case item of
        ItemFn f \<Rightarrow> (case export_free_fn f of Inr extra \<Rightarrow> Inr [extra] | Inl e \<Rightarrow> Inl (Rejected e))
      | ItemImpl self_ty items \<Rightarrow> (case export_impl self_ty items of Inr ts \<Rightarrow> Inr ts | Inl e \<Rightarrow> Inl (Rejected e))
      | OtherItem \<Rightarrow> Inl NotExportable)"

definition abi_entry :: u32 where
  "abi_entry = ABI_VERSION"

definition manifest_entry :: "bytes \<Rightarrow> bytes \<times> nat" where
  "manifest_entry s = (s, length s)"

definition last_error_entry :: "tid \<Rightarrow> ('h, 'z) runtime_scheme \<Rightarrow> (bytes \<times> nat) \<times> (bytes \<times> nat)" where
  "last_error_entry t s = read_last_error t s"

definition dealloc_entry :: "ptr \<Rightarrow> nat \<Rightarrow> nat \<Rightarrow> ('h, 'z) runtime_scheme \<Rightarrow> ('h, 'z) runtime_scheme option" where
  "dealloc_entry p n align s = dealloc p n align s"

definition crate_symbols :: "bytes \<Rightarrow> exported_fn list \<Rightarrow> handle_meta list \<Rightarrow> bytes list" where
  "crate_symbols pkg fs hs =
     map ((@) (crate_prefix pkg))
       ([''abi_version'', ''manifest'', ''last_error'', ''dealloc''] @ map ef_symbol fs @ map hm_free_symbol hs)"

section \<open>The host\<close>

text \<open>
  What \<^verbatim>\<open>dlsym\<close> finds, and what a function answers when it is called as \<^verbatim>\<open>abi_version\<close> or as \<^verbatim>\<open>manifest\<close>: the octets at
  the pointer, and the length.
\<close>

record library =
  li_symbols :: "bytes list"
  li_u32 :: "bytes \<Rightarrow> u32"
  li_text :: "bytes \<Rightarrow> bytes \<times> nat"

text \<open>
  The file system by path: is it a directory, its contents when it exists, the name without directory and
  extension, the error of copying it into the cache, and the library that opening the copy gives.
\<close>

record disk =
  dk_directory :: "bytes \<Rightarrow> bool"
  dk_contents :: "bytes \<Rightarrow> bytes option"
  dk_stem :: "bytes \<Rightarrow> bytes"
  dk_copy :: "bytes \<Rightarrow> bytes option"
  dk_open :: "bytes \<Rightarrow> (bytes, library) result"

record host =
  ho_x86_64 :: bool
  ho_arm64 :: bool
  ho_linux :: bool
  ho_macos :: bool
  ho_windows :: bool

text \<open>\<^verbatim>\<open>search\<close>.\<close>

definition occurs :: "bytes \<Rightarrow> bytes \<Rightarrow> bool" where
  "occurs p s \<longleftrightarrow> list_ex (\<lambda>i. take (length p) (List.drop i s) = p) [0..<Suc (length s)]"

definition target_compatible :: "host \<Rightarrow> bytes \<Rightarrow> bool" where
  "target_compatible h triple =
     (let arch = takeWhile (\<lambda>c. c \<noteq> CHR ''-'') triple;
          arch_ok = (if arch = ''x86_64'' then ho_x86_64 h else if arch = ''aarch64'' then ho_arm64 h else True);
          os_ok = (if occurs ''linux'' triple then ho_linux h
                   else if occurs ''darwin'' triple then ho_macos h
                   else if occurs ''windows'' triple then ho_windows h else True)
      in arch_ok \<and> os_ok)"

section \<open>Crates and bindings\<close>

type_synonym fptr = "nat \<times> bytes"
type_synonym symbol = "bytes \<times> bytes"

record load_ctx =
  lx_generation :: nat
  lx_session :: nat
  lx_last_error :: fptr
  lx_dealloc :: fptr
  lx_free_table :: "(bytes \<times> fptr) list"

record crate =
  cr_name :: bytes
  cr_package :: bytes
  cr_generation :: nat
  cr_lib :: "nat option"
  cr_manifest :: "manifest option"
  cr_manifest_source :: bytes
  cr_source_path :: "bytes option"
  cr_last_error :: "fptr option"
  cr_dealloc :: "fptr option"
  cr_symbols :: "symbol list"
  cr_handle_frees :: "(bytes \<times> fptr) list"
  cr_on_dump :: "fptr option"
  cr_stub_reason :: "bytes option"

definition new_crate :: "bytes \<Rightarrow> bytes \<Rightarrow> crate" where
  "new_crate name package =
     \<lparr>cr_name = name, cr_package = package, cr_generation = 0, cr_lib = None, cr_manifest = None, cr_manifest_source = [],
      cr_source_path = None, cr_last_error = None, cr_dealloc = None, cr_symbols = [], cr_handle_frees = [],
      cr_on_dump = None, cr_stub_reason = None\<rparr>"

text \<open>The function of a symbol: a wrapper of a crate with its context and pointer, or the closure that refuses.\<close>

datatype binding = Wrapper bytes load_ctx fptr fn_spec | Stub bytes bytes

record loader =
  ld_session :: nat
  ld_crates :: "bytes \<rightharpoonup> crate"
  ld_order :: "bytes list"
  ld_functions :: "symbol \<rightharpoonup> binding"
  ld_class_owner :: "symbol \<rightharpoonup> bytes"
  ld_maps :: "nat \<rightharpoonup> library"
  ld_next :: nat

definition loader_init :: loader where
  "loader_init = \<lparr>ld_session = 0, ld_crates = Map.empty, ld_order = [], ld_functions = Map.empty,
     ld_class_owner = Map.empty, ld_maps = Map.empty, ld_next = 0\<rparr>"

datatype load_error =
    NotLoaded bytes
  | ShapeError shape_error
  | AbiMismatch "nat option"
  | AbiDisagrees nat nat
  | WrongTarget bytes
  | BadManifest manifest_error
  | ManifestError bytes
  | NoPath

section \<open>Opening and verifying\<close>

definition dlsym :: "library \<Rightarrow> bytes \<Rightarrow> bool" where
  "dlsym lib name \<longleftrightarrow> name \<in> set (li_symbols lib)"

definition read_library_manifest :: "library \<Rightarrow> bytes \<Rightarrow> (load_error, manifest \<times> bytes) result" where
  "read_library_manifest lib prefix =
     (if \<not> dlsym lib (prefix @ ''manifest'') then Inl (ManifestError (''no '' @ prefix @ ''manifest symbol''))
      else let (s, n) = li_text lib (prefix @ ''manifest''); raw = take n s
           in case parse_manifest raw of Inl e \<Rightarrow> Inl (BadManifest e) | Inr mf \<Rightarrow> Inr (mf, raw))"

definition verify_library :: "host \<Rightarrow> bytes \<Rightarrow> library \<Rightarrow> (load_error, manifest \<times> bytes) result" where
  "verify_library h prefix lib =
     (if \<not> dlsym lib (prefix @ ''abi_version'') then Inl (AbiMismatch None)
      else let abi = unat (li_u32 lib (prefix @ ''abi_version''))
           in if abi \<noteq> 1 then Inl (AbiMismatch (Some abi))
              else bindR (read_library_manifest lib prefix) (\<lambda>(mf, raw).
                if mf_abi mf \<noteq> abi then Inl (AbiDisagrees abi (mf_abi mf))
                else case mf_target mf of
                       Some target \<Rightarrow> if target_compatible h target then Inr (mf, raw) else Inl (WrongTarget target)
                     | None \<Rightarrow> Inr (mf, raw)))"

text \<open>A library that was opened stays mapped, whatever becomes of the load.\<close>

definition open_and_verify ::
  "disk \<Rightarrow> host \<Rightarrow> bytes \<Rightarrow> bytes \<Rightarrow> loader \<Rightarrow> (load_error, nat \<times> library \<times> manifest \<times> bytes) result \<times> loader" where
  "open_and_verify d h path prefix s =
     (case dk_open d path of
        Inl e \<Rightarrow> (Inl (NotLoaded e), s)
      | Inr lib \<Rightarrow>
          (map_sum id (\<lambda>(mf, raw). (ld_next s, lib, mf, raw)) (verify_library h prefix lib),
           s\<lparr>ld_maps := (ld_maps s)(ld_next s \<mapsto> lib), ld_next := Suc (ld_next s)\<rparr>))"

section \<open>Bindings\<close>

definition resolve :: "nat \<Rightarrow> library \<Rightarrow> bytes \<Rightarrow> bytes \<Rightarrow> bytes \<Rightarrow> (load_error, fptr) result" where
  "resolve m lib prefix crate short =
     (if dlsym lib (prefix @ short) then Inr (m, prefix @ short)
      else Inl (ManifestError (''symbol '' @ prefix @ short @ '' not found in crate '' @ crate)))"

text \<open>
  What \<^verbatim>\<open>wrapper-form\<close> refuses: a handle type the manifest does not declare, a second callback parameter, a type
  that has no C form.
\<close>

fun handle_known :: "bytes list \<Rightarrow> sexp \<Rightarrow> bool" where
  "handle_known hs (SList (tag # rest)) =
     (tag = kw ''handle'' \<longrightarrow>
       (case rest of
          StrLit n # _ \<Rightarrow> n \<in> set hs
        | Keyword n # _ \<Rightarrow> n \<in> set hs
        | _ \<Rightarrow> False))"
| "handle_known hs ty = True"

fun callback_type :: "sexp \<Rightarrow> bool" where
  "callback_type (SList (tag # rest)) = (tag = kw ''callback'')"
| "callback_type ty = False"

definition wrapper_form :: "bytes list \<Rightarrow> bytes \<Rightarrow> fn_spec \<Rightarrow> (load_error, unit) result" where
  "wrapper_form hs qualified f =
     (if \<not> list_all (handle_known hs) (fs_result f # map ps_type (fs_params f)) then Inl (ManifestError ''unknown handle type'')
      else if 1 < length (filter (callback_type \<circ> ps_type) (fs_params f))
      then Inl (ManifestError (qualified @ '': at most one callback parameter (v1)''))
      else if lisp_signature f = None then Inl (ManifestError ''unknown type'')
      else Inr ())"

definition downcase :: "octet \<Rightarrow> octet" where
  "downcase c = (if 65 \<le> code c \<and> code c \<le> 90 then octet (code c + 32) else c)"

definition lisp_symbol :: "crate \<Rightarrow> bytes \<Rightarrow> symbol" where
  "lisp_symbol c name = (cr_package c, map upcase name)"

definition prepare_bindings ::
  "(symbol \<rightharpoonup> bytes) \<Rightarrow> crate \<Rightarrow> manifest \<Rightarrow> load_ctx \<Rightarrow> (bytes \<Rightarrow> (load_error, fptr) result) \<Rightarrow>
   (load_error, symbol list \<times> (symbol \<times> binding) list) result" where
  "prepare_bindings owner c mf x res =
     bindR (mapR (\<lambda>h. let sm = lisp_symbol c (hs_lisp_name h)
                       in case owner sm of
                            Some own \<Rightarrow> if own \<noteq> cr_name c then Inl (ManifestError ''handle class already belongs to another crate'')
                                      else Inr sm
                          | None \<Rightarrow> Inr sm) (mf_handles mf)) (\<lambda>classes.
     bindR (mapR (\<lambda>f. bindR (res (fs_symbol f)) (\<lambda>p.
                      bindR (wrapper_form (map hs_rust_name (mf_handles mf)) (map downcase (cr_package c @ '':'' @ fs_lisp_name f)) f) (\<lambda>_.
                      Inr (lisp_symbol c (fs_lisp_name f), Wrapper (cr_name c) x p f)))) (mf_functions mf)) (\<lambda>fns.
     Inr (classes, fns)))"

definition commit_bindings :: "crate \<Rightarrow> symbol list \<times> (symbol \<times> binding) list \<Rightarrow> loader \<Rightarrow> loader" where
  "commit_bindings c prepared s =
     (let (classes, fns) = prepared; new_symbols = map fst fns;
          set_functions = foldl (\<lambda>m (sm, b). m(sm \<mapsto> b)) (ld_functions s) fns
      in s\<lparr>ld_class_owner := foldl (\<lambda>m sm. m(sm \<mapsto> cr_name c)) (ld_class_owner s) classes,
           ld_functions := (\<lambda>sm. if sm \<in> set (cr_symbols c) \<and> sm \<notin> set new_symbols then None else set_functions sm),
           ld_crates := (ld_crates s)(cr_name c \<mapsto> c\<lparr>cr_symbols := new_symbols\<rparr>)\<rparr>)"

definition commit_generation ::
  "crate \<Rightarrow> bytes \<Rightarrow> nat \<Rightarrow> library \<Rightarrow> manifest \<Rightarrow> bytes \<Rightarrow> loader \<Rightarrow> (load_error, loader) result" where
  "commit_generation c path m lib mf raw s =
     (let gen = Suc (cr_generation c); res = resolve m lib (mf_prefix mf) (cr_name c)
      in bindR (res ''last_error'') (\<lambda>last_error.
         bindR (res ''dealloc'') (\<lambda>de.
         bindR (case mf_on_dump mf of None \<Rightarrow> Inr None | Some sm \<Rightarrow> map_sum id Some (res sm)) (\<lambda>on_dump.
         bindR (mapR (\<lambda>h. map_sum id (Pair (hs_rust_name h)) (res (hs_free h))) (mf_handles mf)) (\<lambda>frees.
         let x = \<lparr>lx_generation = gen, lx_session = ld_session s, lx_last_error = last_error, lx_dealloc = de,
                  lx_free_table = frees\<rparr>
         in bindR (prepare_bindings (ld_class_owner s) c mf x res) (\<lambda>prepared.
            Inr (commit_bindings
              (c\<lparr>cr_stub_reason := None, cr_generation := gen, cr_lib := Some m, cr_manifest := Some mf,
                 cr_manifest_source := raw, cr_source_path := Some path, cr_last_error := Some last_error,
                 cr_dealloc := Some de, cr_handle_frees := frees, cr_on_dump := on_dump\<rparr>) prepared s)))))))"

section \<open>Loading\<close>

definition derive_crate_name :: "bytes \<Rightarrow> bytes" where
  "derive_crate_name base = (if 4 \<le> length base \<and> take 3 base = ''lib'' then List.drop 3 base else base)"

abbreviation underscored :: "bytes \<Rightarrow> bytes" where
  "underscored \<equiv> replace_char (CHR ''-'') (CHR ''_'')"

text \<open>The crate a manifest names: the one that is registered, or one that is registered now.\<close>

definition registered :: "bytes \<Rightarrow> bytes option \<Rightarrow> loader \<Rightarrow> crate \<times> loader" where
  "registered canonical package s =
     (case ld_crates s canonical of
        Some c \<Rightarrow> (c, s)
      | None \<Rightarrow>
          (let c = new_crate canonical (case package of Some p \<Rightarrow> p | None \<Rightarrow> map upcase canonical)
           in (c, s\<lparr>ld_order := ld_order s @ [canonical], ld_crates := (ld_crates s)(canonical \<mapsto> c)\<rparr>)))"

definition load_verified ::
  "bytes \<Rightarrow> bytes option \<Rightarrow> bytes option \<Rightarrow> nat \<times> library \<times> manifest \<times> bytes \<Rightarrow> loader \<Rightarrow> (load_error, bytes) result \<times> loader" where
  "load_verified path crate_arg package v s =
     (case v of (m, lib, mf, raw) \<Rightarrow>
        let canonical = mf_crate mf
        in if (case crate_arg of Some a \<Rightarrow> underscored canonical \<noteq> underscored a | None \<Rightarrow> False)
           then (Inl (ManifestError (''manifest says crate '' @ canonical)), s)
           else (case registered canonical package s of
                   (c, s') \<Rightarrow>
                     (case commit_generation c path m lib mf raw s' of
                        Inl e \<Rightarrow> (Inl e, s')
                      | Inr s'' \<Rightarrow> (Inr canonical, s''))))"

definition load_crate_locked ::
  "disk \<Rightarrow> host \<Rightarrow> bytes option \<Rightarrow> bytes option \<Rightarrow> bytes option \<Rightarrow> loader \<Rightarrow> (load_error, bytes) result \<times> loader" where
  "load_crate_locked d h path_arg crate_arg package s =
     (case path_arg of
        None \<Rightarrow> (Inl NoPath, s)
      | Some path \<Rightarrow>
          if dk_directory d path then (Inl (NotLoaded (path @ '' is a directory'')), s)
          else (case dk_contents d path of
                  None \<Rightarrow> (Inl (NotLoaded ''artifact does not exist''), s)
                | Some contents \<Rightarrow>
                    let provisional = underscored (case crate_arg of Some a \<Rightarrow> a | None \<Rightarrow> derive_crate_name (dk_stem d path))
                    in case check_artifact_shape contents of
                         Inl e \<Rightarrow> (Inl (ShapeError e), s)
                       | Inr _ \<Rightarrow>
                           (case dk_copy d path of
                              Some e \<Rightarrow> (Inl (NotLoaded e), s)
                            | None \<Rightarrow>
                                (case open_and_verify d h path (provisional @ ''_rulisp_'') s of
                                   (Inl e, s') \<Rightarrow> (Inl e, s')
                                 | (Inr v, s') \<Rightarrow> load_verified path crate_arg package v s'))))"

definition load_crate ::
  "disk \<Rightarrow> host \<Rightarrow> bytes \<Rightarrow> bytes option \<Rightarrow> bytes option \<Rightarrow> loader \<Rightarrow> (load_error, bytes) result \<times> loader" where
  "load_crate d h path crate_arg package s = load_crate_locked d h (Some path) crate_arg package s"

definition resolve_crate :: "bytes \<Rightarrow> loader \<Rightarrow> (load_error, crate) result" where
  "resolve_crate name s =
     (case ld_crates s (map downcase name) of Some c \<Rightarrow> Inr c | None \<Rightarrow> Inl (NotLoaded ''no such crate loaded''))"

definition reload_crate :: "disk \<Rightarrow> host \<Rightarrow> bytes \<Rightarrow> bytes option \<Rightarrow> loader \<Rightarrow> (load_error, bytes) result \<times> loader" where
  "reload_crate d h name path s =
     (case resolve_crate name s of
        Inl e \<Rightarrow> (Inl e, s)
      | Inr c \<Rightarrow> load_crate_locked d h (case path of Some p \<Rightarrow> Some p | None \<Rightarrow> cr_source_path c) (Some (cr_name c)) None s)"

section \<open>Image dump and restore\<close>

definition stub_crate :: "bytes \<Rightarrow> bytes \<Rightarrow> loader \<Rightarrow> loader" where
  "stub_crate name reason s =
     (case ld_crates s name of
        None \<Rightarrow> s
      | Some c \<Rightarrow>
          s\<lparr>ld_functions := foldl (\<lambda>m sm. m(sm \<mapsto> Stub name reason)) (ld_functions s) (cr_symbols c),
            ld_crates := (ld_crates s)(name \<mapsto>
              c\<lparr>cr_lib := None, cr_on_dump := None, cr_last_error := None, cr_dealloc := None, cr_handle_frees := [],
                cr_stub_reason := Some reason\<rparr>)\<rparr>)"

text \<open>\<open>explain\<close>: a condition printed.  A new process has none of the old mappings.\<close>

definition restore_crate :: "(load_error \<Rightarrow> bytes) \<Rightarrow> disk \<Rightarrow> host \<Rightarrow> bytes \<Rightarrow> loader \<Rightarrow> loader" where
  "restore_crate explain d h name s =
     (case ld_crates s name of
        None \<Rightarrow> s
      | Some c \<Rightarrow>
          (case load_crate_locked d h (cr_source_path c) (Some name) None s of
             (Inr _, s') \<Rightarrow> s'
           | (Inl e, s') \<Rightarrow> stub_crate name (''reload failed on image restore: '' @ explain e) s'))"

definition restore_all_crates :: "(load_error \<Rightarrow> bytes) \<Rightarrow> disk \<Rightarrow> host \<Rightarrow> bytes list \<Rightarrow> loader \<Rightarrow> loader" where
  "restore_all_crates explain d h names s =
     foldl (\<lambda>s name. restore_crate explain d h name s) (s\<lparr>ld_session := Suc (ld_session s), ld_maps := Map.empty\<rparr>) names"

text \<open>The pointers a dump calls, in order.\<close>

definition run_crate_dump_hooks :: "loader \<Rightarrow> fptr list" where
  "run_crate_dump_hooks s =
     List.map_filter (\<lambda>name.
       case ld_crates s name of
         Some c \<Rightarrow> (case (cr_on_dump c, cr_lib c) of (Some p, Some _) \<Rightarrow> Some p | _ \<Rightarrow> None)
       | None \<Rightarrow> None) (ld_order s)"

section \<open>Runs of the loader\<close>

text \<open>
  \<open>N\<close>: the crate names that the artifacts on disk declare.  The disk may change between two operations.  A restore
  visits every registered crate, in any order.
\<close>

definition disk_names :: "bytes set \<Rightarrow> disk \<Rightarrow> bool" where
  "disk_names N d \<longleftrightarrow>
     (\<forall>path lib prefix mf raw. dk_open d path = Inr lib \<longrightarrow> read_library_manifest lib prefix = Inr (mf, raw) \<longrightarrow> mf_crate mf \<in> N)"

inductive loader_reach :: "bytes set \<Rightarrow> loader \<Rightarrow> bool" for N where
  start: "loader_reach N loader_init"
| load: "loader_reach N s \<Longrightarrow> disk_names N d \<Longrightarrow> loader_reach N (snd (load_crate d h path crate_arg package s))"
| reload: "loader_reach N s \<Longrightarrow> disk_names N d \<Longrightarrow> loader_reach N (snd (reload_crate d h name path s))"
| restore: "loader_reach N s \<Longrightarrow> disk_names N d \<Longrightarrow> set names = dom (ld_crates s) \<Longrightarrow>
     loader_reach N (restore_all_crates explain d h names s)"

definition live_ptr :: "loader \<Rightarrow> nat \<Rightarrow> fptr \<Rightarrow> bool" where
  "live_ptr s m p \<longleftrightarrow> fst p = m \<and> (\<exists>lib. ld_maps s m = Some lib \<and> dlsym lib (snd p))"

definition ctx_ptrs :: "load_ctx \<Rightarrow> fptr set" where
  "ctx_ptrs x = {lx_last_error x, lx_dealloc x} \<union> snd ` set (lx_free_table x)"

definition crate_ptrs :: "crate \<Rightarrow> fptr set" where
  "crate_ptrs c = set_option (cr_last_error c) \<union> set_option (cr_dealloc c) \<union> set_option (cr_on_dump c) \<union> snd ` set (cr_handle_frees c)"

definition crate_ok :: "loader \<Rightarrow> crate \<Rightarrow> bool" where
  "crate_ok s c \<longleftrightarrow> (case cr_lib c of None \<Rightarrow> crate_ptrs c = {} | Some m \<Rightarrow> \<forall>p\<in>crate_ptrs c. live_ptr s m p)"

definition wrapper_ok :: "loader \<Rightarrow> crate \<Rightarrow> load_ctx \<Rightarrow> fptr \<Rightarrow> bool" where
  "wrapper_ok s c x p \<longleftrightarrow>
     lx_generation x = cr_generation c \<and> lx_session x = ld_session s \<and>
     (\<exists>m. cr_lib c = Some m \<and> (\<forall>q\<in>insert p (ctx_ptrs x). live_ptr s m q))"

text \<open>Everything but the crates \<open>D\<close>, which a restore has not come to yet, is of this process and of its last load.\<close>

definition ok_except :: "bytes set \<Rightarrow> loader \<Rightarrow> bool" where
  "ok_except D s \<longleftrightarrow>
     (\<forall>n c. ld_crates s n = Some c \<longrightarrow>
        cr_name c = n \<and> (\<forall>sm\<in>set (cr_symbols c). fst sm = cr_package c) \<and> (n \<notin> D \<longrightarrow> crate_ok s c)) \<and>
     (\<forall>sm n x p f. ld_functions s sm = Some (Wrapper n x p f) \<longrightarrow>
        (\<exists>c. ld_crates s n = Some c \<and> sm \<in> set (cr_symbols c) \<and> (n \<notin> D \<longrightarrow> wrapper_ok s c x p))) \<and>
     (\<forall>m\<ge>ld_next s. ld_maps s m = None)"

lemma ok_exceptD:
  assumes "ok_except D s"
  shows "ld_crates s n = Some c \<Longrightarrow> cr_name c = n"
    and "ld_crates s n = Some c \<Longrightarrow> sm \<in> set (cr_symbols c) \<Longrightarrow> fst sm = cr_package c"
    and "ld_crates s n = Some c \<Longrightarrow> n \<notin> D \<Longrightarrow> crate_ok s c"
    and "ld_functions s sm = Some (Wrapper n x p f) \<Longrightarrow>
      \<exists>c. ld_crates s n = Some c \<and> sm \<in> set (cr_symbols c) \<and> (n \<notin> D \<longrightarrow> wrapper_ok s c x p)"
    and "ld_next s \<le> m \<Longrightarrow> ld_maps s m = None"
  using assms unfolding ok_except_def by blast+

lemma live_ptr_maps: "ld_maps s m = ld_maps s' m \<Longrightarrow> live_ptr s m p \<longleftrightarrow> live_ptr s' m p"
  by (simp add: live_ptr_def)

section \<open>What a commit does\<close>

definition from_lib :: "nat \<Rightarrow> library \<Rightarrow> fptr \<Rightarrow> bool" where
  "from_lib m lib p \<longleftrightarrow> fst p = m \<and> dlsym lib (snd p)"

lemma resolve_from_lib: "resolve m lib prefix crate short = Inr p \<Longrightarrow> from_lib m lib p"
  by (auto simp: resolve_def from_lib_def split: if_splits)

lemma foldl_bind: "foldl (\<lambda>m (sm, b). m(sm \<mapsto> b)) m fns sm = (case map_of (rev fns) sm of Some b \<Rightarrow> Some b | None \<Rightarrow> m sm)"
  by (induction fns arbitrary: m) (auto split: option.splits simp: map_add_def)

lemma mapR_pairs:
  assumes "mapR (\<lambda>h. map_sum id (Pair (g h)) (res (e h))) hs = Inr frees" and "q \<in> snd ` set frees"
  shows "\<exists>short. res short = Inr q"
proof -
  from assms(2) obtain y where "y \<in> set frees" "q = snd y" by blast
  then obtain i where i: "i < length frees" "frees ! i = y" by (metis in_set_conv_nth)
  with assms(1) have "map_sum id (Pair (g (hs ! i))) (res (e (hs ! i))) = Inr y"
    by (auto simp: mapR_Inr_iff list_all2_conv_all_nth)
  then show ?thesis using \<open>q = snd y\<close> by (cases "res (e (hs ! i))") auto
qed

lemma prepare_bindings_fns:
  assumes "prepare_bindings owner c mf x res = Inr (classes, fns)"
  shows "list_all2 (\<lambda>f b. \<exists>p. res (fs_symbol f) = Inr p \<and> b = (lisp_symbol c (fs_lisp_name f), Wrapper (cr_name c) x p f))
    (mf_functions mf) fns"
proof -
  have "mapR (\<lambda>f. bindR (res (fs_symbol f)) (\<lambda>p.
      bindR (wrapper_form (map hs_rust_name (mf_handles mf)) (map downcase (cr_package c @ '':'' @ fs_lisp_name f)) f) (\<lambda>_.
      Inr (lisp_symbol c (fs_lisp_name f), Wrapper (cr_name c) x p f)))) (mf_functions mf) = Inr fns"
    using assms by (auto simp: prepare_bindings_def result_simps)
  then show ?thesis
    unfolding mapR_Inr_iff by (rule list_all2_mono) (auto simp: result_simps)
qed

text \<open>The crate's record and the context of its wrappers after a commit, and the functions it binds.\<close>

definition committed :: "crate \<Rightarrow> bytes \<Rightarrow> nat \<Rightarrow> library \<Rightarrow> manifest \<Rightarrow> loader \<Rightarrow> crate \<Rightarrow> load_ctx \<Rightarrow> (symbol \<times> binding) list \<Rightarrow> bool" where
  "committed c path m lib mf s c' x fns \<longleftrightarrow>
     cr_name c' = cr_name c \<and> cr_package c' = cr_package c \<and> cr_generation c' = Suc (cr_generation c) \<and> cr_lib c' = Some m \<and>
     cr_manifest c' = Some mf \<and> cr_source_path c' = Some path \<and> cr_stub_reason c' = None \<and> cr_symbols c' = map fst fns \<and>
     (\<forall>p\<in>crate_ptrs c'. from_lib m lib p) \<and>
     lx_generation x = cr_generation c' \<and> lx_session x = ld_session s \<and> (\<forall>p\<in>ctx_ptrs x. from_lib m lib p) \<and>
     list_all2 (\<lambda>f b. \<exists>p. resolve m lib (mf_prefix mf) (cr_name c) (fs_symbol f) = Inr p \<and>
        b = (lisp_symbol c (fs_lisp_name f), Wrapper (cr_name c) x p f)) (mf_functions mf) fns"

lemma commit_generation_effect:
  assumes "commit_generation c path m lib mf raw s = Inr s'"
  obtains c' x fns owners where "committed c path m lib mf s c' x fns"
    and "s' = s\<lparr>ld_class_owner := owners,
      ld_functions := (\<lambda>sm. if sm \<in> set (cr_symbols c) \<and> sm \<notin> set (map fst fns) then None
        else (case map_of (rev fns) sm of Some b \<Rightarrow> Some b | None \<Rightarrow> ld_functions s sm)),
      ld_crates := (ld_crates s)(cr_name c \<mapsto> c')\<rparr>"
proof -
  let ?res = "resolve m lib (mf_prefix mf) (cr_name c)"
  let ?x = "\<lambda>le de frees. \<lparr>lx_generation = Suc (cr_generation c), lx_session = ld_session s, lx_last_error = le,
      lx_dealloc = de, lx_free_table = frees\<rparr>"
  from assms obtain le de on_dump frees classes fns where r: "?res ''last_error'' = Inr le" "?res ''dealloc'' = Inr de"
    "(case mf_on_dump mf of None \<Rightarrow> Inr None | Some sm \<Rightarrow> map_sum id Some (?res sm)) = Inr on_dump"
    "mapR (\<lambda>h. map_sum id (Pair (hs_rust_name h)) (?res (hs_free h))) (mf_handles mf) = Inr frees"
    "prepare_bindings (ld_class_owner s) c mf (?x le de frees) ?res = Inr (classes, fns)"
    and s': "s' = commit_bindings
        (c\<lparr>cr_stub_reason := None, cr_generation := Suc (cr_generation c), cr_lib := Some m, cr_manifest := Some mf,
           cr_manifest_source := raw, cr_source_path := Some path, cr_last_error := Some le,
           cr_dealloc := Some de, cr_handle_frees := frees, cr_on_dump := on_dump\<rparr>) (classes, fns) s"
    unfolding commit_generation_def Let_def bindR_eq_Inr by fastforce
  let ?c = "c\<lparr>cr_stub_reason := None, cr_generation := Suc (cr_generation c), cr_lib := Some m, cr_manifest := Some mf,
      cr_manifest_source := raw, cr_source_path := Some path, cr_last_error := Some le,
      cr_dealloc := Some de, cr_handle_frees := frees, cr_on_dump := on_dump, cr_symbols := map fst fns\<rparr>"
  have frees: "\<forall>q\<in>snd ` set frees. from_lib m lib q"
    using mapR_pairs [where res = ?res, OF r(4)] resolve_from_lib by blast
  have hook: "\<forall>q\<in>set_option on_dump. from_lib m lib q"
  proof (cases "mf_on_dump mf")
    case (Some sm)
    with r(3) show ?thesis by (cases "?res sm") (auto dest: resolve_from_lib)
  qed (use r(3) in auto)
  have ptrs: "from_lib m lib le" "from_lib m lib de" using r(1,2) by (auto dest: resolve_from_lib)
  have "committed c path m lib mf s ?c (?x le de frees) fns"
    using frees hook ptrs prepare_bindings_fns [OF r(5)] by (auto simp: committed_def crate_ptrs_def ctx_ptrs_def)
  moreover have "s' = s\<lparr>ld_class_owner := foldl (\<lambda>m sm. m(sm \<mapsto> cr_name c)) (ld_class_owner s) classes,
      ld_functions := (\<lambda>sm. if sm \<in> set (cr_symbols c) \<and> sm \<notin> set (map fst fns) then None
        else (case map_of (rev fns) sm of Some b \<Rightarrow> Some b | None \<Rightarrow> ld_functions s sm)),
      ld_crates := (ld_crates s)(cr_name c \<mapsto> ?c)\<rparr>"
    unfolding s' commit_bindings_def Let_def prod.case foldl_bind by simp
  ultimately show thesis by (rule that)
qed

lemma committed_symbols:
  assumes "committed c path m lib mf s c' x fns" and "sm \<in> set (cr_symbols c')"
  shows "fst sm = cr_package c'"
proof -
  from assms obtain i where "i < length fns" "fst (fns ! i) = sm" by (auto simp: committed_def in_set_conv_nth)
  with assms(1) show ?thesis by (auto simp: committed_def list_all2_conv_all_nth lisp_symbol_def)
qed

lemma committed_binding:
  assumes "committed c path m lib mf s c' x fns" and "map_of (rev fns) sm = Some b"
  shows "\<exists>p f. b = Wrapper (cr_name c') x p f \<and> from_lib m lib p \<and> sm \<in> set (cr_symbols c')"
proof -
  have "(sm, b) \<in> set fns" using map_of_SomeD [OF assms(2)] by simp
  then obtain i where "i < length fns" "fns ! i = (sm, b)" by (metis in_set_conv_nth)
  moreover from \<open>(sm, b) \<in> set fns\<close> have "sm \<in> fst ` set fns" by force
  ultimately obtain p f where "resolve m lib (mf_prefix mf) (cr_name c) (fs_symbol f) = Inr p"
    "b = Wrapper (cr_name c) x p f" "sm \<in> fst ` set fns"
    using assms(1) unfolding committed_def list_all2_conv_all_nth by auto
  then show ?thesis using assms(1) resolve_from_lib by (auto simp: committed_def)
qed

lemma commit_ok:
  assumes ok: "ok_except D s" and c: "ld_crates s (cr_name c) = Some c" and lib: "ld_maps s m = Some lib"
    and "commit_generation c path m lib mf raw s = Inr s'"
  shows "ok_except (D - {cr_name c}) s'"
proof -
  from assms(4) obtain c' x fns owners where com: "committed c path m lib mf s c' x fns"
    and s': "s' = s\<lparr>ld_class_owner := owners,
      ld_functions := (\<lambda>sm. if sm \<in> set (cr_symbols c) \<and> sm \<notin> set (map fst fns) then None
        else (case map_of (rev fns) sm of Some b \<Rightarrow> Some b | None \<Rightarrow> ld_functions s sm)),
      ld_crates := (ld_crates s)(cr_name c \<mapsto> c')\<rparr>" by (rule commit_generation_effect)
  note comD = com [unfolded committed_def]
  have live: "live_ptr s'' m p" if "from_lib m lib p" "ld_maps s'' = ld_maps s" for s'' p
    using that lib by (simp add: live_ptr_def from_lib_def)
  have c'_ok: "crate_ok s' c'" using comD live by (simp add: crate_ok_def s')
  have crate_mono: "crate_ok s' d \<longleftrightarrow> crate_ok s d" and wrapper_mono: "wrapper_ok s' d y p \<longleftrightarrow> wrapper_ok s d y p" for d y p
    by (simp_all add: crate_ok_def wrapper_ok_def live_ptr_def s' split: option.splits)
  have crates: "cr_name d = n \<and> (\<forall>sm\<in>set (cr_symbols d). fst sm = cr_package d) \<and> (n \<notin> D - {cr_name c} \<longrightarrow> crate_ok s' d)"
    if "ld_crates s' n = Some d" for n d
  proof (cases "n = cr_name c")
    case True
    then have "d = c'" using that by (simp add: s')
    then show ?thesis using True c'_ok comD committed_symbols [OF com] by simp
  next
    case False
    then have "ld_crates s n = Some d" using that by (simp add: s')
    with False show ?thesis using ok_exceptD(1-3) [OF ok] crate_mono by blast
  qed
  have bound: "\<exists>d. ld_crates s' n = Some d \<and> sm \<in> set (cr_symbols d) \<and> (n \<notin> D - {cr_name c} \<longrightarrow> wrapper_ok s' d y p)"
    if f: "ld_functions s' sm = Some (Wrapper n y p f)" for sm n y p f
  proof (cases "map_of (rev fns) sm")
    case (Some b)
    from committed_binding [OF com Some] obtain p' f' where b: "b = Wrapper (cr_name c') x p' f'" "from_lib m lib p'"
      "sm \<in> set (cr_symbols c')" by blast
    have "b = Wrapper n y p f" using f Some by (simp add: s' split: if_splits)
    with b have n: "n = cr_name c" "y = x" "p = p'" using comD by simp_all
    have "wrapper_ok s' c' x p'" unfolding wrapper_ok_def using comD live b(2) by (simp add: s')
    then show ?thesis using b n comD by (intro exI [of _ c']) (simp add: s')
  next
    case None
    then have old: "ld_functions s sm = Some (Wrapper n y p f)" "\<not> (sm \<in> set (cr_symbols c) \<and> sm \<notin> set (map fst fns))"
      using f by (simp_all add: s' split: if_splits)
    have "sm \<notin> set (map fst fns)" using None by (simp add: map_of_eq_None_iff)
    with old(2) have "sm \<notin> set (cr_symbols c)" by blast
    from ok_exceptD(4) [OF ok old(1)] obtain d where d: "ld_crates s n = Some d" "sm \<in> set (cr_symbols d)"
      "n \<notin> D \<longrightarrow> wrapper_ok s d y p" by blast
    have "n \<noteq> cr_name c" using d c \<open>sm \<notin> set (cr_symbols c)\<close> by auto
    with d wrapper_mono show ?thesis by (intro exI [of _ d]) (simp add: s')
  qed
  have "\<forall>m\<ge>ld_next s'. ld_maps s' m = None" using ok_exceptD(5) [OF ok] by (simp add: s')
  with crates bound show ?thesis unfolding ok_except_def by blast
qed

section \<open>Every operation keeps the invariant\<close>

lemma ok_exceptI:
  assumes "ok_except D s" and "ld_crates s' = ld_crates s" and "ld_functions s' = ld_functions s"
    and "\<And>c. crate_ok s c \<Longrightarrow> crate_ok s' c" and "\<And>c x p. wrapper_ok s c x p \<Longrightarrow> wrapper_ok s' c x p"
    and "\<forall>m\<ge>ld_next s'. ld_maps s' m = None"
  shows "ok_except D s'"
  unfolding ok_except_def assms(2,3)
proof (intro conjI allI impI)
  fix sm n x p f assume "ld_functions s sm = Some (Wrapper n x p f)"
  then show "\<exists>c. ld_crates s n = Some c \<and> sm \<in> set (cr_symbols c) \<and> (n \<notin> D \<longrightarrow> wrapper_ok s' c x p)"
    using ok_exceptD(4) [OF assms(1)] assms(5) by blast
qed (use assms(4,6) ok_exceptD(1-3) [OF assms(1)] in blast)+

lemma open_ok:
  assumes "ok_except D s"
  shows "ok_except D (s\<lparr>ld_maps := (ld_maps s)(ld_next s \<mapsto> lib), ld_next := Suc (ld_next s)\<rparr>)" (is "ok_except D ?s")
proof -
  have mono: "live_ptr s m p \<Longrightarrow> live_ptr ?s m p" for m p
    using ok_exceptD(5) [OF assms, of m] by (auto simp: live_ptr_def)
  have "crate_ok s c \<Longrightarrow> crate_ok ?s c" for c using mono by (auto simp: crate_ok_def split: option.splits)
  moreover have "wrapper_ok s c x p \<Longrightarrow> wrapper_ok ?s c x p" for c x p by (auto simp: wrapper_ok_def intro: mono)
  moreover have "\<forall>m\<ge>ld_next ?s. ld_maps ?s m = None" using ok_exceptD(5) [OF assms] by simp
  ultimately show ?thesis by (intro ok_exceptI [OF assms]) simp_all
qed

lemma new_crate_ok: "crate_ok s (new_crate name package)"
  by (simp add: crate_ok_def new_crate_def crate_ptrs_def)

lemma registered_ok:
  assumes ok: "ok_except D s" and r: "registered canonical package s = (c, s')"
  shows "ok_except D s'" and "cr_name c = canonical" and "ld_crates s' canonical = Some c"
    and "ld_maps s' = ld_maps s" and "ld_functions s' = ld_functions s"
proof -
  show "cr_name c = canonical"
    using r ok_exceptD(1) [OF ok] by (auto simp: registered_def new_crate_def Let_def split: option.splits)
  show "ld_crates s' canonical = Some c" "ld_maps s' = ld_maps s" "ld_functions s' = ld_functions s"
    using r by (auto simp: registered_def Let_def split: option.splits)
  show "ok_except D s'"
  proof (cases "ld_crates s canonical")
    case None
    let ?c = "new_crate canonical (case package of Some p \<Rightarrow> p | None \<Rightarrow> map upcase canonical)"
    have s': "s' = s\<lparr>ld_order := ld_order s @ [canonical], ld_crates := (ld_crates s)(canonical \<mapsto> ?c)\<rparr>"
      using r None by (auto simp: registered_def Let_def)
    have mono: "crate_ok s' d \<longleftrightarrow> crate_ok s d" "wrapper_ok s' d y p \<longleftrightarrow> wrapper_ok s d y p" for d y p
      by (simp_all add: crate_ok_def wrapper_ok_def live_ptr_def s' split: option.splits)
    have "cr_name d = n \<and> (\<forall>sm\<in>set (cr_symbols d). fst sm = cr_package d) \<and> (n \<notin> D \<longrightarrow> crate_ok s' d)"
      if "ld_crates s' n = Some d" for n d
      using that ok_exceptD(1-3) [OF ok] mono new_crate_ok
      by (cases "n = canonical") (auto simp: s' new_crate_def)
    moreover have "\<exists>d. ld_crates s' n = Some d \<and> sm \<in> set (cr_symbols d) \<and> (n \<notin> D \<longrightarrow> wrapper_ok s' d x p)"
      if "ld_functions s' sm = Some (Wrapper n x p f)" for sm n x p f
    proof -
      have "ld_functions s sm = Some (Wrapper n x p f)" using that by (simp add: s')
      from ok_exceptD(4) [OF ok this] None mono show ?thesis by (cases "n = canonical") (auto simp: s')
    qed
    moreover have "\<forall>m\<ge>ld_next s'. ld_maps s' m = None" using ok_exceptD(5) [OF ok] by (simp add: s')
    ultimately show ?thesis unfolding ok_except_def by blast
  qed (use r ok in \<open>simp add: registered_def\<close>)
qed

lemma stub_ok:
  assumes ok: "ok_except D s"
  shows "ok_except (D - {n}) (stub_crate n reason s)"
proof (cases "ld_crates s n")
  case None
  then have s': "stub_crate n reason s = s" by (simp add: stub_crate_def)
  have "\<exists>c. ld_crates s k = Some c \<and> sm \<in> set (cr_symbols c) \<and> (k \<notin> D - {n} \<longrightarrow> wrapper_ok s c x p)"
    if "ld_functions s sm = Some (Wrapper k x p f)" for sm k x p f
    using ok_exceptD(4) [OF ok that] None by auto
  moreover have "cr_name c = k \<and> (\<forall>sm\<in>set (cr_symbols c). fst sm = cr_package c) \<and> (k \<notin> D - {n} \<longrightarrow> crate_ok s c)"
    if "ld_crates s k = Some c" for k c
    using ok_exceptD(1-3) [OF ok that] that None by auto
  ultimately show ?thesis unfolding s' ok_except_def using ok_exceptD(5) [OF ok] by blast
next
  case (Some c)
  let ?c = "c\<lparr>cr_lib := None, cr_on_dump := None, cr_last_error := None, cr_dealloc := None, cr_handle_frees := [],
      cr_stub_reason := Some reason\<rparr>"
  let ?s = "stub_crate n reason s"
  have stubs: "foldl (\<lambda>m sm. m(sm \<mapsto> Stub n reason)) m syms sm = (if sm \<in> set syms then Some (Stub n reason) else m sm)"
    for m :: "symbol \<rightharpoonup> binding" and syms sm
    by (induction syms arbitrary: m) auto
  have s': "ld_crates ?s = (ld_crates s)(n \<mapsto> ?c)" "ld_maps ?s = ld_maps s" "ld_next ?s = ld_next s" "ld_session ?s = ld_session s"
    "ld_functions ?s sm = (if sm \<in> set (cr_symbols c) then Some (Stub n reason) else ld_functions s sm)" for sm
    using Some stubs by (simp_all add: stub_crate_def)
  have mono: "crate_ok ?s d \<longleftrightarrow> crate_ok s d" "wrapper_ok ?s d x p \<longleftrightarrow> wrapper_ok s d x p" for d x p
    by (simp_all add: crate_ok_def wrapper_ok_def live_ptr_def s' split: option.splits)
  have c_ok: "crate_ok ?s ?c" by (simp add: crate_ok_def crate_ptrs_def)
  have "cr_name d = k \<and> (\<forall>sm\<in>set (cr_symbols d). fst sm = cr_package d) \<and> (k \<notin> D - {n} \<longrightarrow> crate_ok ?s d)"
    if "ld_crates ?s k = Some d" for k d
  proof (cases "k = n")
    case True
    then have "d = ?c" using that s'(1) by simp
    then show ?thesis using True c_ok ok_exceptD(1,2) [OF ok Some] by simp
  next
    case False
    then have "ld_crates s k = Some d" using that s'(1) by simp
    from ok_exceptD(1-3) [OF ok this] False mono(1) show ?thesis by blast
  qed
  moreover have "\<exists>d. ld_crates ?s k = Some d \<and> sm \<in> set (cr_symbols d) \<and> (k \<notin> D - {n} \<longrightarrow> wrapper_ok ?s d x p)"
    if "ld_functions ?s sm = Some (Wrapper k x p f)" for sm k x p f
  proof -
    have f: "ld_functions s sm = Some (Wrapper k x p f)" "sm \<notin> set (cr_symbols c)" using that s'(5) by (auto split: if_splits)
    from ok_exceptD(4) [OF ok f(1)] obtain d where d: "ld_crates s k = Some d" "sm \<in> set (cr_symbols d)"
      "k \<notin> D \<longrightarrow> wrapper_ok s d x p" by blast
    have "k \<noteq> n" using d(1,2) f(2) Some by auto
    with d mono(2) s'(1) show ?thesis by auto
  qed
  moreover have "\<forall>m\<ge>ld_next ?s. ld_maps ?s m = None" using ok_exceptD(5) [OF ok] s'(2,3) by simp
  ultimately show ?thesis unfolding ok_except_def by blast
qed

text \<open>What every load does, whether or not it succeeds.\<close>

definition only_registers :: "loader \<Rightarrow> loader \<Rightarrow> bool" where
  "only_registers s s' \<longleftrightarrow>
     ld_functions s' = ld_functions s \<and> ld_class_owner s' = ld_class_owner s \<and> ld_session s' = ld_session s \<and>
     (\<forall>n c. ld_crates s n = Some c \<longrightarrow> ld_crates s' n = Some c) \<and>
     (\<forall>n c. ld_crates s n = None \<longrightarrow> ld_crates s' n = Some c \<longrightarrow> (\<exists>package. c = new_crate n package)) \<and>
     (\<forall>m lib. ld_maps s m = Some lib \<longrightarrow> m < ld_next s \<longrightarrow> ld_maps s' m = Some lib)"

lemma registered_only: "registered canonical package s = (c, s') \<Longrightarrow> only_registers s s'"
  by (auto simp: registered_def only_registers_def Let_def split: option.splits if_splits)

text \<open>A load that gets as far as a commit: the library is mapped, the crate registered.\<close>

lemma load_cases:
  assumes "load_crate_locked d h path_arg crate_arg package s = (r, s')"
  obtains (unopened) e where "r = Inl e" "s' = s"
    | (unverified) e lib where "r = Inl e" "s' = s\<lparr>ld_maps := (ld_maps s)(ld_next s \<mapsto> lib), ld_next := Suc (ld_next s)\<rparr>"
    | (verified) path lib prefix mf raw c s1 s2 where "path_arg = Some path" "dk_open d path = Inr lib"
      "read_library_manifest lib prefix = Inr (mf, raw)"
      "\<forall>a. crate_arg = Some a \<longrightarrow> underscored (mf_crate mf) = underscored a"
      "s1 = s\<lparr>ld_maps := (ld_maps s)(ld_next s \<mapsto> lib), ld_next := Suc (ld_next s)\<rparr>"
      "registered (mf_crate mf) package s1 = (c, s2)"
      "(r, s') = (case commit_generation c path (ld_next s) lib mf raw s2 of
         Inl e \<Rightarrow> (Inl e, s2) | Inr s3 \<Rightarrow> (Inr (mf_crate mf), s3))"
proof (cases "\<exists>e. r = Inl e \<and> s' = s")
  case False
  then obtain path contents lib where p: "path_arg = Some path" "dk_contents d path = Some contents" "dk_open d path = Inr lib"
    and op: "(case open_and_verify d h path (underscored (case crate_arg of Some a \<Rightarrow> a | None \<Rightarrow> derive_crate_name (dk_stem d path)) @ ''_rulisp_'') s of
       (Inl e, s') \<Rightarrow> (Inl e, s') | (Inr v, s') \<Rightarrow> load_verified path crate_arg package v s') = (r, s')"
    using assms by (auto simp: load_crate_locked_def open_and_verify_def Let_def split: option.splits if_splits sum.splits)
  let ?s = "s\<lparr>ld_maps := (ld_maps s)(ld_next s \<mapsto> lib), ld_next := Suc (ld_next s)\<rparr>"
  let ?prefix = "underscored (case crate_arg of Some a \<Rightarrow> a | None \<Rightarrow> derive_crate_name (dk_stem d path)) @ ''_rulisp_''"
  show thesis
  proof (cases "verify_library h ?prefix lib")
    case (Inl e)
    then have "r = Inl e" "s' = ?s" using op p by (simp_all add: open_and_verify_def)
    then show thesis by (rule unverified)
  next
    case (Inr v)
    then obtain mf raw where v: "v = (mf, raw)" "read_library_manifest lib ?prefix = Inr (mf, raw)"
      by (cases v) (auto simp: verify_library_def Let_def result_simps split: if_splits option.splits)
    have run: "load_verified path crate_arg package (ld_next s, lib, mf, raw) ?s = (r, s')"
      using op p Inr v by (simp add: open_and_verify_def)
    show thesis
    proof (cases "\<exists>a. crate_arg = Some a \<and> underscored (mf_crate mf) \<noteq> underscored a")
      case True
      then obtain e where "r = Inl e" "s' = ?s" using run by (auto simp: load_verified_def)
      then show thesis by (rule unverified)
    next
      case False
      obtain c s2 where reg: "registered (mf_crate mf) package ?s = (c, s2)" by fastforce
      have "(r, s') = (case commit_generation c path (ld_next s) lib mf raw s2 of
          Inl e \<Rightarrow> (Inl e, s2) | Inr s3 \<Rightarrow> (Inr (mf_crate mf), s3))"
        using run False reg by (auto simp: load_verified_def Let_def split: option.splits)
      with p v(2) False reg show thesis by (intro verified [OF p(1,3) v(2) _ refl reg]) auto
    qed
  qed
qed (use unopened in blast)

lemma load_ok:
  assumes ok: "ok_except D s" and load: "load_crate_locked d h path_arg crate_arg package s = (r, s')"
  shows "ok_except (case r of Inr n \<Rightarrow> D - {n} | Inl _ \<Rightarrow> D) s'"
  using load
proof (cases rule: load_cases)
  case (unverified e lib)
  then show ?thesis using open_ok [OF ok] by simp
next
  case (verified path lib prefix mf raw c s1 s2)
  have s1: "ok_except D s1" unfolding verified(5) by (rule open_ok [OF ok])
  note reg = registered_ok [OF s1 verified(6)]
  have lib: "ld_maps s2 (ld_next s) = Some lib" using reg(4) verified(5) by simp
  show ?thesis
  proof (cases "commit_generation c path (ld_next s) lib mf raw s2")
    case (Inl e)
    then show ?thesis using verified(7) reg(1) by simp
  next
    case (Inr s3)
    have "ok_except (D - {cr_name c}) s3"
      by (rule commit_ok [OF reg(1) _ lib Inr]) (use reg(2,3) in simp)
    with verified(7) Inr reg(2) show ?thesis by simp
  qed
qed (use ok in simp)

text \<open>The crates that a load leaves registered, and the names of those it adds.\<close>

lemma load_dom:
  assumes "load_crate_locked d h path_arg crate_arg package s = (r, s')" and "ok_except D s" and "disk_names N d"
    and "dom (ld_crates s) \<subseteq> N"
  shows "dom (ld_crates s') \<subseteq> N \<and> (\<forall>n. r = Inr n \<longrightarrow> n \<in> N \<and> (\<forall>a. crate_arg = Some a \<longrightarrow> underscored n = underscored a))"
  using assms(1)
proof (cases rule: load_cases)
  case (verified path lib prefix mf raw c s1 s2)
  have n: "mf_crate mf \<in> N" using verified(2,3) assms(3) unfolding disk_names_def by blast
  have s1: "ok_except D s1" unfolding verified(5) by (rule open_ok [OF assms(2)])
  have c: "cr_name c = mf_crate mf" by (rule registered_ok(2) [OF s1 verified(6)])
  have "ld_crates s1 = ld_crates s" using verified(5) by simp
  moreover have "dom (ld_crates s2) \<subseteq> insert (mf_crate mf) (dom (ld_crates s1))"
    using verified(6) by (cases "ld_crates s1 (mf_crate mf)") (auto simp: registered_def Let_def)
  ultimately have dom: "dom (ld_crates s2) \<subseteq> N" using n assms(4) by auto
  show ?thesis
  proof (cases "commit_generation c path (ld_next s) lib mf raw s2")
    case (Inr s3)
    then obtain c' where "ld_crates s3 = (ld_crates s2)(cr_name c \<mapsto> c')" by (rule commit_generation_effect) simp
    with dom n c verified(4,7) Inr show ?thesis by auto
  qed (use verified(7) dom in simp)
qed (use assms(4) in auto)

lemma restore_crate_ok:
  assumes ok: "ok_except D s" and dom: "dom (ld_crates s) \<subseteq> N" and d: "disk_names N d" and inj: "inj_on underscored N"
  shows "ok_except (D - {n}) (restore_crate explain d h n s) \<and> dom (ld_crates (restore_crate explain d h n s)) \<subseteq> N"
proof (cases "ld_crates s n")
  case None
  then have "stub_crate n [] s = s" by (simp add: stub_crate_def)
  with stub_ok [OF ok, of n "[]"] None dom show ?thesis by (simp add: restore_crate_def)
next
  case (Some c)
  then have n: "n \<in> N" using dom by auto
  obtain r s' where load: "load_crate_locked d h (cr_source_path c) (Some n) None s = (r, s')" by fastforce
  note kept = load_ok [OF ok load] load_dom [OF load ok d dom]
  have stub_dom: "dom (ld_crates (stub_crate n reason s')) \<subseteq> dom (ld_crates s')" for reason
    by (auto simp: stub_crate_def split: option.splits if_splits)
  show ?thesis
  proof (cases r)
    case (Inl e)
    then have s': "ok_except D s'" "dom (ld_crates s') \<subseteq> N" using kept by simp_all
    let ?why = "''reload failed on image restore: '' @ explain e"
    have "restore_crate explain d h n s = stub_crate n ?why s'" using Some load Inl by (simp add: restore_crate_def)
    then show ?thesis using stub_ok [OF s'(1), of n ?why] stub_dom [of ?why] s'(2) by (simp only:) blast
  next
    case (Inr k)
    then have "k = n" using kept(2) n inj by (auto dest: inj_onD)
    with kept Inr show ?thesis using Some load by (simp add: restore_crate_def)
  qed
qed

lemma restore_all_ok:
  assumes "ok_except {} s" and "dom (ld_crates s) \<subseteq> N" and "disk_names N d" and "inj_on underscored N"
    and "set names = dom (ld_crates s)"
  shows "ok_except {} (restore_all_crates explain d h names s) \<and> dom (ld_crates (restore_all_crates explain d h names s)) \<subseteq> N"
proof -
  let ?s = "s\<lparr>ld_session := Suc (ld_session s), ld_maps := Map.empty\<rparr>"
  have "ok_except (D - set ns) (foldl (\<lambda>s name. restore_crate explain d h name s) t ns) \<and>
      dom (ld_crates (foldl (\<lambda>s name. restore_crate explain d h name s) t ns)) \<subseteq> N"
    if "ok_except D t" "dom (ld_crates t) \<subseteq> N" for D t ns
    using that
  proof (induction ns arbitrary: D t)
    case (Cons n ns)
    from restore_crate_ok [OF Cons.prems assms(3,4), of n explain h]
    have "ok_except (D - {n} - set ns) (foldl (\<lambda>s name. restore_crate explain d h name s) (restore_crate explain d h n t) ns) \<and>
      dom (ld_crates (foldl (\<lambda>s name. restore_crate explain d h name s) (restore_crate explain d h n t) ns)) \<subseteq> N"
      by (intro Cons.IH) blast+
    moreover have "D - {n} - set ns = D - set (n # ns)" by auto
    ultimately show ?case by simp
  qed simp
  note run = this
  have start: "ok_except (dom (ld_crates s)) ?s"
    unfolding ok_except_def
  proof (intro conjI allI impI)
    fix sm n x p f assume "ld_functions ?s sm = Some (Wrapper n x p f)"
    then have "ld_functions s sm = Some (Wrapper n x p f)" by simp
    from ok_exceptD(4) [OF assms(1) this]
    show "\<exists>c. ld_crates ?s n = Some c \<and> sm \<in> set (cr_symbols c) \<and> (n \<notin> dom (ld_crates s) \<longrightarrow> wrapper_ok ?s c x p)" by auto
  qed (use ok_exceptD(1,2) [OF assms(1)] in auto)
  have "dom (ld_crates ?s) \<subseteq> N" using assms(2) by simp
  from run [OF start this, of names] assms(5) show ?thesis by (simp only: restore_all_crates_def Diff_cancel)
qed

lemma loader_reach_ok:
  assumes "loader_reach N s" and "inj_on underscored N"
  shows "ok_except {} s \<and> dom (ld_crates s) \<subseteq> N"
  using assms(1)
proof (induction rule: loader_reach.induct)
  case start
  show ?case by (simp add: ok_except_def loader_init_def)
next
  case (load s d h path crate_arg package)
  obtain r s' where l: "load_crate_locked d h (Some path) crate_arg package s = (r, s')" by fastforce
  with load_ok [OF _ l, of "{}"] load_dom [OF l _ load(2)] load.IH show ?case by (auto simp: load_crate_def split: sum.splits)
next
  case (reload s d h name path)
  show ?case
  proof (cases "resolve_crate name s")
    case (Inr c)
    obtain r s' where l: "load_crate_locked d h (case path of Some p \<Rightarrow> Some p | None \<Rightarrow> cr_source_path c) (Some (cr_name c)) None s = (r, s')"
      by fastforce
    with Inr load_ok [OF _ l, of "{}"] load_dom [OF l _ reload(2)] reload.IH show ?thesis
      by (auto simp: reload_crate_def split: sum.splits)
  qed (use reload in \<open>simp add: reload_crate_def\<close>)
next
  case (restore s d names explain h)
  then show ?case using restore_all_ok [OF _ _ restore(2) assms(2) restore(3)] by blast
qed

section \<open>What one load changes\<close>

lemma only_trans: "only_registers s s1 \<Longrightarrow> ld_next s \<le> ld_next s1 \<Longrightarrow> only_registers s1 s2 \<Longrightarrow> only_registers s s2"
  unfolding only_registers_def
proof (elim conjE, intro conjI allI impI)
  fix n c
  assume new: "\<forall>n c. ld_crates s n = None \<longrightarrow> ld_crates s1 n = Some c \<longrightarrow> (\<exists>package. c = new_crate n package)"
    "\<forall>n c. ld_crates s1 n = None \<longrightarrow> ld_crates s2 n = Some c \<longrightarrow> (\<exists>package. c = new_crate n package)"
    and kept: "\<forall>n c. ld_crates s1 n = Some c \<longrightarrow> ld_crates s2 n = Some c"
    and c: "ld_crates s n = None" "ld_crates s2 n = Some c"
  show "\<exists>package. c = new_crate n package"
  proof (cases "ld_crates s1 n")
    case (Some c1)
    with kept c(2) have "c = c1" by simp
    with Some new(1) c(1) show ?thesis by blast
  qed (use new(2) c(2) in blast)
qed (simp_all add: order_less_le_trans)

lemma open_only: "only_registers s (s\<lparr>ld_maps := (ld_maps s)(ld_next s \<mapsto> lib), ld_next := Suc (ld_next s)\<rparr>)"
  by (auto simp: only_registers_def)

lemma failed_load:
  assumes "load_crate_locked d h path_arg crate_arg package s = (Inl e, s')"
  shows "only_registers s s'"
  using assms
proof (cases rule: load_cases)
  case (verified path lib prefix mf raw c s1 s2)
  then have "s' = s2" by (auto split: sum.splits)
  with only_trans [OF open_only _ registered_only [OF verified(6) [unfolded verified(5)]]] show ?thesis by simp
qed (auto simp: open_only, auto simp: only_registers_def)

text \<open>What a committed load leaves: the crate's next generation, all of whose functions are of the library just mapped.\<close>

definition next_generation :: "loader \<Rightarrow> loader \<Rightarrow> bytes \<Rightarrow> bytes option \<Rightarrow> bytes \<Rightarrow> bool" where
  "next_generation s s' n package path \<longleftrightarrow>
     (\<exists>c c' mf x.
        (ld_crates s n = Some c \<or> ld_crates s n = None \<and> c = new_crate n (case package of Some p \<Rightarrow> p | None \<Rightarrow> map upcase n)) \<and>
        ld_crates s' = (ld_crates s)(n \<mapsto> c') \<and>
        cr_generation c' = Suc (cr_generation c) \<and> cr_package c' = cr_package c \<and> cr_lib c' = Some (ld_next s) \<and>
        cr_manifest c' = Some mf \<and> cr_source_path c' = Some path \<and> cr_stub_reason c' = None \<and>
        lx_generation x = cr_generation c' \<and> lx_session x = ld_session s' \<and> (\<forall>p\<in>ctx_ptrs x. live_ptr s' (ld_next s) p) \<and>
        set (cr_symbols c') = (\<lambda>f. lisp_symbol c' (fs_lisp_name f)) ` set (mf_functions mf) \<and>
        (\<forall>sm\<in>set (cr_symbols c'). \<exists>f\<in>set (mf_functions mf). sm = lisp_symbol c' (fs_lisp_name f) \<and>
           ld_functions s' sm = Some (Wrapper n x (ld_next s, mf_prefix mf @ fs_symbol f) f)) \<and>
        (\<forall>sm. sm \<notin> set (cr_symbols c') \<longrightarrow>
           ld_functions s' sm = (if sm \<in> set (cr_symbols c) then None else ld_functions s sm)))"

lemma committed_functions:
  assumes com: "committed c path m lib mf s c' x fns"
  shows "set (cr_symbols c') = (\<lambda>f. lisp_symbol c' (fs_lisp_name f)) ` set (mf_functions mf)"
    and "sm \<in> set (cr_symbols c') \<Longrightarrow> \<exists>f\<in>set (mf_functions mf). sm = lisp_symbol c' (fs_lisp_name f) \<and>
      map_of (rev fns) sm = Some (Wrapper (cr_name c) x (m, mf_prefix mf @ fs_symbol f) f)"
proof -
  have all: "list_all2 (\<lambda>f b. b = (lisp_symbol c' (fs_lisp_name f), Wrapper (cr_name c) x (m, mf_prefix mf @ fs_symbol f) f))
      (mf_functions mf) fns"
    using com unfolding committed_def
    by (auto simp: lisp_symbol_def resolve_def split: if_splits elim!: list_all2_mono)
  then have fns: "fns = map (\<lambda>f. (lisp_symbol c' (fs_lisp_name f), Wrapper (cr_name c) x (m, mf_prefix mf @ fs_symbol f) f)) (mf_functions mf)"
    by (simp add: list_all2_conv_all_nth list_eq_iff_nth_eq)
  show "set (cr_symbols c') = (\<lambda>f. lisp_symbol c' (fs_lisp_name f)) ` set (mf_functions mf)"
    using com by (auto simp: committed_def fns)
  assume "sm \<in> set (cr_symbols c')"
  then have "sm \<in> fst ` set (rev fns)" using com by (simp add: committed_def)
  then obtain b where b: "map_of (rev fns) sm = Some b" by (metis map_of_eq_None_iff not_None_eq)
  then have "(sm, b) \<in> set fns" using map_of_SomeD by fastforce
  with b show "\<exists>f\<in>set (mf_functions mf). sm = lisp_symbol c' (fs_lisp_name f) \<and>
      map_of (rev fns) sm = Some (Wrapper (cr_name c) x (m, mf_prefix mf @ fs_symbol f) f)"
    by (auto simp: fns)
qed

lemma successful_load:
  assumes "ok_except D s" and "load_crate_locked d h (Some path) crate_arg package s = (Inr n, s')"
  shows "next_generation s s' n package path"
  using assms(2)
proof (cases rule: load_cases)
  case (verified path' lib prefix mf raw c s1 s2)
  then have n: "n = mf_crate mf" and com: "commit_generation c path (ld_next s) lib mf raw s2 = Inr s'"
    by (auto split: sum.splits)
  have s1: "ok_except D s1" unfolding verified(5) by (rule open_ok [OF assms(1)])
  note reg = registered_ok [OF s1 verified(6)]
  have sess: "ld_session s2 = ld_session s"
    using registered_only [OF verified(6)] verified(5) by (simp add: only_registers_def)
  have c: "ld_crates s n = Some c \<or> ld_crates s n = None \<and> c = new_crate n (case package of Some p \<Rightarrow> p | None \<Rightarrow> map upcase n)"
    and crates2: "(ld_crates s2)(n \<mapsto> c'') = (ld_crates s)(n \<mapsto> c'')" for c''
    using verified(5,6) n by (auto simp: registered_def Let_def split: option.splits)
  from com obtain c' x fns owners where com': "committed c path (ld_next s) lib mf s2 c' x fns"
    and s': "s' = s2\<lparr>ld_class_owner := owners,
      ld_functions := (\<lambda>sm. if sm \<in> set (cr_symbols c) \<and> sm \<notin> set (map fst fns) then None
        else (case map_of (rev fns) sm of Some b \<Rightarrow> Some b | None \<Rightarrow> ld_functions s2 sm)),
      ld_crates := (ld_crates s2)(cr_name c \<mapsto> c')\<rparr>" by (rule commit_generation_effect)
  note comD = com' [unfolded committed_def]
  have live: "\<forall>p\<in>ctx_ptrs x. live_ptr s' (ld_next s) p"
    using comD reg(4) verified(5) by (simp add: s' live_ptr_def from_lib_def)
  have syms: "set (cr_symbols c') = fst ` set fns" using comD by simp
  have functions2: "ld_functions s2 = ld_functions s" using reg(5) verified(5) by simp
  have crates: "ld_crates s' = (ld_crates s)(n \<mapsto> c')" using crates2 reg(2) n by (simp add: s')
  have bound: "\<exists>f\<in>set (mf_functions mf). sm = lisp_symbol c' (fs_lisp_name f) \<and>
      ld_functions s' sm = Some (Wrapper n x (ld_next s, mf_prefix mf @ fs_symbol f) f)" if "sm \<in> set (cr_symbols c')" for sm
    using committed_functions(2) [OF com' that] that syms reg(2) n by (auto simp: s')
  have unbound: "ld_functions s' sm = (if sm \<in> set (cr_symbols c) then None else ld_functions s sm)"
    if "sm \<notin> set (cr_symbols c')" for sm
  proof -
    have "map_of (rev fns) sm = None" using that syms by (simp add: map_of_eq_None_iff)
    then show ?thesis using that syms functions2 by (simp add: s')
  qed
  show ?thesis
    unfolding next_generation_def
    by (intro exI [of _ c] exI [of _ c'] exI [of _ mf] exI [of _ x] conjI c crates live
        committed_functions(1) [OF com'] ballI bound allI impI unbound)
       (use comD sess s' verified(1) in auto)
qed auto

section \<open>Crates the macros accept\<close>

abbreviation callbacks :: "exported_fn \<Rightarrow> nat" where
  "callbacks f \<equiv> length (filter (is_borrowed_callback \<circ> snd) (ef_params f))"

text \<open>
  A crate as the compiler accepts it: its \<^verbatim>\<open>module!\<close> lists exports of the macros \<open>fs\<close>, whose names are distinct in Lisp as in
  Rust, and the handle types they mention; its hook returns unit.
\<close>

definition well_built ::
  "(path \<Rightarrow> bytes) \<Rightarrow> bytes \<Rightarrow> bytes \<Rightarrow> bytes \<Rightarrow> bytes \<Rightarrow> (bytes list \<Rightarrow> fn_meta) \<Rightarrow> (path \<Rightarrow> handle_meta) \<Rightarrow> module_input \<Rightarrow>
   exported_fn list \<Rightarrow> bytes \<Rightarrow> bool" where
  "well_built rust_name_of rulisp_version target pkg version fn_const handle_const mi fs s \<longleftrightarrow>
     module_manifest rulisp_version target pkg version fn_const handle_const mi = Inr s \<and>
     (\<exists>cs. mapR meta_path (mi_fns mi) = Inr cs \<and> map fn_const cs = map (gen_meta_const rust_name_of) fs) \<and>
     (\<forall>f\<in>set fs. plain_names f \<and> ((\<exists>item. export_free_fn item = Inr f) \<or> (\<exists>p t item. export_method p t item = Inr f)) \<and>
        (\<exists>d. gen_fn pkg f = Inr d) \<and>
        list_all (handle_known (map (hm_rust_name \<circ> handle_const) (mi_handles mi)))
          (fs_result (fn_spec_of (gen_meta_const rust_name_of f)) #
           map ps_type (fs_params (fn_spec_of (gen_meta_const rust_name_of f))))) \<and>
     (\<forall>q. plain (rust_name_of q)) \<and> list_all plain [rulisp_version, target, pkg, version] \<and> pred_option plain (mi_on_dump mi) \<and>
     (\<forall>hd\<in>set (mi_handles mi). wf_handle (handle_const hd)) \<and>
     distinct (map (hm_lisp_name \<circ> handle_const) (mi_handles mi)) \<and>
     distinct (map (map upcase \<circ> ef_lisp_name) fs) \<and> distinct (map ef_symbol fs) \<and>
     (\<forall>f. mi_on_dump mi = Some f \<longrightarrow>
        fm_symbol (fn_const [meta_const_ident f]) = f \<and> fm_result (fn_const [meta_const_ident f]) = RUnit)"

text \<open>Its artifact: what \<^verbatim>\<open>module!\<close>, the shims and the handle types export is there.\<close>

definition artifact_of :: "disk \<Rightarrow> host \<Rightarrow> bytes \<Rightarrow> library \<Rightarrow> bytes \<Rightarrow> bytes \<Rightarrow> exported_fn list \<Rightarrow> handle_meta list \<Rightarrow> bytes \<Rightarrow> bool" where
  "artifact_of d h path lib target pkg fs hs s \<longleftrightarrow>
     \<not> dk_directory d path \<and> (\<exists>contents. dk_contents d path = Some contents \<and> check_artifact_shape contents = Inr ()) \<and>
     dk_copy d path = None \<and> dk_open d path = Inr lib \<and> target_compatible h target \<and>
     set (crate_symbols pkg fs hs) \<subseteq> set (li_symbols lib) \<and>
     li_u32 lib (crate_prefix pkg @ ''abi_version'') = abi_entry \<and> li_text lib (crate_prefix pkg @ ''manifest'') = manifest_entry s"

text \<open>The manifest that Lisp reads from a well-built crate.\<close>

definition built_manifest ::
  "(path \<Rightarrow> bytes) \<Rightarrow> bytes \<Rightarrow> bytes \<Rightarrow> bytes \<Rightarrow> bytes \<Rightarrow> handle_meta list \<Rightarrow> exported_fn list \<Rightarrow> bytes option \<Rightarrow> manifest" where
  "built_manifest rust_name_of rulisp_version target pkg version hs fs hook =
     \<lparr>mf_schema = 1, mf_abi = 1, mf_crate = pkg, mf_crate_version = Some version,
      mf_target = Some target, mf_prefix = crate_prefix pkg, mf_errors = error_types (map (gen_meta_const rust_name_of) fs),
      mf_handles = map handle_spec_of hs, mf_functions = map (fn_spec_of \<circ> gen_meta_const rust_name_of) fs, mf_on_dump = hook,
      mf_rulisp_version = Some rulisp_version\<rparr>"

lemma gen_meta_names:
  "fm_symbol (gen_meta_const r f) = ef_symbol f" "fm_lisp_name (gen_meta_const r f) = ef_lisp_name f"
  by (simp_all add: gen_meta_const_def)

lemma built_manifest_reads:
  assumes "well_built rust_name_of rulisp_version target pkg version fn_const handle_const mi fs s"
  shows "parse_manifest s = Inr (built_manifest rust_name_of rulisp_version target pkg version
      (map handle_const (mi_handles mi)) fs (mi_on_dump mi))"
    and "mi_on_dump mi = Some hook \<Longrightarrow> hook \<in> ef_symbol ` set fs"
proof -
  note w = assms [unfolded well_built_def]
  from w obtain cs where cs: "mapR meta_path (mi_fns mi) = Inr cs" "map fn_const cs = map (gen_meta_const rust_name_of) fs"
    by blast
  have const: "\<exists>f\<in>set fs. fn_const c = gen_meta_const rust_name_of f" if "c \<in> set cs" for c
  proof -
    have "fn_const c \<in> set (map fn_const cs)" using that by simp
    then show ?thesis unfolding cs(2) by auto
  qed
  have gen: "\<forall>c\<in>set cs. \<exists>f. fn_const c = gen_meta_const rust_name_of f \<and> plain_names f \<and>
      ((\<exists>item. export_free_fn item = Inr f) \<or> (\<exists>p t item. export_method p t item = Inr f))"
    using const w by blast
  have names: "map (g \<circ> fn_const) cs = map (g \<circ> gen_meta_const rust_name_of) fs" for g :: "fn_meta \<Rightarrow> 'z"
    by (metis cs(2) list.map_comp)
  have lisp: "distinct (map ef_lisp_name fs)"
    using w distinct_map [of "map upcase" "map ef_lisp_name fs"] by (simp add: comp_def)
  have dist: "distinct (map (fm_lisp_name \<circ> fn_const) cs)" "distinct (map (fm_symbol \<circ> fn_const) cs)"
    unfolding names using lisp w by (simp_all add: comp_def gen_meta_names)
  have one: "unat ABI_VERSION = 1" by (simp add: ABI_VERSION_def)
  have m: "module_manifest rulisp_version target pkg version fn_const handle_const mi = Inr s"
    and plain: "\<forall>q. plain (rust_name_of q)" "list_all plain [rulisp_version, target, pkg, version]" "pred_option plain (mi_on_dump mi)"
    and hs: "\<forall>hd\<in>set (mi_handles mi). wf_handle (handle_const hd)" "distinct (map (hm_lisp_name \<circ> handle_const) (mi_handles mi))"
    and hook: "\<forall>f. mi_on_dump mi = Some f \<longrightarrow>
        fm_symbol (fn_const [meta_const_ident f]) = f \<and> fm_result (fn_const [meta_const_ident f]) = RUnit"
    using w by blast+
  show "parse_manifest s = Inr (built_manifest rust_name_of rulisp_version target pkg version
      (map handle_const (mi_handles mi)) fs (mi_on_dump mi))"
    using module_manifest_loads [OF m cs(1) gen plain hs(1) hs(2) dist hook]
    by (simp add: built_manifest_def one cs(2) names [of fn_spec_of, unfolded comp_def] comp_def)
  assume d: "mi_on_dump mi = Some hook"
  with m have "list_ex (\<lambda>p. is_ident (fst p) (snd p) hook) (mi_fns mi)"
    by (auto simp: module_manifest_def split: if_splits)
  then have "[meta_const_ident hook] \<in> set cs" using cs(1) by (auto intro: meta_path_of_ident)
  from const [OF this] hook d show "hook \<in> ef_symbol ` set fs" by (auto simp: gen_meta_names)
qed

lemma callback_type_of: "callback_type (ty_tree (param_meta_ty r p)) = is_borrowed_callback p"
  using lisp_keywords by (cases p) (auto simp: upcase_def)

lemma wrapper_form_built:
  assumes "export_free_fn item = Inr f \<or> export_method p t item = Inr f" and "gen_fn pkg f = Inr d"
    and "list_all (handle_known hs) (fs_result (fn_spec_of (gen_meta_const r f)) # map ps_type (fs_params (fn_spec_of (gen_meta_const r f))))"
  shows "wrapper_form hs q (fn_spec_of (gen_meta_const r f)) =
    (if callbacks f \<le> 1 then Inr () else Inl (ManifestError (q @ '': at most one callback parameter (v1)'')))"
proof -
  have "length (filter (callback_type \<circ> ps_type) (fs_params (fn_spec_of (gen_meta_const r f)))) = callbacks f"
    by (simp add: fn_spec_of_def gen_meta_const_def filter_map comp_def param_spec_of_def case_prod_unfold callback_type_of)
  moreover have "lisp_signature (fn_spec_of (gen_meta_const r f)) \<noteq> None"
    using lisp_signature_agrees [OF _ assms(2)] export_closed assms(1) by blast
  ultimately show ?thesis using assms(3) by (auto simp: wrapper_form_def)
qed

lemma mapR_all: "(\<And>x. x \<in> set xs \<Longrightarrow> f x = Inr (g x)) \<Longrightarrow> mapR f xs = Inr (map g xs)"
  by (induction xs) auto

lemma mapR_decided:
  "(\<And>x. x \<in> set xs \<Longrightarrow> f x = (if P x then Inr (g x) else Inl (e x))) \<Longrightarrow> (\<exists>ys. mapR f xs = Inr ys) \<longleftrightarrow> (\<forall>x\<in>set xs. P x)"
  using mapR_elem [of f xs] mapR_all [of xs f g] by (metis Inl_Inr_False)

text \<open>The first load of such a crate gets as far as its commit, which fails exactly at a wrapper.\<close>

lemma commit_built:
  fixes r pkg fs hs hook rulisp_version target version
  defines "mf \<equiv> built_manifest r rulisp_version target pkg version hs fs hook"
  assumes syms: "set (crate_symbols pkg fs hs) \<subseteq> set (li_symbols lib)" and hook: "\<And>k. hook = Some k \<Longrightarrow> k \<in> ef_symbol ` set fs"
    and owner: "\<And>hd. hd \<in> set hs \<Longrightarrow> ld_class_owner s (lisp_symbol c (hm_lisp_name hd)) = None"
    and wrappers: "\<And>f q. f \<in> set fs \<Longrightarrow> wrapper_form (map hm_rust_name hs) q (fn_spec_of (gen_meta_const r f)) =
      (if callbacks f \<le> 1 then Inr () else Inl (ManifestError (q @ '': at most one callback parameter (v1)'')))"
  shows "(\<exists>s'. commit_generation c path m lib mf raw s = Inr s') \<longleftrightarrow> (\<forall>f\<in>set fs. callbacks f \<le> 1)"
proof -
  let ?res = "resolve m lib (crate_prefix pkg) (cr_name c)"
  have res: "?res short = Inr (m, crate_prefix pkg @ short)"
    if "short \<in> {''last_error'', ''dealloc''} \<union> ef_symbol ` set fs \<union> hm_free_symbol ` set hs" for short
    using that syms by (auto simp: resolve_def dlsym_def crate_symbols_def)
  have frees: "mapR (\<lambda>h. map_sum id (Pair (hs_rust_name h)) (?res (hs_free h))) (map handle_spec_of hs) =
      Inr (map (\<lambda>h. (hs_rust_name h, (m, crate_prefix pkg @ hs_free h))) (map handle_spec_of hs))"
    by (rule mapR_all) (auto simp: handle_spec_of_def res)
  have on_dump: "\<exists>p. (case hook of None \<Rightarrow> Inr None | Some sm \<Rightarrow> map_sum id Some (?res sm)) = Inr p"
    using hook res by (cases hook) auto
  let ?bind = "\<lambda>x f. bindR (?res (fs_symbol f)) (\<lambda>p.
      bindR (wrapper_form (map hs_rust_name (map handle_spec_of hs)) (map downcase (cr_package c @ '':'' @ fs_lisp_name f)) f) (\<lambda>_.
      Inr (lisp_symbol c (fs_lisp_name f), Wrapper (cr_name c) x p f)))"
  have bind: "?bind x (fn_spec_of (gen_meta_const r f)) =
      (if callbacks f \<le> 1
       then Inr (lisp_symbol c (ef_lisp_name f), Wrapper (cr_name c) x (m, crate_prefix pkg @ ef_symbol f) (fn_spec_of (gen_meta_const r f)))
       else Inl (ManifestError (map downcase (cr_package c @ '':'' @ ef_lisp_name f) @ '': at most one callback parameter (v1)'')))"
    if "f \<in> set fs" for x f
  proof -
    have "map hs_rust_name (map handle_spec_of hs) = map hm_rust_name hs" by (simp add: handle_spec_of_def comp_def)
    moreover have "fs_symbol (fn_spec_of (gen_meta_const r f)) = ef_symbol f" "fs_lisp_name (fn_spec_of (gen_meta_const r f)) = ef_lisp_name f"
      by (simp_all add: fn_spec_of_def gen_meta_names)
    moreover have "?res (ef_symbol f) = Inr (m, crate_prefix pkg @ ef_symbol f)" using that by (intro res) blast
    ultimately show ?thesis using wrappers [OF that] by (simp only: bindR_simps split: if_split) simp
  qed
  have binds: "(\<exists>fns. mapR (?bind x) (map (fn_spec_of \<circ> gen_meta_const r) fs) = Inr fns) \<longleftrightarrow> (\<forall>f\<in>set fs. callbacks f \<le> 1)" for x
  proof -
    have "mapR (?bind x) (map (fn_spec_of \<circ> gen_meta_const r) fs) = mapR (\<lambda>f. ?bind x (fn_spec_of (gen_meta_const r f))) fs"
      by (induction fs) simp_all
    then show ?thesis using mapR_decided [where xs = fs, OF bind] by simp
  qed
  let ?owned = "\<lambda>h. let sm = lisp_symbol c (hs_lisp_name h)
      in case ld_class_owner s sm of
           Some own \<Rightarrow> if own \<noteq> cr_name c then Inl (ManifestError ''handle class already belongs to another crate'') else Inr sm
         | None \<Rightarrow> Inr sm"
  have classes: "mapR ?owned (map handle_spec_of hs) = Inr (map (\<lambda>h. lisp_symbol c (hs_lisp_name h)) (map handle_spec_of hs))"
    by (rule mapR_all) (auto simp: handle_spec_of_def owner)
  have prepared: "(\<exists>b. prepare_bindings (ld_class_owner s) c mf x ?res = Inr b) \<longleftrightarrow> (\<forall>f\<in>set fs. callbacks f \<le> 1)" for x
    unfolding prepare_bindings_def mf_def built_manifest_def manifest.simps classes binds [of x, symmetric] bindR_simps bindR_eq_Inr
    by blast
  have prefix: "mf_prefix mf = crate_prefix pkg" "mf_on_dump mf = hook" "mf_handles mf = map handle_spec_of hs"
    by (simp_all add: mf_def built_manifest_def)
  obtain p where p: "(case hook of None \<Rightarrow> Inr None | Some sm \<Rightarrow> map_sum id Some (?res sm)) = Inr p" using on_dump by blast
  let ?frees = "map (\<lambda>h. (hs_rust_name h, (m, crate_prefix pkg @ hs_free h))) (map handle_spec_of hs)"
  let ?x = "\<lparr>lx_generation = Suc (cr_generation c), lx_session = ld_session s, lx_last_error = (m, crate_prefix pkg @ ''last_error''),
      lx_dealloc = (m, crate_prefix pkg @ ''dealloc''), lx_free_table = ?frees\<rparr>"
  have ptrs: "?res ''last_error'' = Inr (m, crate_prefix pkg @ ''last_error'')" "?res ''dealloc'' = Inr (m, crate_prefix pkg @ ''dealloc'')"
    by (simp_all add: res)
  have last: "(\<exists>y. bindR q (\<lambda>b. Inr (k b)) = Inr y) \<longleftrightarrow> (\<exists>b. q = Inr b)" for q :: "(load_error, 'q) result" and k :: "'q \<Rightarrow> loader"
    by (cases q) simp_all
  show ?thesis
    unfolding commit_generation_def Let_def prefix ptrs frees p bindR_simps last prepared ..
qed

text \<open>The first load of a crate from an artifact that is in order, up to the commit.\<close>

lemma first_load:
  fixes s d path pkg lib
  defines "s1 \<equiv> s\<lparr>ld_maps := (ld_maps s)(ld_next s \<mapsto> lib), ld_next := Suc (ld_next s)\<rparr>"
    and "c \<equiv> new_crate pkg (map upcase pkg)"
  defines "s2 \<equiv> s1\<lparr>ld_order := ld_order s @ [pkg], ld_crates := (ld_crates s)(pkg \<mapsto> c)\<rparr>"
  assumes disk: "\<not> dk_directory d path" "dk_contents d path = Some contents" "check_artifact_shape contents = Inr ()"
      "dk_copy d path = None" "dk_open d path = Inr lib"
    and abi: "dlsym lib (crate_prefix pkg @ ''abi_version'')" "unat (li_u32 lib (crate_prefix pkg @ ''abi_version'')) = 1"
    and mf: "read_library_manifest lib (crate_prefix pkg) = Inr (mf, raw)" "mf_abi mf = 1" "mf_crate mf = pkg"
      "mf_target mf = Some target" "target_compatible h target"
    and new: "ld_crates s pkg = None"
  shows "load_crate d h path (Some pkg) None s =
    (case commit_generation c path (ld_next s) lib mf raw s2 of Inl e \<Rightarrow> (Inl e, s2) | Inr s3 \<Rightarrow> (Inr pkg, s3))"
proof -
  have prefix: "underscored pkg @ ''_rulisp_'' = crate_prefix pkg" by (simp add: crate_prefix_def)
  have "verify_library h (crate_prefix pkg) lib = Inr (mf, raw)" using abi mf by (simp add: verify_library_def Let_def)
  moreover have "registered pkg None s1 = (c, s2)" using new by (simp add: registered_def Let_def s1_def s2_def c_def)
  ultimately show ?thesis
    using disk mf(3)
    by (simp add: load_crate_def load_crate_locked_def open_and_verify_def Let_def prefix load_verified_def s1_def [symmetric]
        split: sum.split)
qed

lemma built_functions:
  assumes "distinct (map (map upcase \<circ> ef_lisp_name) fs)" and "f \<in> set fs" and "mf_functions mf = map (fn_spec_of \<circ> gen_meta_const r) fs"
    and "cr_package c' = map upcase pkg"
    and "set (cr_symbols c') = (\<lambda>f. lisp_symbol c' (fs_lisp_name f)) ` set (mf_functions mf)"
    and "\<forall>sm\<in>set (cr_symbols c'). \<exists>f\<in>set (mf_functions mf). sm = lisp_symbol c' (fs_lisp_name f) \<and>
           functions' sm = Some (Wrapper pkg x (m, mf_prefix mf @ fs_symbol f) f)"
  shows "functions' (map upcase pkg, map upcase (ef_lisp_name f)) =
    Some (Wrapper pkg x (m, mf_prefix mf @ ef_symbol f) (fn_spec_of (gen_meta_const r f)))"
proof -
  let ?sm = "(map upcase pkg, map upcase (ef_lisp_name f))"
  have sm: "lisp_symbol c' (fs_lisp_name (fn_spec_of (gen_meta_const r k))) = (map upcase pkg, map upcase (ef_lisp_name k))" for k
    by (simp add: lisp_symbol_def assms(4) fn_spec_of_def gen_meta_names)
  have "?sm \<in> set (cr_symbols c')" unfolding assms(3,5) using assms(2) by (simp add: image_image sm)
  with assms(6) obtain k where k: "k \<in> set fs" "?sm = (map upcase pkg, map upcase (ef_lisp_name k))"
    "functions' ?sm = Some (Wrapper pkg x (m, mf_prefix mf @ fs_symbol (fn_spec_of (gen_meta_const r k))) (fn_spec_of (gen_meta_const r k)))"
    unfolding assms(3) by (auto simp: sm)
  from assms(1) have "inj_on (map upcase \<circ> ef_lisp_name) (set fs)" by (simp only: distinct_map)
  then have "k = f" by (rule inj_onD) (use k(1,2) assms(2) in simp_all)
  with k(3) show ?thesis by (simp add: fn_spec_of_def gen_meta_names)
qed

lemma well_built_loads:
  assumes "well_built rust_name_of rulisp_version target pkg version fn_const handle_const mi fs txt"
    and "artifact_of d h path lib target pkg fs (map handle_const (mi_handles mi)) txt"
    and "loader_reach N s" and "inj_on underscored N" and "ld_crates s pkg = None"
    and "\<forall>hd\<in>set (mi_handles mi). ld_class_owner s (map upcase pkg, map upcase (hm_lisp_name (handle_const hd))) = None"
  shows "if \<forall>f\<in>set fs. callbacks f \<le> 1
    then \<exists>s' x. load_crate d h path (Some pkg) None s = (Inr pkg, s') \<and> next_generation s s' pkg None path \<and> lx_generation x = 1 \<and>
      (\<forall>f\<in>set fs. ld_functions s' (map upcase pkg, map upcase (ef_lisp_name f)) =
         Some (Wrapper pkg x (ld_next s, crate_prefix pkg @ ef_symbol f) (fn_spec_of (gen_meta_const rust_name_of f))))
    else \<exists>e s'. load_crate d h path (Some pkg) None s = (Inl e, s')"
proof -
  let ?hs = "map handle_const (mi_handles mi)"
  let ?mf = "built_manifest rust_name_of rulisp_version target pkg version ?hs fs (mi_on_dump mi)"
  note w = assms(1) [unfolded well_built_def] and a = assms(2) [unfolded artifact_of_def]
  let ?c = "new_crate pkg (map upcase pkg)"
  let ?s1 = "s\<lparr>ld_maps := (ld_maps s)(ld_next s \<mapsto> lib), ld_next := Suc (ld_next s)\<rparr>"
  let ?s2 = "?s1\<lparr>ld_order := ld_order s @ [pkg], ld_crates := (ld_crates s)(pkg \<mapsto> ?c)\<rparr>"
  let ?commit = "commit_generation ?c path (ld_next s) lib ?mf txt ?s2"
  have mf: "mf_abi ?mf = 1" "mf_target ?mf = Some target" "mf_crate ?mf = pkg" "mf_prefix ?mf = crate_prefix pkg"
    "mf_functions ?mf = map (fn_spec_of \<circ> gen_meta_const rust_name_of) fs"
    by (simp_all add: built_manifest_def)
  have syms: "dlsym lib (crate_prefix pkg @ ''abi_version'')" "dlsym lib (crate_prefix pkg @ ''manifest'')"
    using a by (auto simp: dlsym_def crate_symbols_def)
  have read: "read_library_manifest lib (crate_prefix pkg) = Inr (?mf, txt)"
    using syms a built_manifest_reads(1) [OF assms(1)] by (simp add: read_library_manifest_def manifest_entry_def)
  have abi: "unat (li_u32 lib (crate_prefix pkg @ ''abi_version'')) = 1" using a by (simp add: abi_entry_def ABI_VERSION_def)
  have load: "load_crate d h path (Some pkg) None s = (case ?commit of Inl e \<Rightarrow> (Inl e, ?s2) | Inr s3 \<Rightarrow> (Inr pkg, s3))"
    using a first_load [OF _ _ _ _ _ syms(1) abi read mf(1,3,2) _ assms(5)] by blast
  have "wrapper_form (map hm_rust_name ?hs) q (fn_spec_of (gen_meta_const rust_name_of f)) =
      (if callbacks f \<le> 1 then Inr () else Inl (ManifestError (q @ '': at most one callback parameter (v1)'')))"
    if "f \<in> set fs" for f q
    using w that wrapper_form_built [of _ f _ _ pkg _ "map hm_rust_name ?hs" rust_name_of q] by fastforce
  then have commit: "(\<exists>s'. ?commit = Inr s') \<longleftrightarrow> (\<forall>f\<in>set fs. callbacks f \<le> 1)"
    using a built_manifest_reads(2) [OF assms(1)] assms(6)
    by (intro commit_built) (auto simp: lisp_symbol_def new_crate_def)
  show ?thesis
  proof (cases "\<forall>f\<in>set fs. callbacks f \<le> 1")
    case True
    with commit obtain s' where com: "?commit = Inr s'" by blast
    then have run: "load_crate d h path (Some pkg) None s = (Inr pkg, s')" using load by simp
    have next_gen: "next_generation s s' pkg None path"
      using successful_load run loader_reach_ok [OF assms(3,4)] unfolding load_crate_def by blast
    from com obtain c'' x'' fns where c'': "committed ?c path (ld_next s) lib ?mf ?s2 c'' x'' fns"
      "ld_crates s' = (ld_crates ?s2)(cr_name ?c \<mapsto> c'')" by (rule commit_generation_effect) simp
    from next_gen assms(5) obtain c' mf' x where g: "ld_crates s' = (ld_crates s)(pkg \<mapsto> c')" "cr_generation c' = 1"
      "cr_package c' = map upcase pkg" "cr_manifest c' = Some mf'" "lx_generation x = cr_generation c'"
      "set (cr_symbols c') = (\<lambda>f. lisp_symbol c' (fs_lisp_name f)) ` set (mf_functions mf')"
      "\<forall>sm\<in>set (cr_symbols c'). \<exists>f\<in>set (mf_functions mf'). sm = lisp_symbol c' (fs_lisp_name f) \<and>
           ld_functions s' sm = Some (Wrapper pkg x (ld_next s, mf_prefix mf' @ fs_symbol f) f)"
      unfolding next_generation_def by (auto simp: new_crate_def)
    have "c'' = c'" using c''(2) g(1) by (metis crate.select_convs(1) map_upd_Some_unfold new_crate_def)
    then have mf': "mf' = ?mf" using c''(1) g(4) by (simp add: committed_def)
    have dist: "distinct (map (map upcase \<circ> ef_lisp_name) fs)" using w by blast
    note built_functions [OF dist _ mf(5) g(3) g(6) [unfolded mf'] g(7) [unfolded mf']]
    with True run next_gen g(2,5) mf(4) show ?thesis by auto
  next
    case False
    with commit obtain e where "?commit = Inl e" by (cases ?commit) auto
    with load False show ?thesis by simp
  qed
qed

section \<open>Properties\<close>


text \<open>
  (C7) A load happens entirely or not at all.  One that fails leaves every binding, every class and every
  crate that was registered as they were, and at most registers a crate that has no generation yet.  One that succeeds
  makes exactly one crate one generation newer: its symbols are the manifest's functions, each bound to a wrapper of the
  new library, symbols it no longer exports are unbound, and every other symbol and crate is as it was.
\<close>

theorem load_all_or_nothing:
  assumes "loader_reach N s" and "inj_on underscored N" and "load_crate_locked d h path_arg crate_arg package s = (r, s')"
  shows "(\<forall>e. r = Inl e \<longrightarrow> only_registers s s') \<and>
    (\<forall>n path. r = Inr n \<longrightarrow> path_arg = Some path \<longrightarrow> next_generation s s' n package path)"
  using failed_load successful_load loader_reach_ok [OF assms(1,2)] assms(3) by blast


section \<open>A crate with one hook\<close>

text \<open>The crate \<^verbatim>\<open>demo\<close> of theory \<open>Macros\<close>, its artifact, and the same without the symbol of its deallocator.\<close>

definition demo_text :: bytes where
  "demo_text = projr (module_manifest ''0.8.0'' ''unknown'' ''demo'' ''0.1.0'' (\<lambda>_. gen_meta_const (\<lambda>_. ''H'') sample_export)
     (\<lambda>_. handle_meta_of [] ''H'') sample_module)"

definition demo_library :: "bytes list \<Rightarrow> library" where
  "demo_library syms = \<lparr>li_symbols = syms, li_u32 = (\<lambda>_. abi_entry), li_text = (\<lambda>_. manifest_entry demo_text)\<rparr>"

definition demo_disk :: "bytes list \<Rightarrow> disk" where
  "demo_disk syms = \<lparr>dk_directory = (\<lambda>_. False), dk_contents = (\<lambda>_. Some []), dk_stem = (\<lambda>_. ''libdemo''), dk_copy = (\<lambda>_. None),
     dk_open = (\<lambda>_. Inr (demo_library syms))\<rparr>"

definition demo_host :: host where
  "demo_host = \<lparr>ho_x86_64 = True, ho_arm64 = False, ho_linux = True, ho_macos = False, ho_windows = False\<rparr>"

abbreviation demo_symbols :: "bytes list" where
  "demo_symbols \<equiv> crate_symbols ''demo'' [sample_export] []"

lemma demo_well_built:
  "well_built (\<lambda>_. ''H'') ''0.8.0'' ''unknown'' ''demo'' ''0.1.0'' (\<lambda>_. gen_meta_const (\<lambda>_. ''H'') sample_export)
     (\<lambda>_. handle_meta_of [] ''H'') sample_module [sample_export] demo_text"
proof -
  have r: "mapR meta_path (mi_fns sample_module) = Inr [[meta_const_ident ''ping'']]"
    by (simp add: sample_module_def meta_path_def)
  then have t: "module_manifest ''0.8.0'' ''unknown'' ''demo'' ''0.1.0'' (\<lambda>_. gen_meta_const (\<lambda>_. ''H'') sample_export)
      (\<lambda>_. handle_meta_of [] ''H'') sample_module = Inr demo_text"
    unfolding demo_text_def by (simp add: module_manifest_def sample_module_def is_ident_def gen_meta_const_def sample_export_def)
  have gen: "\<exists>d. gen_fn ''demo'' sample_export = Inr d" by (simp add: gen_fn_def sample_export_def)
  show ?thesis
    unfolding well_built_def
    using t r gen sample_item_exports
    by (auto simp: plain_names_def plain_def sample_export_def sample_module_def gen_meta_const_def fn_spec_of_def upcase_def)
qed

lemma demo_artifact: "artifact_of (demo_disk demo_symbols) demo_host path (demo_library demo_symbols) ''unknown'' ''demo'' [sample_export] [] demo_text"
proof -
  have "check_artifact_shape [] = Inr ()" by (simp add: check_artifact_shape_def octets_at_def)
  moreover have "target_compatible demo_host ''unknown''" by code_simp
  ultimately show ?thesis by (simp add: artifact_of_def demo_disk_def demo_library_def)
qed

lemma demo_names: "disk_names {''demo''} (demo_disk syms)"
  using built_manifest_reads(1) [OF demo_well_built]
  by (auto simp: disk_names_def demo_disk_def demo_library_def read_library_manifest_def manifest_entry_def built_manifest_def
      split: if_splits)

lemma demo_handles: "map (\<lambda>_ :: path. handle_meta_of [] ''H'') (mi_handles sample_module) = []"
  by (simp add: sample_module_def)

lemma demo_values:
  "[upcase CHR ''d'', upcase CHR ''e'', upcase CHR ''m'', upcase CHR ''o''] = ''DEMO''"
  "[upcase CHR ''p'', upcase CHR ''i'', upcase CHR ''n'', upcase CHR ''g''] = ''PING''"
  "crate_prefix ''demo'' = ''demo_rulisp_''"
  "ef_lisp_name sample_export = ''ping''" "ef_symbol sample_export = ''ping''" "callbacks sample_export = 0"
  "ld_crates loader_init ''demo'' = None" "ld_next loader_init = 0" "mi_handles sample_module = []"
  by (code_simp, code_simp, code_simp, simp_all add: sample_export_def loader_init_def sample_module_def)

lemma demo_loads:
  "\<exists>s' x. load_crate (demo_disk demo_symbols) demo_host ''libdemo.so'' (Some ''demo'') None loader_init = (Inr ''demo'', s') \<and>
     ld_functions s' (''DEMO'', ''PING'') =
       Some (Wrapper ''demo'' x (0, ''demo_rulisp_ping'') (fn_spec_of (gen_meta_const (\<lambda>_. ''H'') sample_export)))"
  using well_built_loads [OF demo_well_built, unfolded demo_handles, OF demo_artifact loader_reach.start [of "{''demo''}"] _ demo_values(7)]
  by (simp add: demo_values) blast



text \<open>A load that finds no deallocator fails, and leaves the crate registered without a generation.\<close>

theorem load_all_or_nothing_witness:
  "\<exists>e s'. load_crate (demo_disk (filter (\<lambda>k. k \<noteq> ''demo_rulisp_dealloc'') demo_symbols)) demo_host ''libdemo.so'' (Some ''demo'') None loader_init =
       (Inl e, s') \<and> only_registers loader_init s' \<and> ld_crates s' ''demo'' = Some (new_crate ''demo'' ''DEMO'')"
proof -
  let ?syms = "filter (\<lambda>k. k \<noteq> ''demo_rulisp_dealloc'') demo_symbols"
  let ?lib = "demo_library ?syms" and ?c = "new_crate ''demo'' (map upcase ''demo'')"
  have prefix: "crate_prefix ''demo'' = ''demo_rulisp_''" by code_simp
  have syms: "demo_symbols = [''demo_rulisp_abi_version'', ''demo_rulisp_manifest'', ''demo_rulisp_last_error'', ''demo_rulisp_dealloc'', ''demo_rulisp_ping'']"
    by (simp add: crate_symbols_def prefix sample_export_def)
  obtain mf where mf: "parse_manifest demo_text = Inr mf" "mf_abi mf = 1" "mf_crate mf = ''demo''" "mf_target mf = Some ''unknown''"
    "mf_prefix mf = crate_prefix ''demo''"
    using built_manifest_reads(1) [OF demo_well_built] by (simp add: built_manifest_def)
  have read: "read_library_manifest ?lib (crate_prefix ''demo'') = Inr (mf, demo_text)"
    by (simp add: read_library_manifest_def dlsym_def demo_library_def manifest_entry_def mf(1) syms prefix)
  have fails: "\<exists>e. commit_generation ?c path m ?lib mf raw s = Inl e" for path m raw s
    by (simp add: commit_generation_def Let_def resolve_def dlsym_def demo_library_def mf(5) prefix syms)
  have disk: "\<not> dk_directory (demo_disk ?syms) path" "dk_contents (demo_disk ?syms) path = Some []"
    "dk_copy (demo_disk ?syms) path = None" "dk_open (demo_disk ?syms) path = Inr ?lib" for path
    by (simp_all add: demo_disk_def)
  have shape: "check_artifact_shape [] = Inr ()" by (simp add: check_artifact_shape_def octets_at_def)
  have target: "target_compatible demo_host ''unknown''" by code_simp
  have abi: "dlsym ?lib (crate_prefix ''demo'' @ ''abi_version'')" "unat (li_u32 ?lib (crate_prefix ''demo'' @ ''abi_version'')) = 1"
    by (simp_all add: dlsym_def demo_library_def abi_entry_def ABI_VERSION_def syms prefix)
  note load = first_load [OF disk(1,2) shape disk(3,4) abi read mf(2,3,4) target demo_values(7), of "''libdemo.so''"]
  let ?s1 = "loader_init\<lparr>ld_maps := (ld_maps loader_init)(ld_next loader_init \<mapsto> ?lib), ld_next := Suc (ld_next loader_init)\<rparr>"
  let ?s2 = "?s1\<lparr>ld_order := ld_order loader_init @ [''demo''], ld_crates := (ld_crates loader_init)(''demo'' \<mapsto> ?c)\<rparr>"
  obtain e where "commit_generation ?c ''libdemo.so'' (ld_next loader_init) ?lib mf demo_text ?s2 = Inl e" using fails by blast
  then have run: "load_crate (demo_disk ?syms) demo_host ''libdemo.so'' (Some ''demo'') None loader_init = (Inl e, ?s2)"
    unfolding load by (simp only: sum.case)
  obtain s' where def_s': "s' = ?s2" by blast
  note run = run [folded def_s']
  have s': "ld_crates s' ''demo'' = Some ?c" by (simp add: def_s')
  have "only_registers loader_init s'"
    using load_all_or_nothing [OF loader_reach.start [of "{''demo''}"] _ run [unfolded load_crate_def]] by simp
  moreover have "map upcase ''demo'' = ''DEMO''" by code_simp
  ultimately show ?thesis using run s' by (simp only:) blast
qed

end
