(* ===== verification/Fetch_Testserver.thy ===== *)
theory Fetch_Testserver
  imports Text
begin

text \<open>
  \<^verbatim>\<open>examples/fetch/src/testserver.rs\<close>: the loopback HTTP server of the fetch suite.  A socket is the sequence of answers
  its reads give; a reply is the list of what is written, flushed and waited for, as far as the socket takes it.
\<close>

section \<open>Reading a request\<close>

datatype sock_read = SockByte octet | SockEof | SockErr bytes

definition HEAD_END :: bytes where
  "HEAD_END = [CR, LF, CR, LF]"

definition ends_with :: "bytes \<Rightarrow> bytes \<Rightarrow> bool" where
  "ends_with suf s \<longleftrightarrow> length suf \<le> length s \<and> List.drop (length s - length suf) s = suf"

text \<open>One octet per read; the answer of the \<open>n\<close>-th read is \<open>sock n\<close>, and \<open>n\<close> octets have been read before it.\<close>

partial_function (option) read_loop :: "(nat \<Rightarrow> sock_read) \<Rightarrow> bytes \<Rightarrow> (bytes, bytes) result option" where
  "read_loop sock buf =
     (if ends_with HEAD_END buf then Some (Inr buf)
      else (case sock (length buf) of
              SockErr e \<Rightarrow> Some (Inl e)
            | SockEof \<Rightarrow> Some (Inr buf)
            | SockByte b \<Rightarrow>
                (let buf' = buf @ [b] in if 64 * 1024 < length buf' then Some (Inr buf') else read_loop sock buf')))"

text \<open>\<^verbatim>\<open>str::split_whitespace\<close>, on the octets of a valid string.\<close>

function split_whitespace :: "bytes \<Rightarrow> bytes \<Rightarrow> bytes list" where
  "split_whitespace word s =
     (let flush = (if word = [] then [] else [word])
      in case s of
           [] \<Rightarrow> flush
         | c # cs \<Rightarrow>
             (case List.find (\<lambda>w. w \<noteq> [] \<and> take (length w) s = w) WHITE_SPACE of
                Some w \<Rightarrow> flush @ split_whitespace [] (List.drop (length w) s)
              | None \<Rightarrow> split_whitespace (word @ [c]) cs))"
  by pat_completeness auto
termination
  by (relation "measure (length \<circ> snd)") (auto simp: find_Some_iff)

declare split_whitespace.simps [simp del]

definition request_path_of :: "bytes \<Rightarrow> bytes" where
  "request_path_of buf =
     (case str_lines (from_utf8_lossy buf) of
        [] \<Rightarrow> ''/''
      | l # _ \<Rightarrow> (case split_whitespace [] l of _ # p # _ \<Rightarrow> p | _ \<Rightarrow> ''/''))"

definition header_block_of :: "bytes \<Rightarrow> bytes" where
  "header_block_of buf = (case position (\<lambda>b. b = LF) buf of Some i \<Rightarrow> List.drop (i + 1) buf | None \<Rightarrow> [])"

definition read_request :: "(nat \<Rightarrow> sock_read) \<Rightarrow> (bytes, bytes \<times> bytes) result option" where
  "read_request sock =
     map_option (\<lambda>r. case r of Inl e \<Rightarrow> Inl e | Inr buf \<Rightarrow> Inr (request_path_of buf, header_block_of buf)) (read_loop sock [])"

section \<open>Replies\<close>

datatype sock_op = Send bytes | Flush | Pause u64

definition reply_head :: "bytes list \<Rightarrow> bytes" where
  "reply_head ls = concat (map (\<lambda>l. l @ [CR, LF]) ls) @ [CR, LF]"

fun hex :: "nat \<Rightarrow> bytes" where
  "hex n = (if n < 16 then [octet (if n < 10 then 48 + n else 87 + n)]
     else hex (n div 16) @ [octet (if n mod 16 < 10 then 48 + n mod 16 else 87 + n mod 16)])"

declare hex.simps [simp del]

text \<open>\<^verbatim>\<open>while left > 0\<close>: the blocks of a body of \<open>left\<close> octets.\<close>

function block_lengths :: "nat \<Rightarrow> nat list" where
  "block_lengths left = (if left = 0 then [] else let k = min left (64 * 1024) in k # block_lengths (left - k))"
  by pat_completeness auto
termination
  by (relation "measure id") auto

declare block_lengths.simps [simp del]

definition xs_of :: "nat \<Rightarrow> bytes" where
  "xs_of n = replicate n CHR ''x''"

definition parse_usize_or_0 :: "bytes \<Rightarrow> nat" where
  "parse_usize_or_0 s = (case parse_u64 s of Some n \<Rightarrow> unat n | None \<Rightarrow> 0)"

definition parse_u16 :: "bytes \<Rightarrow> nat option" where
  "parse_u16 s = Option.bind (parse_u64 s) (\<lambda>n. if unat n < 2 ^ 16 then Some (unat n) else None)"

definition segments :: "bytes \<Rightarrow> bytes list" where
  "segments path = split_on CHR ''/'' (dropWhile (\<lambda>c. c = CHR ''/'') path)"

abbreviation OK_LINE :: bytes where
  "OK_LINE \<equiv> ''HTTP/1.1 200 OK''"

abbreviation CLOSE :: bytes where
  "CLOSE \<equiv> ''Connection: close''"

abbreviation CHUNKED :: bytes where
  "CHUNKED \<equiv> ''Transfer-Encoding: chunked''"

abbreviation OCTETS :: bytes where
  "OCTETS \<equiv> ''Content-Type: application/octet-stream''"

abbreviation length_line :: "nat \<Rightarrow> bytes" where
  "length_line n \<equiv> ''Content-Length: '' @ dec n"

definition serve_bytes :: "nat \<Rightarrow> sock_op list" where
  "serve_bytes n =
     Send (reply_head [OK_LINE, OCTETS, length_line n, CLOSE]) # map (\<lambda>k. Send (xs_of k)) (block_lengths n)"

definition serve_no_length :: "nat \<Rightarrow> sock_op list" where
  "serve_no_length n =
     Send (reply_head [OK_LINE, CHUNKED, CLOSE]) #
     concat (map (\<lambda>k. [Send (hex k @ [CR, LF]), Send (xs_of k), Send [CR, LF]]) (block_lengths n)) @
     [Send (''0'' @ HEAD_END)]"

definition serve_drip :: "nat \<Rightarrow> u64 \<Rightarrow> sock_op list" where
  "serve_drip n ms =
     Send (reply_head [OK_LINE, CHUNKED, CLOSE]) #
     concat (replicate n [Send (''1'' @ [CR, LF] @ ''d'' @ [CR, LF]), Flush, Pause ms]) @ [Send (''0'' @ HEAD_END)]"

definition serve_empty :: "bytes list \<Rightarrow> sock_op list" where
  "serve_empty ls = [Send (reply_head (ls @ [length_line 0, CLOSE]))]"

definition serve :: "bytes \<Rightarrow> bytes \<Rightarrow> sock_op list" where
  "serve path req_headers =
     (case segments path of
        [a] \<Rightarrow>
          if a = ''dup-headers'' then serve_empty [OK_LINE, ''Set-Cookie: a=1'', ''Set-Cookie: b=2'']
          else if a = ''obs-text'' then serve_empty [OK_LINE, ''Content-Disposition: inline; name=caf'' @ [CHR 0xE9]]
          else if a = ''echo-headers'' then
            [Send (reply_head [OK_LINE, OCTETS, length_line (length req_headers), CLOSE]), Send req_headers]
          else serve_empty [''HTTP/1.1 404 Not Found'']
      | [a, n] \<Rightarrow>
          if a = ''bytes'' then serve_bytes (parse_usize_or_0 n)
          else if a = ''no-length'' then serve_no_length (parse_usize_or_0 n)
          else if a = ''delay'' then Pause (case parse_u64 n of Some ms \<Rightarrow> ms | None \<Rightarrow> 0) # serve_empty [OK_LINE]
          else if a = ''status'' then
            serve_empty [''HTTP/1.1 '' @ dec (case parse_u16 n of Some st \<Rightarrow> st | None \<Rightarrow> 200) @ '' X'']
          else serve_empty [''HTTP/1.1 404 Not Found'']
      | [a, n, ms] \<Rightarrow>
          if a = ''drip'' then serve_drip (parse_usize_or_0 n) (case parse_u64 ms of Some t \<Rightarrow> t | None \<Rightarrow> 10)
          else serve_empty [''HTTP/1.1 404 Not Found'']
      | _ \<Rightarrow> serve_empty [''HTTP/1.1 404 Not Found'']) @ [Flush]"

definition sent_octets :: "sock_op list \<Rightarrow> bytes" where
  "sent_octets ops = concat (map (\<lambda>op. case op of Send bs \<Rightarrow> bs | _ \<Rightarrow> []) ops)"

definition serve_connection :: "(nat \<Rightarrow> sock_read) \<Rightarrow> (bytes, sock_op list) result option" where
  "serve_connection sock =
     map_option (\<lambda>r. case r of Inl e \<Rightarrow> Inl e | Inr (path, block) \<Rightarrow> Inr (serve path block)) (read_request sock)"

text \<open>\<^verbatim>\<open>serve_loop\<close>: a task per accepted connection, until accepting fails.\<close>

datatype accept_event = Accepted "nat \<Rightarrow> sock_read" | AcceptErr

fun serve_loop :: "accept_event list \<Rightarrow> (nat \<Rightarrow> sock_read) list" where
  "serve_loop (Accepted sock # evs) = sock # serve_loop evs"
| "serve_loop _ = []"

section \<open>What a client reads\<close>

text \<open>The reference for the chunked coding: chunks of a size in hexadecimal, up to the empty one.\<close>

definition unhex_digit :: "octet \<Rightarrow> nat option" where
  "unhex_digit c =
     (if is_digit c then Some (code c - 48) else if 97 \<le> code c \<and> code c \<le> 102 then Some (code c - 87) else None)"

fun unhex_acc :: "nat \<Rightarrow> bytes \<Rightarrow> nat option" where
  "unhex_acc n [] = Some n"
| "unhex_acc n (c # cs) = (case unhex_digit c of None \<Rightarrow> None | Some d \<Rightarrow> unhex_acc (16 * n + d) cs)"

definition unhex :: "bytes \<Rightarrow> nat option" where
  "unhex s = (if s = [] then None else unhex_acc 0 s)"

function unchunk :: "bytes \<Rightarrow> bytes option" where
  "unchunk s =
     (let size = takeWhile (\<lambda>c. c \<noteq> CR) s; rest = List.drop (length size + 2) s
      in if take 2 (List.drop (length size) s) \<noteq> [CR, LF] then None
         else case unhex size of
                None \<Rightarrow> None
              | Some n \<Rightarrow>
                  if n = 0 then (if rest = [CR, LF] then Some [] else None)
                  else if length rest < n + 2 \<or> take 2 (List.drop n rest) \<noteq> [CR, LF] then None
                  else map_option (\<lambda>d. take n rest @ d) (unchunk (List.drop (n + 2) rest)))"
  by pat_completeness auto
termination
  by (relation "measure length") auto

declare unchunk.simps [simp del]

lemma unhex_acc_append: "unhex_acc n (s @ [c]) = Option.bind (unhex_acc n s) (\<lambda>m. map_option (\<lambda>d. 16 * m + d) (unhex_digit c))"
  by (induction s arbitrary: n) (auto split: option.splits)

lemma hex_digit:
  assumes "n < 16"
  shows "unhex_digit (octet (if n < 10 then 48 + n else 87 + n)) = Some n" and "octet (if n < 10 then 48 + n else 87 + n) \<noteq> CR"
proof -
  let ?c = "octet (if n < 10 then 48 + n else 87 + n)"
  have code: "code ?c = (if n < 10 then 48 + n else 87 + n)" using assms by simp
  then show "unhex_digit ?c = Some n" using assms by (auto simp: unhex_digit_def is_digit_def)
  have "code CR < 48" by code_simp
  show "?c \<noteq> CR"
  proof
    assume "?c = CR"
    with \<open>code CR < 48\<close> have "code ?c < 48" by (simp only:)
    then show False unfolding code by (simp split: if_splits)
  qed
qed

lemma hex_not_Nil: "hex n \<noteq> []"
  by (simp add: hex.simps [of n])

lemma unhex_acc_hex: "unhex_acc 0 (hex n) = Some n"
proof (induction n rule: hex.induct)
  case (1 n)
  show ?case
  proof (cases "n < 16")
    case True
    then show ?thesis using hex_digit [OF True] by (simp add: hex.simps [of n])
  next
    case False
    have "n mod 16 < 16" by simp
    from hex_digit [OF this] 1 [OF False] False show ?thesis
      by (simp add: hex.simps [of n] unhex_acc_append)
  qed
qed

lemma hex_no_CR: "CR \<notin> set (hex n)"
proof (induction n rule: hex.induct)
  case (1 n)
  have m: "n mod 16 < 16" by simp
  show ?case
  proof (cases "n < 16")
    case True
    then show ?thesis using hex_digit(2) [OF True] by (simp add: hex.simps [of n])
  next
    case False
    with 1 [OF False] hex_digit(2) [OF m] show ?thesis by (simp add: hex.simps [of n])
  qed
qed

lemma size_line: "CR \<notin> set h \<Longrightarrow> takeWhile (\<lambda>c. c \<noteq> CR) (h @ CR # s) = h"
  by (induction h) auto

lemma unchunk_chunk:
  assumes "0 < length d"
  shows "unchunk (hex (length d) @ [CR, LF] @ d @ [CR, LF] @ s) = map_option (\<lambda>b. d @ b) (unchunk s)"
proof -
  have "takeWhile (\<lambda>c. c \<noteq> CR) (hex (length d) @ CR # LF # d @ CR # LF # s) = hex (length d)"
    by (rule size_line [OF hex_no_CR])
  then show ?thesis
    using assms by (subst unchunk.simps) (simp add: Let_def unhex_def hex_not_Nil unhex_acc_hex)
qed

lemma unchunk_end: "unchunk (CHR ''0'' # HEAD_END) = Some []"
  by (subst unchunk.simps) (simp add: HEAD_END_def Let_def unhex_def unhex_digit_def is_digit_def)

lemma unchunk_chunks:
  assumes "\<forall>d\<in>set ds. 0 < length d"
  shows "unchunk (concat (map (\<lambda>d. hex (length d) @ [CR, LF] @ d @ [CR, LF]) ds) @ ''0'' @ HEAD_END) = Some (concat ds)"
  using assms
proof (induction ds)
  case (Cons d ds)
  then show ?case using unchunk_chunk [of d] by (simp del: append_assoc append_Cons add: append_assoc [symmetric]) (simp add: append_assoc)
qed (simp add: unchunk_end)

lemma block_lengths_pos: "k \<in> set (block_lengths n) \<Longrightarrow> 0 < k \<and> k \<le> 64 * 1024"
  by (induction n rule: block_lengths.induct) (subst (asm) (2) block_lengths.simps, auto simp: Let_def split: if_splits)

lemma block_lengths_sum: "concat (map xs_of (block_lengths n)) = xs_of n"
proof (induction n rule: block_lengths.induct)
  case (1 n)
  have "xs_of (min n 65536) @ xs_of (n - min n 65536) = xs_of n"
    by (simp add: xs_of_def replicate_add [symmetric])
  moreover have "xs_of 0 = []" by (simp add: xs_of_def)
  ultimately show ?case using 1 by (subst block_lengths.simps) (cases "n = 0"; simp add: Let_def)
qed

section \<open>Properties\<close>

text \<open>What was read: at most 64 KiB and one octet, up to the end of a head, the end of the input or the limit.\<close>

definition reads_from :: "(nat \<Rightarrow> sock_read) \<Rightarrow> (bytes, bytes) result \<Rightarrow> bool" where
  "reads_from sock r \<longleftrightarrow>
     (case r of
        Inl e \<Rightarrow> \<exists>n\<le>64 * 1024. sock n = SockErr e
      | Inr buf \<Rightarrow> length buf \<le> 64 * 1024 + 1 \<and> (\<forall>i<length buf. sock i = SockByte (buf ! i)) \<and>
          (ends_with HEAD_END buf \<or> sock (length buf) = SockEof \<or> length buf = 64 * 1024 + 1))"

lemma read_loop_returns:
  assumes "length buf \<le> 64 * 1024" and "\<forall>i<length buf. sock i = SockByte (buf ! i)"
  shows "\<exists>r. read_loop sock buf = Some r \<and> reads_from sock r"
  using assms
proof (induction "64 * 1024 - length buf" arbitrary: buf rule: less_induct)
  case less
  show ?case
  proof (cases "ends_with HEAD_END buf")
    case True
    with less.prems show ?thesis by (subst read_loop.simps) (simp add: reads_from_def)
  next
    case False
    note here = read_loop.simps [of sock buf]
    show ?thesis
    proof (cases "sock (length buf)")
      case (SockByte b)
      have bytes: "\<forall>i<length (buf @ [b]). sock i = SockByte ((buf @ [b]) ! i)"
        using less.prems(2) SockByte by (simp add: nth_append less_Suc_eq)
      show ?thesis
      proof (cases "64 * 1024 < length (buf @ [b])")
        case True
        with less.prems(1) bytes SockByte False here show ?thesis by (simp add: reads_from_def)
      next
        case shorter: False
        then have "64 * 1024 - length (buf @ [b]) < 64 * 1024 - length buf" "length (buf @ [b]) \<le> 64 * 1024" by simp_all
        from less.hyps [OF this bytes] shorter SockByte False here show ?thesis by simp
      qed
    qed (use less.prems False here in \<open>auto simp: reads_from_def\<close>)
  qed
qed



text \<open>What each endpoint says it sends.\<close>

definition payload :: "bytes \<Rightarrow> bytes \<Rightarrow> bytes" where
  "payload path req_headers =
     (case segments path of
        [a] \<Rightarrow> if a = ''echo-headers'' then req_headers else []
      | [a, n] \<Rightarrow> if a = ''bytes'' \<or> a = ''no-length'' then xs_of (parse_usize_or_0 n) else []
      | [a, n, ms] \<Rightarrow> if a = ''drip'' then replicate (parse_usize_or_0 n) CHR ''d'' else []
      | _ \<Rightarrow> [])"

definition plain_line :: "bytes \<Rightarrow> bool" where
  "plain_line l \<longleftrightarrow> CR \<notin> set l \<and> LF \<notin> set l"

text \<open>A reply that says how its body is delimited, and delimits it so.\<close>

definition replies :: "sock_op list \<Rightarrow> bytes \<Rightarrow> bool" where
  "replies ops body \<longleftrightarrow>
     (\<exists>ls wire. sent_octets ops = reply_head ls @ wire \<and> (\<forall>l\<in>set ls. plain_line l) \<and> CLOSE \<in> set ls \<and>
        (CHUNKED \<in> set ls \<and> unchunk wire = Some body \<or> length_line (length body) \<in> set ls \<and> wire = body))"

lemma sent_simps [simp]:
  "sent_octets [] = []" "sent_octets (Send bs # ops) = bs @ sent_octets ops" "sent_octets (Flush # ops) = sent_octets ops"
  "sent_octets (Pause ms # ops) = sent_octets ops" "sent_octets (ops @ ops') = sent_octets ops @ sent_octets ops'"
  by (simp_all add: sent_octets_def)

lemma plain_simps [simp]:
  "plain_line []" "plain_line (c # s) \<longleftrightarrow> c \<noteq> CR \<and> c \<noteq> LF \<and> plain_line s" "plain_line (s @ s') \<longleftrightarrow> plain_line s \<and> plain_line s'"
  by (auto simp: plain_line_def)

lemma dec_plain [simp]: "plain_line (dec n)"
proof -
  have "\<not> is_digit CR" "\<not> is_digit LF" by (simp_all add: is_digit_def)
  with dec_digits [of _ n] show ?thesis unfolding plain_line_def by blast
qed

lemma hex_1: "hex (Suc 0) = ''1''"
  by (subst hex.simps) code_simp

lemma replies_flush [simp]: "replies (ops @ [Flush]) body = replies ops body"
  by (simp add: replies_def)

lemma replies_pause [simp]: "replies (Pause ms # ops) body = replies ops body"
  by (simp add: replies_def)

lemma replies_empty: "\<forall>l\<in>set ls. plain_line l \<Longrightarrow> replies (serve_empty ls) []"
  unfolding replies_def serve_empty_def
  by (intro exI [of _ "ls @ [length_line 0, CLOSE]"] exI [of _ "[]"]) auto

lemma replies_length:
  "sent_octets ops = body \<Longrightarrow> replies (Send (reply_head [OK_LINE, OCTETS, length_line (length body), CLOSE]) # ops) body"
  unfolding replies_def
  by (intro exI [of _ "[OK_LINE, OCTETS, length_line (length body), CLOSE]"] exI [of _ body]) simp

lemma replies_chunked:
  "sent_octets ops = concat (map (\<lambda>d. hex (length d) @ [CR, LF] @ d @ [CR, LF]) ds) @ ''0'' @ HEAD_END \<Longrightarrow>
   \<forall>d\<in>set ds. 0 < length d \<Longrightarrow> replies (Send (reply_head [OK_LINE, CHUNKED, CLOSE]) # ops) (concat ds)"
  unfolding replies_def
  by (intro exI [of _ "[OK_LINE, CHUNKED, CLOSE]"] exI) (auto simp: unchunk_chunks [simplified])

lemma replies_bytes: "replies (serve_bytes n) (xs_of n)"
proof -
  have "sent_octets (map (\<lambda>k. Send (xs_of k)) ks) = concat (map xs_of ks)" for ks
    by (induction ks) simp_all
  then show ?thesis using replies_length [of "map (\<lambda>k. Send (xs_of k)) (block_lengths n)" "xs_of n"]
    by (simp add: serve_bytes_def block_lengths_sum xs_of_def)
qed

lemma replies_no_length: "replies (serve_no_length n) (xs_of n)"
proof -
  have "sent_octets (concat (map (\<lambda>k. [Send (hex k @ [CR, LF]), Send (xs_of k), Send [CR, LF]]) ks) @ [Send (''0'' @ HEAD_END)]) =
      concat (map (\<lambda>d. hex (length d) @ [CR, LF] @ d @ [CR, LF]) (map xs_of ks)) @ ''0'' @ HEAD_END" for ks
    by (induction ks) (simp_all add: xs_of_def)
  then show ?thesis
    using replies_chunked [of _ "map xs_of (block_lengths n)"] block_lengths_pos
    unfolding serve_no_length_def block_lengths_sum by (fastforce simp: xs_of_def)
qed

lemma replies_drip: "replies (serve_drip n ms) (replicate n CHR ''d'')"
proof -
  have "sent_octets (concat (replicate n [Send (''1'' @ [CR, LF] @ ''d'' @ [CR, LF]), Flush, Pause ms]) @ [Send (''0'' @ HEAD_END)]) =
      concat (map (\<lambda>d. hex (length d) @ [CR, LF] @ d @ [CR, LF]) (replicate n ''d'')) @ ''0'' @ HEAD_END"
    by (induction n) (simp_all add: hex_1)
  moreover have "concat (replicate n ''d'') = replicate n CHR ''d''" by (induction n) simp_all
  ultimately show ?thesis using replies_chunked [of _ "replicate n ''d''"] by (simp add: serve_drip_def)
qed

text \<open>
  Every reply delimits its body.  Whatever is asked, the octets written are a head of lines and a body; the head
  says that the connection closes, and either that the body is chunked, and then decoding it gives what the endpoint is
  documented to send, or how long the body is, and then the body is exactly that.
\<close>

theorem replies_delimited: "replies (serve path req_headers) (payload path req_headers)"
proof -
  have other: "replies (serve_empty [''HTTP/1.1 404 Not Found'']) []" by (simp add: replies_empty)
  consider "segments path = []" | a where "segments path = [a]" | a n where "segments path = [a, n]"
    | a n ms where "segments path = [a, n, ms]" | a n ms x xs where "segments path = a # n # ms # x # xs"
    by (metis neq_Nil_conv)
  then show ?thesis
  proof cases
    case (2 a)
    with other replies_empty replies_length [of "[Send req_headers]" req_headers] show ?thesis
      by (simp add: serve_def payload_def)
  next
    case (3 a n)
    with other replies_empty replies_bytes replies_no_length show ?thesis
      by (simp add: serve_def payload_def)
  next
    case (4 a n ms)
    with other replies_drip show ?thesis by (simp add: serve_def payload_def)
  qed (use other in \<open>simp_all add: serve_def payload_def\<close>)
qed

end
