(* ===== verification/Rx.thy ===== *)
theory Rx
  imports Callback
begin

text \<open>
  The quickstart example (\<^verbatim>\<open>examples/rx/src/lib.rs\<close>): a handle over a compiled pattern of the \<^verbatim>\<open>regex\<close> crate
  and its exported methods. The crate itself is not part of the repository, so it is a parameter, a record of its
  operations; \<open>regex_documented\<close> is what its documentation says of them and what the lemma at the end needs.
\<close>

section \<open>The regex crate\<close>

text \<open>A match is a span of the text, its first octet and the octet past its last.\<close>

type_synonym span = "nat \<times> nat"

record 're regex_crate =
  re_new :: "bytes \<Rightarrow> (bytes, 're) result"
  re_is_match :: "'re \<Rightarrow> bytes \<Rightarrow> bool"
  re_find :: "'re \<Rightarrow> bytes \<Rightarrow> span option"
  re_find_iter :: "'re \<Rightarrow> bytes \<Rightarrow> span list"
  re_replace_all :: "'re \<Rightarrow> bytes \<Rightarrow> bytes \<Rightarrow> bytes"
  re_escape :: "bytes \<Rightarrow> bytes"

definition as_str :: "bytes \<Rightarrow> span \<Rightarrow> bytes" where
  "as_str s m = take (snd m - fst m) (List.drop (fst m) s)"

section \<open>The handle and its methods\<close>

record 're rx_regex =
  rx_inner :: 're

text \<open>A bad pattern is an error whose text is the crate's own.\<close>

definition rx_new :: "'re regex_crate \<Rightarrow> bytes \<Rightarrow> (bytes, 're rx_regex) result" where
  "rx_new R pattern =
     (case re_new R pattern of
        Inl e \<Rightarrow> Inl e
      | Inr r \<Rightarrow> Inr \<lparr>rx_inner = r\<rparr>)"

definition rx_is_match :: "'re regex_crate \<Rightarrow> 're rx_regex \<Rightarrow> bytes \<Rightarrow> bool" where
  "rx_is_match R r s = re_is_match R (rx_inner r) s"

definition rx_count :: "'re regex_crate \<Rightarrow> 're rx_regex \<Rightarrow> bytes \<Rightarrow> u64" where
  "rx_count R r s = of_nat (length (re_find_iter R (rx_inner r) s))"

definition rx_replace_all :: "'re regex_crate \<Rightarrow> 're rx_regex \<Rightarrow> bytes \<Rightarrow> bytes \<Rightarrow> bytes" where
  "rx_replace_all R r s replacement = re_replace_all R (rx_inner r) s replacement"

definition rx_first_match :: "'re regex_crate \<Rightarrow> 're rx_regex \<Rightarrow> bytes \<Rightarrow> bytes option" where
  "rx_first_match R r s = map_option (as_str s) (re_find R (rx_inner r) s)"

text \<open>
  The matched text is a slice of the argument, so the pointer the closure receives is the argument's address
  \<open>p\<close> plus the offset of the match.
\<close>

fun for_each_loop ::
  "tid \<Rightarrow> ('h, 'z) trampoline \<Rightarrow> ptr \<Rightarrow> bytes \<Rightarrow> callback \<Rightarrow> span list \<Rightarrow> u64 \<Rightarrow> ('h, 'z) runtime_scheme \<Rightarrow>
   (error, u64) result \<times> ('h, 'z) runtime_scheme" where
  "for_each_loop t tramp p s f [] n \<sigma> = (Inr n, \<sigma>)"
| "for_each_loop t tramp p s f (m # ms) n \<sigma> =
     (case callback_call t tramp f (ArgStr (p + of_nat (fst m)) (as_str s m)) \<sigma> of
        (Inl e, \<sigma>') \<Rightarrow> (Inl (error_from_callback e), \<sigma>')
      | (Inr _, \<sigma>') \<Rightarrow> for_each_loop t tramp p s f ms (n + 1) \<sigma>')"

definition rx_for_each_match ::
  "'re regex_crate \<Rightarrow> tid \<Rightarrow> ('h, 'z) trampoline \<Rightarrow> 're rx_regex \<Rightarrow> ptr \<Rightarrow> bytes \<Rightarrow> callback \<Rightarrow>
   ('h, 'z) runtime_scheme \<Rightarrow> (error, u64) result \<times> ('h, 'z) runtime_scheme" where
  "rx_for_each_match R t tramp r p s f \<sigma> = for_each_loop t tramp p s f (re_find_iter R (rx_inner r) s) 0 \<sigma>"

definition rx_escape :: "'re regex_crate \<Rightarrow> bytes \<Rightarrow> bytes" where
  "rx_escape R s = re_escape R s"

section \<open>What the methods answer together\<close>

definition regex_documented :: "'re regex_crate \<Rightarrow> bool" where
  "regex_documented R \<longleftrightarrow>
     (\<forall>re s. re_find R re s = (case re_find_iter R re s of [] \<Rightarrow> None | m # _ \<Rightarrow> Some m) \<and>
       (re_is_match R re s \<longleftrightarrow> re_find R re s \<noteq> None) \<and> length (re_find_iter R re s) < 2 ^ 64)"

text \<open>
  A closure whose verdict depends on the match alone and that changes the state by \<open>eff\<close> sees the matches in
  order up to and including the first it refuses; the tunnel is armed exactly on a refusal.
\<close>

lemma for_each_loop_visits:
  assumes "\<And>m \<sigma>. invoke tramp (cb_fnptr f) (cb_userdata f) (ArgStr (p + of_nat (fst m)) (as_str s m)) \<sigma> =
      (st m, eff m \<sigma>)"
  shows "for_each_loop t tramp p s f ms n \<sigma> =
    (let seen = takeWhile (\<lambda>m. st m = 0) ms; \<sigma>' = foldl (\<lambda>\<sigma> m. eff m \<sigma>) \<sigma> seen
     in if seen = ms then (Inr (n + of_nat (length ms)), \<sigma>')
        else (Inl (error_from_callback CallbackError), set_callback_tunnel t (eff (ms ! length seen) \<sigma>')))"
  by (induction ms arbitrary: n \<sigma>) (auto simp: assms callback_call_def Let_def simp del: takeWhile_eq_all_conv)

lemma rx_methods_agree:
  assumes "regex_documented R"
  shows "(rx_is_match R r s \<longleftrightarrow> rx_first_match R r s \<noteq> None) \<and> (rx_is_match R r s \<longleftrightarrow> rx_count R r s \<noteq> 0)"
proof -
  have "(of_nat (length (re_find_iter R (rx_inner r) s)) :: u64) = 0 \<longleftrightarrow> re_find_iter R (rx_inner r) s = []"
  proof (rule iffI)
    assume "(of_nat (length (re_find_iter R (rx_inner r) s)) :: u64) = 0"
    then have "2 ^ 64 dvd length (re_find_iter R (rx_inner r) s)" by (simp add: word_of_nat_eq_0_iff)
    moreover have "length (re_find_iter R (rx_inner r) s) < 2 ^ 64" using assms by (simp add: regex_documented_def)
    ultimately have "length (re_find_iter R (rx_inner r) s) = 0" using nat_dvd_not_less by blast
    then show "re_find_iter R (rx_inner r) s = []" by simp
  qed simp
  with assms show ?thesis
    by (auto simp: regex_documented_def rx_is_match_def rx_first_match_def rx_count_def split: list.splits)
qed

lemma for_each_match_counts:
  assumes "\<And>m \<sigma>. invoke tramp (cb_fnptr f) (cb_userdata f) (ArgStr (p + of_nat (fst m)) (as_str s m)) \<sigma> = (0, eff m \<sigma>)"
  shows "rx_for_each_match R t tramp r p s f \<sigma> =
    (Inr (rx_count R r s), foldl (\<lambda>\<sigma> m. eff m \<sigma>) \<sigma> (re_find_iter R (rx_inner r) s))"
  by (simp add: rx_for_each_match_def rx_count_def Let_def takeWhile_eq_all_conv [THEN iffD2]
      for_each_loop_visits [where st = "\<lambda>_. 0" and eff = eff, OF assms])

end
