(* ===== verification/Spec2Isabelle.thy ===== *)
theory Spec2Isabelle
  imports Runtime Inbox Manifest Macros Callback Shim Shim_Exec Wordbag_Calls Fetch_System Httpd_System Httpd_Server
    Httpd_Probe Wasi Handle_Cell Stored_Registry Loader Fetch_Testserver Rx
begin

text \<open>
  A verification of rulisp, the bridge that exports Rust functions and types to Common Lisp.

  \<^bold>\<open>The program.\<close>  A Rust crate marks functions and \<^verbatim>\<open>impl\<close> blocks with \<^verbatim>\<open>#[rulisp::export]\<close>, types with
  \<^verbatim>\<open>#[rulisp::handle]\<close>, and lists them in \<^verbatim>\<open>rulisp::module!\<close>.  The macros
  (\<^verbatim>\<open>src/crates/rulisp-macros\<close>) classify each signature against a closed vocabulary of types, generate an
  \<^verbatim>\<open>extern "C"\<close> shim per function and constant metadata.  The runtime (\<^verbatim>\<open>src/crates/rulisp-runtime\<close>) is what
  the shims call: the panic fence, the thread's error slot, borrowed arguments, buffers and handles handed
  to Lisp, and the renderer of the textual manifest.  The user crate (\<^verbatim>\<open>src/crates/rulisp\<close>) adds error types,
  callbacks into Lisp, and the \<^verbatim>\<open>Inbox\<close> queue.  The Lisp side (\<^verbatim>\<open>src/lisp/src\<close>) reads the manifest and
  generates one wrapper per function, which passes arguments by the same rules.  The example crates
  (\<^verbatim>\<open>src/examples\<close>) are exported through all of this: \<^verbatim>\<open>wordbag\<close>, the regex wrapper \<^verbatim>\<open>rx\<close>, the HTTP client
  \<^verbatim>\<open>fetch\<close>, the HTTP server \<^verbatim>\<open>httpd\<close> and the sandbox \<^verbatim>\<open>wasm\<close>.

  \<^bold>\<open>The bridge.\<close>
  \<^item> \<^verbatim>\<open>Rulisp_Prelude\<close>: types, the result monad, lists of octets, decimal printing, lemma collections.
  \<^item> \<^verbatim>\<open>Utf8\<close> and \<^verbatim>\<open>Text\<close>: what the code uses of the standard library on strings.  UTF-8 validation accepts exactly the
    encodings of sequences of Unicode scalar values; trimming, lossy conversion.
  \<^item> \<^verbatim>\<open>Runtime\<close> (\<^verbatim>\<open>rulisp-runtime/src/lib.rs\<close>): thread-local error slot and tunnel flag, the allocation
    ledger and the handle table are one record; one definition per function.  A call whose Rust safety
    contract is broken is \<open>None\<close>.  The interface \<open>buffer_transfer\<close> is what Lisp relies on when it takes and
    releases a buffer; it is interpreted for strings, byte vectors and scalar vectors.
  \<^item> \<^verbatim>\<open>Inbox\<close> (\<^verbatim>\<open>rulisp/src/inbox.rs\<close>): one definition per critical section, composed by a step relation over
    a multiset of threads, the two condition variables and the clock.  The interface \<open>fifo_channel\<close> is
    interpreted on it.  Order, no loss, no lost wake-up, finality of close, bounded waits.
  \<^item> \<^verbatim>\<open>Manifest\<close> (\<^verbatim>\<open>rulisp-runtime/src/meta.rs\<close>, \<^verbatim>\<open>lisp/src/manifest.lisp\<close>): the renderer, the Lisp reader and
    the validation of the manifest; what is written is what is read.
  \<^item> \<^verbatim>\<open>Macros\<close> (\<^verbatim>\<open>rulisp-macros/src/lib.rs\<close>): naming, docs, classification, attributes, metadata and
    \<^verbatim>\<open>module!\<close>, over the part of the \<^verbatim>\<open>syn\<close> syntax tree the code inspects.
  \<^item> \<^verbatim>\<open>Callback\<close> (\<^verbatim>\<open>rulisp/src/lib.rs\<close>): error types, borrowed and stored callbacks.
  \<^item> \<^verbatim>\<open>Shim\<close>: the C signature \<^verbatim>\<open>gen_fn\<close> emits, and the one \<^verbatim>\<open>codegen.lisp\<close> derives from the manifest; they agree.
  \<^item> \<^verbatim>\<open>Shim_Exec\<close>: the behaviour of the emitted body, with the user's function as a parameter, and how the
    Lisp wrapper takes the result: values cross unchanged, and each failure gives its one status.
  \<^item> \<^verbatim>\<open>Handle_Cell\<close> (\<^verbatim>\<open>lisp/src/handle.lisp\<close>): the cells that own Rust objects, and the interleavings of calls, frees,
    finalizers and image restores on them; no use after free, and each free made once, by the library that made the object.
  \<^item> \<^verbatim>\<open>Stored_Registry\<close> (\<^verbatim>\<open>lisp/src/stored-callback.lisp\<close>): closures under the ids that Rust keeps; an id never
    reaches another closure or a dead one.
  \<^item> \<^verbatim>\<open>Artifact\<close>, \<^verbatim>\<open>Loader\<close> (\<^verbatim>\<open>lisp/src/crate.lisp\<close>): the check of an object file's headers, exact for ELF, Mach-O and
    PE; loading, two-phase commit, reload, image restore and dump hooks.  A load happens entirely or not at all, nothing
    that can be called is of a dead library, and what the macros accept loads, with one exception that the theory states.

  \<^bold>\<open>The examples.\<close>
  \<^item> \<^verbatim>\<open>Wordbag\<close>, \<^verbatim>\<open>Wordbag_Module\<close>, \<^verbatim>\<open>Wordbag_Calls\<close> (\<^verbatim>\<open>examples/wordbag\<close>): every function; the crate's items
    expanded by the modelled macros into the golden manifest; sequences of calls through the shims.
  \<^item> \<^verbatim>\<open>Tokio\<close>, \<^verbatim>\<open>Schedule\<close>: the semaphores and one-shot channels both HTTP examples rely on, as parameters with the
    laws of their documentation, and the interface that makes a list of operations a run of a step relation.
  \<^item> \<^verbatim>\<open>Fetch_Headers\<close>, \<^verbatim>\<open>Fetch\<close>, \<^verbatim>\<open>Fetch_System\<close> (\<^verbatim>\<open>examples/fetch\<close>): header codec, client, request and task, and
    their interleaving: admission is conserved, bodies arrive in order and bounded, a clean end has delivered
    everything, a cancelled client can always drain.
  \<^item> \<^verbatim>\<open>Fetch_Testserver\<close>: the HTTP server of the fetch suite; reading a request ends whatever the client does, and every
    reply delimits its body.
  \<^item> \<^verbatim>\<open>Rx\<close> (\<^verbatim>\<open>examples/rx\<close>): the methods over the regex crate as a parameter.
  \<^item> \<^verbatim>\<open>Httpd_Response\<close>, \<^verbatim>\<open>Httpd\<close>, \<^verbatim>\<open>Httpd_System\<close>, \<^verbatim>\<open>Httpd_Server\<close>, \<^verbatim>\<open>Httpd_Probe\<close> (\<^verbatim>\<open>examples/httpd\<close>): response
    checks; queue, parking futures and request handles; their interleaving (one answer per request, bounds, nothing
    parked after a stop, nobody left waiting); the server handle and the accept loop; the probe and its splitter.
  \<^item> \<^verbatim>\<open>Wasm\<close>, \<^verbatim>\<open>Wasi\<close> (\<^verbatim>\<open>examples/wasm\<close>): typed calls and memory copies over the engine as a parameter; the
    sandbox with its capped output, counted read-only directories, time budget and single run, against a
    specification of the output as one log cut at the limit.

  \<^bold>\<open>Bounds and loops.\<close>  Machine integers are words of their width; \<^verbatim>\<open>usize\<close> has 64 bits.  Every loop is total
  recursion, over lists or with a measure (the header decoder, the response splitter), or, where a peer could keep it
  going, a partial function that is proved to return (\<^verbatim>\<open>read_loop\<close>); no fuel is used.  Concurrent
  code is a step relation whose steps are the critical sections and atomic operations of the source; timers, the network
  and the operating system choose among the steps, so a property holds whatever they do.  Condition-variable waits
  of the examples are the state before and after them.

  \<^bold>\<open>Not modelled.\<close>
  \<^item> wasmi, wasi-common, reqwest, hyper, axum, regex, and tokio beyond what \<^verbatim>\<open>Tokio\<close> states.
  \<^item> The build driver, the loader's cache directory, and the \<^verbatim>\<open>defun\<close> forms of the wrappers.
  \<^item> Parsing of Rust tokens, which is \<^verbatim>\<open>syn\<close>; floating-point arithmetic; \<^verbatim>\<open>Debug\<close> escaping.
  \<^item> The hand-written test fixtures under \<^verbatim>\<open>src/tests\<close> and \<^verbatim>\<open>src/tools\<close>.
\<close>

section \<open>The loader and the handle cells\<close>

text \<open>
  Theory \<open>Handle_Cell\<close> assumes of a wrapper's context that its free shims were resolved in the library that makes its
  objects.  Every wrapper the loader binds has such a context; mappings number the libraries of a process.
\<close>

definition cell_context :: "nat \<Rightarrow> load_ctx \<Rightarrow> gen_ctx" where
  "cell_context m x = \<lparr>gx_generation = m, gx_session = lx_session x, gx_free_table = map (apsnd fst) (lx_free_table x)\<rparr>"

lemma loaded_contexts_ok:
  assumes "loader_reach N s" and "inj_on underscored N" and "ld_functions s sm = Some (Wrapper n x p f)"
  shows "\<exists>m. ctx_ok (cell_context m x) \<and> wrapper_gate (ld_session s) (cell_context m x) = Inr ()"
proof -
  have "ok_except {} s" using loader_reach_ok [OF assms(1,2)] by blast
  from ok_exceptD(4) [OF this assms(3)] obtain c where "wrapper_ok s c x p" by blast
  then obtain m where "lx_session x = ld_session s" "\<forall>q\<in>ctx_ptrs x. fst q = m" by (auto simp: wrapper_ok_def live_ptr_def)
  then have "ctx_ok (cell_context m x)" "wrapper_gate (ld_session s) (cell_context m x) = Inr ()"
    by (auto simp: ctx_ok_def cell_context_def ctx_ptrs_def wrapper_gate_def)
  then show ?thesis by blast
qed

end
